(* ===== verification/Prelude.thy ===== *)
theory Prelude
  imports Main "HOL-Library.Word" "HOL-Library.Multiset"
begin

text \<open>
  Shared vocabulary of the development: the machine types of the Go sources
  (\<open>byte\<close>, \<open>u16\<close>, \<open>u32\<close>, \<open>u64\<close>), Go errors as values, the conversion between byte slices
  and strings, the collections of simplification rules the component theories
  fill, and the list and word lemmas more than one component uses.

  A Go string is a sequence of bytes. It is modelled as HOL's \<^typ>\<open>string\<close>
  (a list of 8-bit characters), a byte slice as a list of 8-bit words.
\<close>

section \<open>Collections of rules\<close>

named_theorems wire_simps \<open>evaluation rules of the wire-format readers and writers\<close>
named_theorems inv_intros \<open>invariant preservation lemmas, one per operation\<close>

section \<open>Machine types\<close>

type_synonym byte = "8 word"
type_synonym u16 = "16 word"
type_synonym u32 = "32 word"
type_synonym u64 = "64 word"
type_synonym bytes = "byte list"

definition byte_of_char :: "char \<Rightarrow> byte" where
  "byte_of_char c = word_of_nat (of_char c)"

definition char_of_byte :: "byte \<Rightarrow> char" where
  "char_of_byte b = char_of (unat b)"

text \<open>The Go conversions \<open>string(b)\<close> and \<open>[]byte(s)\<close>.\<close>

definition string_of_bytes :: "bytes \<Rightarrow> string" where
  "string_of_bytes bs = map char_of_byte bs"

definition bytes_of_string :: "string \<Rightarrow> bytes" where
  "bytes_of_string s = map byte_of_char s"

lemma unat_byte_lt [simp]: "unat (b :: byte) < 256"
  using unsigned_less [of b] by simp

lemma of_char_lt_256 [simp]: "(of_char c :: nat) < 256"
  using range_nat_of_char by (metis atLeastLessThan_iff rangeI)

lemma byte_of_char_of_byte [simp]: "byte_of_char (char_of_byte b) = b"
  by (simp add: byte_of_char_def char_of_byte_def)

lemma char_of_byte_of_char [simp]: "char_of_byte (byte_of_char c) = c"
  by (simp add: byte_of_char_def char_of_byte_def unat_of_nat)

lemma string_bytes_string [simp]: "string_of_bytes (bytes_of_string s) = s"
  by (simp add: string_of_bytes_def bytes_of_string_def comp_def)

lemma bytes_string_bytes [simp]: "bytes_of_string (string_of_bytes bs) = bs"
  by (simp add: string_of_bytes_def bytes_of_string_def comp_def)

lemma length_string_of_bytes [simp]: "length (string_of_bytes bs) = length bs"
  by (simp add: string_of_bytes_def)

lemma length_bytes_of_string [simp]: "length (bytes_of_string s) = length s"
  by (simp add: bytes_of_string_def)

lemma string_of_bytes_inj [simp]: "string_of_bytes a = string_of_bytes b \<longleftrightarrow> a = b"
  by (metis bytes_string_bytes)

lemma bytes_of_string_inj [simp]: "bytes_of_string a = bytes_of_string b \<longleftrightarrow> a = b"
  by (metis string_bytes_string)

lemma string_of_bytes_Nil [simp]: "string_of_bytes bs = [] \<longleftrightarrow> bs = []"
  by (simp add: string_of_bytes_def)

section \<open>Big-endian 16-bit fields\<close>

text \<open>
  Ports travel as two bytes: \<open>byte(p >> 8), byte(p & 0xff)\<close> on the way out,
  \<open>uint16(a) << 8 | uint16(b)\<close> on the way in.
\<close>

unbundle bit_operations_syntax

definition hi_byte :: "u16 \<Rightarrow> byte" where
  "hi_byte p = ucast (drop_bit 8 p)"

definition lo_byte :: "u16 \<Rightarrow> byte" where
  "lo_byte p = ucast (p AND 0xff)"

definition be16 :: "byte \<Rightarrow> byte \<Rightarrow> u16" where
  "be16 a b = push_bit 8 (ucast a) OR ucast b"

lemma mask_255_byte: "(mask 8 :: u16) = 255"
  by (simp add: mask_eq_exp_minus_1)

lemma be16_hi_lo [simp]: "be16 (hi_byte p) (lo_byte p) = p"
  unfolding be16_def hi_byte_def lo_byte_def
  by (rule bit_word_eqI) (auto simp: bit_simps simp flip: mask_255_byte)

lemma hi_byte_be16 [simp]: "hi_byte (be16 a b) = a"
  unfolding be16_def hi_byte_def
  by (rule bit_word_eqI) (auto simp: bit_simps dest: bit_imp_le_length)

lemma lo_byte_be16 [simp]: "lo_byte (be16 a b) = b"
  unfolding be16_def lo_byte_def
  by (rule bit_word_eqI) (auto simp: bit_simps simp flip: mask_255_byte)

section \<open>Errors as values\<close>

text \<open>
  A Go error is a sentinel (a package-level \<open>errors.New\<close> value compared by
  identity), a formatted message that wraps nothing, or a \<open>fmt.Errorf("...%w")\<close>
  value that wraps another error. \<open>errors.Is\<close> walks the wrapping chain.
  Formatted arguments of a message are not kept: only its fixed text is.
\<close>

datatype sentinel =
    EOF | ErrUnexpectedEOF | ErrShortWrite | ErrShortBuffer | ErrClosedPipe | OsErrClosed
  | NetErrClosed | Canceled | ErrDeadlineExceeded
  | ErrUserNotFound | ErrTargetACKFailed | ErrServerError | ErrBadRequest | ErrBlocked
  | ErrNotImplemented | ErrInvalidMessage | ErrInvalidPayload | ErrProxyHandshakeFailed
  | ErrUserAuthFailed | ErrNoSupportedAuth | ErrUnrecognizedAddrType | ErrIllegalRequest
  | ErrUDPFragmentation | ErrUDPMalformed | ErrUDPFQDNTooLong | ErrUDPAssociationLimit
  | ErrUDPNATLimit | ErrUDPDisabled
  | ErrServerAckTimeout | ErrServerRejected | ErrSignalArrived | ErrServerClosed | ErrServerStopped

datatype goerror = Sentinel sentinel | Errorf string | Wrap string goerror

type_synonym 'a result = "goerror + 'a"

fun errors_Is :: "goerror \<Rightarrow> sentinel \<Rightarrow> bool" where
  "errors_Is (Sentinel s) t = (s = t)"
| "errors_Is (Errorf m) t = False"
| "errors_Is (Wrap m e) t = errors_Is e t"

section \<open>Lists and maps\<close>

lemma take_drop_append_eq: "n \<le> length xs \<Longrightarrow> take n xs @ drop n xs = xs"
  by simp

lemma length_eq_4_conv: "length xs = 4 \<longleftrightarrow> (\<exists>a b c d. xs = [a, b, c, d])"
  by (auto simp: numeral_eq_Suc length_Suc_conv)

lemma find_SomeE:
  assumes "find P xs = Some x"
  obtains ys zs where "xs = ys @ x # zs" and "P x" and "\<forall>y \<in> set ys. \<not> P y"
proof -
  from assms have "\<exists>ys zs. xs = ys @ x # zs \<and> P x \<and> (\<forall>y \<in> set ys. \<not> P y)"
  proof (induction xs)
    case (Cons a xs)
    show ?case
    proof (cases "P a")
      case False
      with Cons obtain ys zs where "xs = ys @ x # zs" "P x" "\<forall>y \<in> set ys. \<not> P y" by auto
      with False show ?thesis by (intro exI [of _ "a # ys"] exI [of _ zs]) auto
    next
      case True
      with Cons.prems have "x = a" by simp
      with True show ?thesis by (intro exI [of _ "[]"] exI [of _ xs]) auto
    qed
  qed simp
  with that show ?thesis by blast
qed

section \<open>Draining systems\<close>

text \<open>
  The contract of an orderly shutdown. The steps of the phase keep its invariant and make a
  measure smaller, and as long as the goal has not been reached a step is possible. Then
  every run is finite, no longer than the measure, and every run can be completed.
\<close>

locale draining =
  fixes step :: "'s \<Rightarrow> 's \<Rightarrow> bool" and inv :: "'s \<Rightarrow> bool" and goal :: "'s \<Rightarrow> bool" and work :: "'s \<Rightarrow> nat"
  assumes step_inv: "inv s \<Longrightarrow> step s s' \<Longrightarrow> inv s'"
    and step_work: "inv s \<Longrightarrow> step s s' \<Longrightarrow> work s' < work s"
    and progress: "inv s \<Longrightarrow> \<not> goal s \<Longrightarrow> \<exists>s'. step s s'"
begin

lemma run_bounded: "inv s \<Longrightarrow> (step ^^ n) s s' \<Longrightarrow> inv s' \<and> work s' + n \<le> work s"
proof (induction n arbitrary: s')
  case (Suc n)
  then obtain t where t: "(step ^^ n) s t" "step t s'" by auto
  with Suc have "inv t" "work t + n \<le> work s" by auto
  with t(2) step_inv step_work [of t s'] show ?case by fastforce
qed simp

lemma can_finish: "inv s \<Longrightarrow> \<exists>s'. step\<^sup>*\<^sup>* s s' \<and> goal s'"
proof (induction "work s" arbitrary: s rule: less_induct)
  case less
  show ?case
  proof (cases "goal s")
    case False
    with less.prems obtain s1 where s1: "step s s1" using progress by blast
    with less obtain s2 where "step\<^sup>*\<^sup>* s1 s2" "goal s2" using step_inv step_work by blast
    with s1 show ?thesis by (meson converse_rtranclp_into_rtranclp)
  qed auto
qed

text \<open>What the shutdown theorems state: a bound, no schedule that is stuck early, and a way to the goal.\<close>

lemma drains:
  assumes "inv s" and "work s \<le> b" and "(step ^^ n) s s'"
  shows "n \<le> b \<and> (goal s' \<or> (\<exists>s''. step s' s'')) \<and> (\<exists>s''. step\<^sup>*\<^sup>* s' s'' \<and> goal s'')"
  using run_bounded [OF assms(1,3)] assms(2) progress [of s'] can_finish [of s'] by auto

lemma stuck_is_goal: "inv s \<Longrightarrow> \<nexists>s'. step s s' \<Longrightarrow> goal s"
  using progress by blast

end

section \<open>Refinement\<close>

text \<open>
  The contract of a stuttering refinement: every detailed step is a step of the abstract
  system or leaves the related abstract state as it is. Then every detailed run is an
  abstract run.
\<close>

locale refining =
  fixes cstep :: "'c \<Rightarrow> 'c \<Rightarrow> bool" and astep :: "'a \<Rightarrow> 'a \<Rightarrow> bool" and rel :: "'c \<Rightarrow> 'a \<Rightarrow> bool"
  assumes square: "rel c a \<Longrightarrow> cstep c c' \<Longrightarrow> \<exists>a'. (a' = a \<or> astep a a') \<and> rel c' a'"
begin

lemma run_refines: "cstep\<^sup>*\<^sup>* c c' \<Longrightarrow> rel c a \<Longrightarrow> \<exists>a'. astep\<^sup>*\<^sup>* a a' \<and> rel c' a'"
proof (induction rule: rtranclp_induct)
  case (step c1 c2)
  then obtain a1 where a1: "astep\<^sup>*\<^sup>* a a1" "rel c1 a1" by blast
  from square [OF a1(2) step.hyps(2)] a1(1) show ?case by (metis rtranclp.rtrancl_into_rtrancl)
qed blast

text \<open>What holds of every abstract state that can be reached carries over.\<close>

lemma run_inherits:
  assumes "cstep\<^sup>*\<^sup>* c c'" and "rel c a" and "\<And>a'. astep\<^sup>*\<^sup>* a a' \<Longrightarrow> P a'"
  shows "\<exists>a'. rel c' a' \<and> P a'"
  using run_refines [OF assms(1,2)] assms(3) by blast

end

end
