(* ===== verification/GoStrings.thy ===== *)
theory GoStrings
  imports Prelude
begin

text \<open>
  The parts of Go's \<open>strings\<close> and \<open>strconv\<close> packages the sources call, on byte
  strings. The Unicode tables are not modelled: where Go consults them (a string with a
  byte outside ASCII), the result is taken from a \<open>unicode\<close> record that every
  caller receives as an argument.
\<close>

section \<open>Bytes and case\<close>

definition is_ascii :: "char \<Rightarrow> bool" where
  "is_ascii c \<longleftrightarrow> (of_char c :: nat) < 128"

definition ascii_lower :: "char \<Rightarrow> char" where
  "ascii_lower c =
     (if 65 \<le> (of_char c :: nat) \<and> (of_char c :: nat) \<le> 90 then char_of ((of_char c :: nat) + 32) else c)"

definition ascii_space :: "char \<Rightarrow> bool" where
  "ascii_space c \<longleftrightarrow> (of_char c :: nat) \<in> {9, 10, 11, 12, 13, 32}"

lemma of_char_ascii_lower:
  "(of_char (ascii_lower c) :: nat) =
     (if 65 \<le> (of_char c :: nat) \<and> (of_char c :: nat) \<le> 90 then of_char c + 32 else of_char c)"
  by (simp add: ascii_lower_def)

lemma ascii_lower_idem [simp]: "ascii_lower (ascii_lower c) = ascii_lower c"
  by (simp add: ascii_lower_def)

lemma ascii_lower_dot [simp]: "ascii_lower c = CHR ''.'' \<longleftrightarrow> c = CHR ''.''"
proof
  assume "ascii_lower c = CHR ''.''"
  then have "(of_char (ascii_lower c) :: nat) = 46" by simp
  then have "(of_char c :: nat) = of_char (CHR ''.'')"
    by (simp add: of_char_ascii_lower split: if_splits)
  then show "c = CHR ''.''" by (simp only: of_char_eq_iff)
qed (simp add: ascii_lower_def)

lemma ascii_space_lower [simp]: "ascii_space (ascii_lower c) = ascii_space c"
  by (auto simp: ascii_space_def of_char_ascii_lower split: if_splits)

lemma is_ascii_lower [simp]: "is_ascii (ascii_lower c) = is_ascii c"
  by (auto simp: is_ascii_def of_char_ascii_lower split: if_splits)

lemma not_ascii_space_dot [simp]: "\<not> ascii_space (CHR ''.'')"
  by (simp add: ascii_space_def)

section \<open>Trimming and folding\<close>

definition trim_right :: "(char \<Rightarrow> bool) \<Rightarrow> string \<Rightarrow> string" where
  "trim_right P s = rev (dropWhile P (rev s))"

definition trim_both :: "(char \<Rightarrow> bool) \<Rightarrow> string \<Rightarrow> string" where
  "trim_both P s = trim_right P (dropWhile P s)"

text \<open>\<open>strings.TrimSpace\<close>, \<open>strings.ToLower\<close> and \<open>strings.EqualFold\<close> on strings with a
  byte outside ASCII.\<close>

record unicode =
  uni_TrimSpace :: "string \<Rightarrow> string"
  uni_ToLower :: "string \<Rightarrow> string"
  uni_EqualFold :: "string \<Rightarrow> string \<Rightarrow> bool"

definition strings_TrimSpace :: "unicode \<Rightarrow> string \<Rightarrow> string" where
  "strings_TrimSpace u s =
     (if list_all is_ascii s then trim_both ascii_space s else uni_TrimSpace u s)"

definition strings_ToLower :: "unicode \<Rightarrow> string \<Rightarrow> string" where
  "strings_ToLower u s =
     (if list_all is_ascii s then map ascii_lower s else uni_ToLower u s)"

definition strings_EqualFold :: "unicode \<Rightarrow> string \<Rightarrow> string \<Rightarrow> bool" where
  "strings_EqualFold u s t =
     (if list_all is_ascii s \<and> list_all is_ascii t then map ascii_lower s = map ascii_lower t
      else uni_EqualFold u s t)"

text \<open>\<open>strings.TrimRight(s, ".")\<close>.\<close>

definition trim_right_dots :: "string \<Rightarrow> string" where
  "trim_right_dots s = trim_right (\<lambda>c. c = CHR ''.'') s"

lemma set_trim_right: "set (trim_right P s) \<subseteq> set s"
  by (auto simp: trim_right_def dest: set_dropWhileD)

lemma set_trim_both: "set (trim_both P s) \<subseteq> set s"
  unfolding trim_both_def using set_trim_right set_dropWhileD by fastforce

lemma trim_right_snoc [simp]:
  "trim_right P (s @ [c]) = (if P c then trim_right P s else s @ [c])"
  by (simp add: trim_right_def)

lemma trim_right_Nil [simp]: "trim_right P [] = []"
  by (simp add: trim_right_def)

lemma trim_right_id: "(s = [] \<or> \<not> P (last s)) \<Longrightarrow> trim_right P s = s"
  by (cases s rule: rev_cases) auto

lemma trim_right_last: "trim_right P s \<noteq> [] \<Longrightarrow> \<not> P (last (trim_right P s))"
  by (induction s rule: rev_induct) auto

lemma trim_right_hd: "trim_right P s \<noteq> [] \<Longrightarrow> hd (trim_right P s) = hd s"
  by (induction s rule: rev_induct) (auto simp: hd_append split: if_splits)

lemma trim_right_map:
  "(\<And>c. P (f c) = P c) \<Longrightarrow> trim_right P (map f s) = map f (trim_right P s)"
  by (induction s rule: rev_induct) auto

lemma trim_both_id:
  "(s = [] \<or> \<not> P (hd s) \<and> \<not> P (last s)) \<Longrightarrow> trim_both P s = s"
  by (cases s) (auto simp: trim_both_def trim_right_id)

lemma trim_both_ends:
  "trim_both P s \<noteq> [] \<Longrightarrow> \<not> P (hd (trim_both P s)) \<and> \<not> P (last (trim_both P s))"
  unfolding trim_both_def
  by (metis hd_dropWhile trim_right_Nil trim_right_hd trim_right_last)

section \<open>Prefixes, search, splitting\<close>

definition strings_HasPrefix :: "string \<Rightarrow> string \<Rightarrow> bool" where
  "strings_HasPrefix s p \<longleftrightarrow> take (length p) s = p"

fun strings_Contains :: "string \<Rightarrow> string \<Rightarrow> bool" where
  "strings_Contains [] sub = (sub = [])"
| "strings_Contains (c # s) sub = (strings_HasPrefix (c # s) sub \<or> strings_Contains s sub)"

definition strings_TrimPrefix :: "string \<Rightarrow> string \<Rightarrow> string" where
  "strings_TrimPrefix s p = (if strings_HasPrefix s p then drop (length p) s else s)"

definition strings_HasSuffix :: "string \<Rightarrow> string \<Rightarrow> bool" where
  "strings_HasSuffix s p \<longleftrightarrow> length p \<le> length s \<and> drop (length s - length p) s = p"

fun IndexByte :: "string \<Rightarrow> char \<Rightarrow> nat option" where
  "IndexByte [] c = None"
| "IndexByte (x # xs) c = (if x = c then Some 0 else map_option Suc (IndexByte xs c))"

definition LastIndexByte :: "string \<Rightarrow> char \<Rightarrow> nat option" where
  "LastIndexByte s c = map_option (\<lambda>k. length s - 1 - k) (IndexByte (rev s) c)"

text \<open>\<open>strings.Cut\<close> and \<open>strings.Split\<close> at a one-byte separator.\<close>

definition strings_Cut :: "string \<Rightarrow> char \<Rightarrow> (string \<times> string) option" where
  "strings_Cut s c = (case IndexByte s c of None \<Rightarrow> None | Some i \<Rightarrow> Some (take i s, drop (Suc i) s))"

fun strings_Split :: "string \<Rightarrow> char \<Rightarrow> string list" where
  "strings_Split [] c = [[]]"
| "strings_Split (x # xs) c =
     (if x = c then [] # strings_Split xs c
      else case strings_Split xs c of [] \<Rightarrow> [[x]] | y # ys \<Rightarrow> (x # y) # ys)"

lemma IndexByte_None [simp]: "IndexByte s c = None \<longleftrightarrow> c \<notin> set s"
  by (induction s) auto

lemma IndexByte_append:
  "c \<notin> set s \<Longrightarrow> IndexByte (s @ t) c = map_option (\<lambda>k. length s + k) (IndexByte t c)"
  by (induction s; cases "IndexByte t c") (auto simp del: IndexByte_None)

lemma IndexByte_Some:
  "IndexByte s c = Some i \<Longrightarrow> i < length s \<and> s ! i = c \<and> c \<notin> set (take i s)"
proof (induction s arbitrary: i)
  case (Cons x xs)
  then show ?case by (cases i) (auto split: if_splits)
qed simp

lemma LastIndexByte_append:
  assumes "c \<notin> set t"
  shows "LastIndexByte (s @ c # t) c = Some (length s)"
proof -
  have "IndexByte (rev t @ c # rev s) c = Some (length t)"
    using assms by (simp add: IndexByte_append)
  then show ?thesis by (simp add: LastIndexByte_def)
qed

lemma LastIndexByte_None [simp]: "LastIndexByte s c = None \<longleftrightarrow> c \<notin> set s"
  by (simp add: LastIndexByte_def)

lemma strings_Cut_append: "c \<notin> set a \<Longrightarrow> strings_Cut (a @ c # b) c = Some (a, b)"
  by (simp add: strings_Cut_def IndexByte_append)

lemma strings_Cut_Some:
  "strings_Cut s c = Some (a, b) \<Longrightarrow> s = a @ c # b \<and> c \<notin> set a"
  unfolding strings_Cut_def
  by (auto split: option.splits dest!: IndexByte_Some simp: id_take_nth_drop [symmetric])

lemma strings_Cut_None [simp]: "strings_Cut s c = None \<longleftrightarrow> c \<notin> set s"
  by (auto simp: strings_Cut_def split: option.splits dest: IndexByte_Some)

lemma strings_Split_nonempty [simp]: "strings_Split s c \<noteq> []"
  by (induction s) (auto split: list.splits)

section \<open>Decimal numbers\<close>

definition is_digit :: "char \<Rightarrow> bool" where
  "is_digit c \<longleftrightarrow> 48 \<le> (of_char c :: nat) \<and> (of_char c :: nat) \<le> 57"

definition digit_char :: "nat \<Rightarrow> char" where
  "digit_char d = char_of (48 + d)"

definition dec_value :: "string \<Rightarrow> nat" where
  "dec_value s = foldl (\<lambda>v c. v * 10 + ((of_char c :: nat) - 48)) 0 s"

text \<open>\<open>strconv.Itoa\<close> and \<open>strconv.FormatUint(_, 10)\<close> on a non-negative number.\<close>

fun Itoa :: "nat \<Rightarrow> string" where
  "Itoa n = (if n < 10 then [digit_char n] else Itoa (n div 10) @ [digit_char (n mod 10)])"

declare Itoa.simps [simp del]

lemma of_char_digit_char [simp]: "d < 10 \<Longrightarrow> (of_char (digit_char d) :: nat) = 48 + d"
  by (simp add: digit_char_def)

lemma is_digit_digit_char [simp]: "d < 10 \<Longrightarrow> is_digit (digit_char d)"
  by (simp add: is_digit_def)

lemma dec_value_snoc [simp]: "dec_value (s @ [c]) = dec_value s * 10 + ((of_char c :: nat) - 48)"
  by (simp add: dec_value_def)

lemma dec_value_Nil [simp]: "dec_value [] = 0"
  by (simp add: dec_value_def)

lemma dec_value_Itoa [simp]: "dec_value (Itoa n) = n"
proof (induction n rule: Itoa.induct)
  case (1 n)
  show ?case
  proof (cases "n < 10")
    case True
    then have "Itoa n = [] @ [digit_char n]" by (simp add: Itoa.simps)
    with True show ?thesis by (simp only: dec_value_snoc) simp
  next
    case False
    with 1 show ?thesis by (simp add: Itoa.simps [of n])
  qed
qed

lemma Itoa_digits: "list_all is_digit (Itoa n)"
proof (induction n rule: Itoa.induct)
  case (1 n)
  then show ?case by (cases "n < 10") (simp_all add: Itoa.simps [of n])
qed

lemma Itoa_nonempty [simp]: "Itoa n \<noteq> []"
  by (subst Itoa.simps) simp

lemma Itoa_inj [simp]: "Itoa m = Itoa n \<longleftrightarrow> m = n"
  by (metis dec_value_Itoa)

lemma digit_not_special:
  "is_digit c \<Longrightarrow> c \<notin> {CHR '':'', CHR ''['', CHR '']'', CHR ''.'', CHR ''%'', CHR ''+'', CHR ''-''}"
  by (auto simp: is_digit_def)

lemma Itoa_not_special [simp]:
  "CHR '':'' \<notin> set (Itoa n)" "CHR ''['' \<notin> set (Itoa n)" "CHR '']'' \<notin> set (Itoa n)"
  "CHR ''.'' \<notin> set (Itoa n)"
  using Itoa_digits [of n] digit_not_special by (auto simp: list_all_iff)

text \<open>
  \<open>strconv.Atoi\<close>: an optional sign, then decimal digits, in the range of a 64-bit
  \<open>int\<close>. \<open>strconv.ParseUint(s, 10, bits)\<close>: digits only, below \<open>2 ^ bits\<close>.
\<close>

definition Atoi :: "string \<Rightarrow> int result" where
  "Atoi s =
     (let neg = (s \<noteq> [] \<and> hd s = CHR ''-'');
          body = (if s \<noteq> [] \<and> (hd s = CHR ''-'' \<or> hd s = CHR ''+'') then tl s else s)
      in if body = [] \<or> \<not> list_all is_digit body then Inl (Errorf ''invalid syntax'')
         else let v = (if neg then - int (dec_value body) else int (dec_value body))
              in if - (2 ^ 63) \<le> v \<and> v \<le> 2 ^ 63 - 1 then Inr v
                 else Inl (Errorf ''value out of range''))"

definition ParseUint10 :: "string \<Rightarrow> nat \<Rightarrow> nat result" where
  "ParseUint10 s bits =
     (if s = [] \<or> \<not> list_all is_digit s then Inl (Errorf ''invalid syntax'')
      else if dec_value s < 2 ^ bits then Inr (dec_value s)
      else Inl (Errorf ''value out of range''))"

lemma hd_Itoa_not_sign: "hd (Itoa n) \<noteq> CHR ''-'' \<and> hd (Itoa n) \<noteq> CHR ''+''"
proof -
  have "is_digit (hd (Itoa n))"
    using Itoa_digits [of n] by (simp add: list_all_iff)
  then show ?thesis using digit_not_special by blast
qed

lemma Atoi_Itoa [simp]: "n < 2 ^ 63 \<Longrightarrow> Atoi (Itoa n) = Inr (int n)"
  using hd_Itoa_not_sign [of n] Itoa_digits [of n] by (simp add: Atoi_def)

lemma ParseUint10_Itoa [simp]: "n < 2 ^ bits \<Longrightarrow> ParseUint10 (Itoa n) bits = Inr n"
  using Itoa_digits [of n] by (simp add: ParseUint10_def)

section \<open>Hexadecimal numbers\<close>

definition is_hex :: "char \<Rightarrow> bool" where
  "is_hex c \<longleftrightarrow> is_digit c \<or> (97 \<le> (of_char c :: nat) \<and> (of_char c :: nat) \<le> 102)
     \<or> (65 \<le> (of_char c :: nat) \<and> (of_char c :: nat) \<le> 70)"

definition hex_digit_value :: "char \<Rightarrow> nat" where
  "hex_digit_value c =
     (if is_digit c then of_char c - 48
      else if 97 \<le> (of_char c :: nat) then of_char c - 97 + 10 else of_char c - 65 + 10)"

definition hex_value :: "string \<Rightarrow> nat" where
  "hex_value s = foldl (\<lambda>v c. v * 16 + hex_digit_value c) 0 s"

definition hex_char :: "nat \<Rightarrow> char" where
  "hex_char d = (if d < 10 then char_of (48 + d) else char_of (87 + d))"

text \<open>Lower-case hexadecimal without leading zeros.\<close>

fun hex_show :: "nat \<Rightarrow> string" where
  "hex_show n = (if n < 16 then [hex_char n] else hex_show (n div 16) @ [hex_char (n mod 16)])"

declare hex_show.simps [simp del]

end
