(* ===== verification/GoNet.thy ===== *)
theory GoNet
  imports GoStrings
begin

text \<open>
  The parts of Go's \<open>net\<close> and \<open>net/netip\<close> packages the sources call: IP
  addresses as byte slices, \<open>SplitHostPort\<close>/\<open>JoinHostPort\<close>, the textual forms of
  addresses, address and prefix parsing, and the \<open>net.Addr\<close> values the relay handles.
\<close>

section \<open>IP addresses\<close>

type_synonym net_IP = bytes \<comment> \<open>the empty list is Go's \<open>nil\<close>\<close>

definition v4InV6Prefix :: bytes where
  "v4InV6Prefix = [0, 0, 0, 0, 0, 0, 0, 0, 0, 0, 0xff, 0xff]"

definition IPv4zero :: net_IP where
  "IPv4zero = v4InV6Prefix @ [0, 0, 0, 0]"

definition IPv6unspecified :: net_IP where
  "IPv6unspecified = replicate 16 0"

definition IPv6loopback :: net_IP where
  "IPv6loopback = replicate 15 0 @ [1]"

definition IP_To4 :: "net_IP \<Rightarrow> bytes option" where
  "IP_To4 ip =
     (if length ip = 4 then Some ip
      else if length ip = 16 \<and> take 12 ip = v4InV6Prefix then Some (drop 12 ip)
      else None)"

definition IP_To16 :: "net_IP \<Rightarrow> bytes option" where
  "IP_To16 ip =
     (if length ip = 4 then Some (v4InV6Prefix @ ip)
      else if length ip = 16 then Some ip else None)"

definition IP_Equal :: "net_IP \<Rightarrow> net_IP \<Rightarrow> bool" where
  "IP_Equal ip x =
     (if length ip = length x then ip = x
      else if length ip = 4 \<and> length x = 16 then take 12 x = v4InV6Prefix \<and> ip = drop 12 x
      else if length ip = 16 \<and> length x = 4 then take 12 ip = v4InV6Prefix \<and> drop 12 ip = x
      else False)"

definition IP_IsUnspecified :: "net_IP \<Rightarrow> bool" where
  "IP_IsUnspecified ip \<longleftrightarrow> IP_Equal ip IPv4zero \<or> IP_Equal ip IPv6unspecified"

definition IP_IsLoopback :: "net_IP \<Rightarrow> bool" where
  "IP_IsLoopback ip =
     (case IP_To4 ip of Some ip4 \<Rightarrow> hd ip4 = 127 | None \<Rightarrow> IP_Equal ip IPv6loopback)"

lemma length_v4InV6Prefix [simp]: "length v4InV6Prefix = 12"
  by (simp add: v4InV6Prefix_def)

lemma IP_To4_length: "IP_To4 ip = Some v \<Longrightarrow> length v = 4"
  by (auto simp: IP_To4_def split: if_splits)

lemma IP_To16_length: "IP_To16 ip = Some v \<Longrightarrow> length v = 16"
  by (auto simp: IP_To16_def split: if_splits)

lemma IP_To4_Nil [simp]: "IP_To4 [] = None"
  by (simp add: IP_To4_def)

lemma IP_To16_Nil [simp]: "IP_To16 [] = None"
  by (simp add: IP_To16_def)

lemma IP_Equal_refl [simp]: "IP_Equal ip ip"
  by (simp add: IP_Equal_def)

text \<open>On well-formed addresses \<open>Equal\<close> is equality of the 16-byte forms.\<close>

lemma IP_Equal_To16:
  assumes "length a \<in> {4, 16}" and "length b \<in> {4, 16}"
  shows "IP_Equal a b \<longleftrightarrow> IP_To16 a = IP_To16 b"
proof -
  have split12: "x = v4InV6Prefix @ y \<longleftrightarrow> take 12 x = v4InV6Prefix \<and> y = drop 12 x"
    if "length x = 16" for x y :: bytes
    using append_take_drop_id [of 12 x] by (metis append_eq_conv_conj length_v4InV6Prefix)
  show ?thesis using assms split12 [of a b] split12 [of b a]
    by (auto simp: IP_Equal_def IP_To16_def)
qed

section \<open>Textual form of addresses\<close>

fun join_with :: "string \<Rightarrow> string list \<Rightarrow> string" where
  "join_with sep [] = []"
| "join_with sep [x] = x"
| "join_with sep (x # y # ys) = x @ sep @ join_with sep (y # ys)"

definition show_ipv4 :: "bytes \<Rightarrow> string" where
  "show_ipv4 b = join_with ''.'' (map (\<lambda>x. Itoa (unat x)) b)"

fun pair_groups :: "bytes \<Rightarrow> nat list" where
  "pair_groups (a # b # rest) = (unat a * 256 + unat b) # pair_groups rest"
| "pair_groups _ = []"

text \<open>The longest run of at least two zero groups, the first of equal length.\<close>

definition longest_zero_run :: "nat list \<Rightarrow> (nat \<times> nat) option" where
  "longest_zero_run gs =
     foldl (\<lambda>best i.
       let l = length (takeWhile (\<lambda>g. g = 0) (drop i gs));
           bl = (case best of None \<Rightarrow> 0 | Some (s, e) \<Rightarrow> e - s)
       in if 2 \<le> l \<and> bl < l then Some (i, i + l) else best) None [0..<length gs]"

definition show_ipv6 :: "bytes \<Rightarrow> string" where
  "show_ipv6 b =
     (let gs = pair_groups b in
      case longest_zero_run gs of
        None \<Rightarrow> join_with '':'' (map hex_show gs)
      | Some (s, e) \<Rightarrow> join_with '':'' (map hex_show (take s gs)) @ ''::'' @
                       join_with '':'' (map hex_show (drop e gs)))"

definition hex_byte :: "byte \<Rightarrow> string" where
  "hex_byte b = [hex_char (unat b div 16), hex_char (unat b mod 16)]"

definition IP_String :: "net_IP \<Rightarrow> string" where
  "IP_String ip =
     (if ip = [] then ''<nil>''
      else if length ip \<noteq> 4 \<and> length ip \<noteq> 16 then ''?'' @ concat (map hex_byte ip)
      else case IP_To4 ip of Some v4 \<Rightarrow> show_ipv4 v4 | None \<Rightarrow> show_ipv6 ip)"

section \<open>Host and port\<close>

definition net_JoinHostPort :: "string \<Rightarrow> string \<Rightarrow> string" where
  "net_JoinHostPort host port =
     (if CHR '':'' \<in> set host then ''['' @ host @ '']:'' @ port else host @ '':'' @ port)"

definition missingPort :: goerror where
  "missingPort = Errorf ''missing port in address''"

definition tooManyColons :: goerror where
  "tooManyColons = Errorf ''too many colons in address''"

definition net_SplitHostPort :: "string \<Rightarrow> (string \<times> string) result" where
  "net_SplitHostPort hostport =
     (case LastIndexByte hostport (CHR '':'') of
        None \<Rightarrow> Inl missingPort
      | Some i \<Rightarrow>
          let finish = (\<lambda>host j k.
                if CHR ''['' \<in> set (drop j hostport) then Inl (Errorf ''unexpected '[' in address'')
                else if CHR '']'' \<in> set (drop k hostport) then Inl (Errorf ''unexpected ']' in address'')
                else Inr (host, drop (Suc i) hostport))
          in if hd hostport = CHR ''['' then
               (case IndexByte hostport (CHR '']'') of
                  None \<Rightarrow> Inl (Errorf ''missing ']' in address'')
                | Some end \<Rightarrow>
                    if Suc end = length hostport then Inl missingPort
                    else if Suc end = i then finish (take (end - 1) (drop 1 hostport)) 1 (Suc end)
                    else if hostport ! Suc end = CHR '':'' then Inl tooManyColons
                    else Inl missingPort)
             else if CHR '':'' \<in> set (take i hostport) then Inl tooManyColons
             else finish (take i hostport) 0 0)"

abbreviation no_brackets :: "string \<Rightarrow> bool" where
  "no_brackets s \<equiv> CHR ''['' \<notin> set s \<and> CHR '']'' \<notin> set s"

text \<open>Splitting undoes joining for every host without brackets and every port without a colon.\<close>

lemma split_join_host_port:
  assumes "no_brackets h" and "no_brackets p" and "CHR '':'' \<notin> set p"
  shows "net_SplitHostPort (net_JoinHostPort h p) = Inr (h, p)"
proof (cases "CHR '':'' \<in> set h")
  case True
  define s where "s = CHR ''['' # h @ CHR '']'' # CHR '':'' # p"
  have last: "LastIndexByte s (CHR '':'') = Some (Suc (Suc (length h)))"
    using LastIndexByte_append [OF assms(3), of "CHR ''['' # h @ '']''"] by (simp add: s_def)
  have close: "IndexByte s (CHR '']'') = Some (Suc (length h))"
    using assms(1) by (simp add: s_def IndexByte_append)
  have parts: "hd s = CHR ''[''" "length s = length h + length p + 3"
    "drop (Suc 0) s = h @ CHR '']'' # CHR '':'' # p" "drop (Suc (Suc (length h))) s = CHR '':'' # p"
    "drop (Suc (Suc (Suc (length h)))) s = p"
    by (simp_all add: s_def)
  have "net_SplitHostPort s = Inr (h, p)"
    using assms by (simp add: net_SplitHostPort_def last close parts)
  with True show ?thesis by (simp add: net_JoinHostPort_def s_def)
next
  case False
  define s where "s = h @ CHR '':'' # p"
  have last: "LastIndexByte s (CHR '':'') = Some (length h)"
    using LastIndexByte_append [OF assms(3)] by (simp add: s_def)
  have parts: "hd s \<noteq> CHR ''[''" "take (length h) s = h" "drop (Suc (length h)) s = p"
    "set s = insert (CHR '':'') (set h \<union> set p)"
    using assms(1) by (cases h; auto simp: s_def)+
  have "net_SplitHostPort s = Inr (h, p)"
    using assms False by (simp add: net_SplitHostPort_def last parts)
  with False show ?thesis by (simp add: net_JoinHostPort_def s_def)
qed

lemma set_join_with: "set (join_with sep xs) \<subseteq> set sep \<union> (\<Union>x \<in> set xs. set x)"
  by (induction sep xs rule: join_with.induct) auto

lemma set_hex_show: "c \<in> set (hex_show n) \<Longrightarrow> \<exists>d < 16. c = hex_char d"
proof (induction n rule: hex_show.induct)
  case (1 n)
  then show ?case
    by (cases "n < 16") (auto simp: hex_show.simps [of n] intro: exI [of _ "n mod 16"])
qed

lemma hex_char_not_bracket:
  assumes "d < 16"
  shows "hex_char d \<noteq> CHR ''[''" and "hex_char d \<noteq> CHR '']''"
proof -
  have "(of_char (hex_char d) :: nat) = (if d < 10 then 48 + d else 87 + d)"
    using assms by (simp add: hex_char_def)
  then have "(of_char (hex_char d) :: nat) \<noteq> of_char (CHR ''['')"
    and "(of_char (hex_char d) :: nat) \<noteq> of_char (CHR '']'')"
    using assms by (auto split: if_splits)
  then show "hex_char d \<noteq> CHR ''[''" and "hex_char d \<noteq> CHR '']''" by metis+
qed

lemma no_brackets_hex_show: "no_brackets (hex_show n)"
  using set_hex_show hex_char_not_bracket by metis

lemma no_brackets_join:
  "no_brackets sep \<Longrightarrow> \<forall>x \<in> set xs. no_brackets x \<Longrightarrow> no_brackets (join_with sep xs)"
  using set_join_with [of sep xs] by blast

lemma no_brackets_IP_String: "no_brackets (IP_String ip)"
proof -
  have v4: "no_brackets (show_ipv4 b)" for b
    unfolding show_ipv4_def by (rule no_brackets_join) auto
  have grp: "no_brackets (join_with '':'' (map hex_show gs))" for gs
    by (rule no_brackets_join) (auto simp: no_brackets_hex_show)
  have v6: "no_brackets (show_ipv6 b)" for b
    unfolding show_ipv6_def Let_def
    using grp by (auto split: option.split prod.split)
  have dig: "unat b div 16 < 16" "unat b mod 16 < 16" for b :: byte
    using unat_byte_lt [of b] by (simp_all add: less_mult_imp_div_less del: unat_byte_lt)
  have hx: "no_brackets (concat (map hex_byte bs))" for bs
    using hex_char_not_bracket [OF dig(1)] hex_char_not_bracket [OF dig(2)]
    by (auto simp: hex_byte_def) metis+
  show ?thesis
    unfolding IP_String_def using v4 v6 hx by (auto split: option.split)
qed

section \<open>Addresses of packet connections\<close>

record udpaddr =
  ua_IP :: net_IP
  ua_Port :: int
  ua_Zone :: string

text \<open>
  The dynamic types of \<open>net.Addr\<close> the relay distinguishes: \<open>*net.UDPAddr\<close>, and any
  other address, known by its \<open>String()\<close> only (\<open>domainAddr\<close>, \<open>packetAddr\<close>).
\<close>

datatype net_Addr = UDPAddr udpaddr | NamedAddr string

definition port_text :: "int \<Rightarrow> string" where
  "port_text p = (if p < 0 then ''-'' @ Itoa (nat (- p)) else Itoa (nat p))"

fun Addr_String :: "net_Addr \<Rightarrow> string" where
  "Addr_String (UDPAddr a) =
     (let ip = (if ua_IP a = [] then [] else IP_String (ua_IP a)) in
      if ua_Zone a \<noteq> [] then net_JoinHostPort (ip @ ''%'' @ ua_Zone a) (port_text (ua_Port a))
      else net_JoinHostPort ip (port_text (ua_Port a)))"
| "Addr_String (NamedAddr s) = s"

section \<open>Parsing addresses and prefixes\<close>

datatype netip_Addr = Addr4 bytes | Addr6 bytes string

text \<open>\<open>parseIPv4Fields\<close>: four decimal fields of at most 255, no leading zeros.\<close>

definition ipv4_field :: "string \<Rightarrow> byte option" where
  "ipv4_field f =
     (if f \<noteq> [] \<and> list_all is_digit f \<and> (hd f = CHR ''0'' \<longrightarrow> length f = 1) \<and> dec_value f \<le> 255
      then Some (word_of_nat (dec_value f)) else None)"

definition parseIPv4Fields :: "string \<Rightarrow> bytes option" where
  "parseIPv4Fields s =
     (case strings_Split s (CHR ''.'') of
        [a, b, c, d] \<Rightarrow>
          (case (ipv4_field a, ipv4_field b, ipv4_field c, ipv4_field d) of
             (Some w, Some x, Some y, Some z) \<Rightarrow> Some [w, x, y, z]
           | _ \<Rightarrow> None)
      | _ \<Rightarrow> None)"

text \<open>
  The loop of \<open>parseIPv6\<close>: \<open>i\<close> bytes are parsed, \<open>ell\<close> is the position of the
  ellipsis. A group has one to four hexadecimal digits; a dotted quad may end the address.
\<close>

function parseIPv6_loop ::
  "nat \<Rightarrow> nat option \<Rightarrow> bytes \<Rightarrow> string \<Rightarrow> (nat option \<times> bytes \<times> string) option" where
  "parseIPv6_loop i ell acc s =
     (if 16 \<le> i then Some (ell, acc, s)
      else let ds = takeWhile is_hex s; rest = dropWhile is_hex s in
        if ds = [] \<or> 4 < length ds then None
        else if rest \<noteq> [] \<and> hd rest = CHR ''.'' then
          (if ell = None \<and> i \<noteq> 12 then None
           else if 16 < i + 4 then None
           else case parseIPv4Fields s of None \<Rightarrow> None | Some f \<Rightarrow> Some (ell, acc @ f, []))
        else let v = hex_value ds;
                 acc' = acc @ [word_of_nat (v div 256), word_of_nat (v mod 256)] in
          case rest of
            [] \<Rightarrow> Some (ell, acc', [])
          | c # r1 \<Rightarrow>
              if c \<noteq> CHR '':'' \<or> r1 = [] then None
              else if hd r1 = CHR '':'' then
                (if ell \<noteq> None then None
                 else if tl r1 = [] then Some (Some (i + 2), acc', [])
                 else parseIPv6_loop (i + 2) (Some (i + 2)) acc' (tl r1))
              else parseIPv6_loop (i + 2) ell acc' r1)"
  by pat_completeness auto
termination
  by (relation "measure (\<lambda>(i, ell, acc, s). 16 - i)") auto

declare parseIPv6_loop.simps [simp del]

definition parseIPv6_body :: "string \<Rightarrow> bytes option" where
  "parseIPv6_body s =
     (let lead = (take 2 s = ''::''); s1 = (if lead then drop 2 s else s) in
      if lead \<and> s1 = [] then Some (replicate 16 0)
      else case parseIPv6_loop 0 (if lead then Some 0 else None) [] s1 of
        None \<Rightarrow> None
      | Some (ell, acc, rest) \<Rightarrow>
          if rest \<noteq> [] then None
          else if length acc < 16 then
            (case ell of None \<Rightarrow> None
             | Some e \<Rightarrow> Some (take e acc @ replicate (16 - length acc) 0 @ drop e acc))
          else if ell \<noteq> None then None else Some acc)"

definition parseIPv6 :: "string \<Rightarrow> netip_Addr option" where
  "parseIPv6 s =
     (case strings_Cut s (CHR ''%'') of
        None \<Rightarrow> map_option (\<lambda>b. Addr6 b []) (parseIPv6_body s)
      | Some (a, zone) \<Rightarrow>
          if zone = [] then None else map_option (\<lambda>b. Addr6 b zone) (parseIPv6_body a))"

definition netip_ParseAddr :: "string \<Rightarrow> netip_Addr option" where
  "netip_ParseAddr s =
     (case find (\<lambda>c. c = CHR ''.'' \<or> c = CHR '':'' \<or> c = CHR ''%'') s of
        None \<Rightarrow> None
      | Some c \<Rightarrow>
          if c = CHR ''.'' then map_option Addr4 (parseIPv4Fields s)
          else if c = CHR '':'' then parseIPv6 s else None)"

definition net_ParseIP :: "string \<Rightarrow> net_IP option" where
  "net_ParseIP s =
     (case netip_ParseAddr s of
        Some (Addr4 b) \<Rightarrow> Some (v4InV6Prefix @ b)
      | Some (Addr6 b zone) \<Rightarrow> if zone = [] then Some b else None
      | None \<Rightarrow> None)"

text \<open>A parsed address has sixteen bytes.\<close>

lemma parseIPv4Fields_length: "parseIPv4Fields s = Some b \<Longrightarrow> length b = 4"
  by (auto simp: parseIPv4Fields_def split: list.splits option.splits)

lemma parseIPv6_loop_length:
  assumes "parseIPv6_loop i ell acc s = Some (ell', acc', rest)"
    and "length acc = i" and "even i" and "i \<le> 16" and "\<forall>e. ell = Some e \<longrightarrow> e \<le> i"
  shows "length acc' \<le> 16 \<and> (\<forall>e. ell' = Some e \<longrightarrow> e \<le> length acc')"
  using assms
proof (induction i ell acc s rule: parseIPv6_loop.induct)
  case (1 i ell acc s)
  show ?case
  proof (cases "16 \<le> i")
    case True
    then have "ell' = ell \<and> acc' = acc"
      using "1.prems"(1) by (subst (asm) parseIPv6_loop.simps) simp
    then show ?thesis using "1.prems" by simp
  next
    case False
    then have i14: "i \<le> 14" using "1.prems"(3) by presburger
    let ?ds = "takeWhile is_hex s" and ?rest = "dropWhile is_hex s"
    let ?acc = "acc @ [word_of_nat (hex_value ?ds div 256), word_of_nat (hex_value ?ds mod 256)]"
    consider (v4) f where "parseIPv4Fields s = Some f" "i + 4 \<le> 16" "ell' = ell" "acc' = acc @ f"
      | (stop) "ell' = ell" "acc' = ?acc" | (ell) "ell' = Some (i + 2)" "acc' = ?acc"
      | (rec1) c r1 where "\<not> (?ds = [] \<or> 4 < length ?ds)" "\<not> (?rest \<noteq> [] \<and> hd ?rest = CHR ''.'')"
          "?rest = c # r1" "\<not> (c \<noteq> CHR '':'' \<or> r1 = [])" "hd r1 = CHR '':''" "\<not> ell \<noteq> None" "tl r1 \<noteq> []"
          "parseIPv6_loop (i + 2) (Some (i + 2)) ?acc (tl r1) = Some (ell', acc', rest)"
      | (rec2) c r1 where "\<not> (?ds = [] \<or> 4 < length ?ds)" "\<not> (?rest \<noteq> [] \<and> hd ?rest = CHR ''.'')"
          "?rest = c # r1" "\<not> (c \<noteq> CHR '':'' \<or> r1 = [])" "hd r1 \<noteq> CHR '':''"
          "parseIPv6_loop (i + 2) ell ?acc r1 = Some (ell', acc', rest)"
      using "1.prems"(1) False
      by (auto simp: parseIPv6_loop.simps [of i] Let_def split: if_splits list.splits option.splits)
    then show ?thesis
    proof cases
      case v4
      then show ?thesis using "1.prems" parseIPv4Fields_length [of s f] by auto
    next
      case rec1
      show ?thesis
        using "1.IH"(1) [OF False refl refl rec1(1,2) refl refl rec1(3,4,5,6,7,8)] "1.prems" i14 by simp
    next
      case rec2
      show ?thesis
        using "1.IH"(2) [OF False refl refl rec2(1,2) refl refl rec2(3,4,5,6)] "1.prems" i14 by fastforce
    qed (use "1.prems" i14 in auto)
  qed
qed

lemma parseIPv6_body_length: "parseIPv6_body s = Some b \<Longrightarrow> length b = 16"
proof -
  assume b: "parseIPv6_body s = Some b"
  define lead where "lead = (take 2 s = ''::'')"
  define s1 where "s1 = (if lead then drop 2 s else s)"
  show ?thesis
  proof (cases "lead \<and> s1 = []")
    case True
    then have "b = replicate 16 0"
      using b unfolding parseIPv6_body_def Let_def lead_def [symmetric] s1_def [symmetric] by simp
    then show ?thesis by simp
  next
    case False
    then obtain ell acc rest where l: "parseIPv6_loop 0 (if lead then Some 0 else None) [] s1 = Some (ell, acc, rest)"
      and r: "(if rest \<noteq> [] then None else if length acc < 16 then
            (case ell of None \<Rightarrow> None
             | Some e \<Rightarrow> Some (take e acc @ replicate (16 - length acc) 0 @ drop e acc))
          else if ell \<noteq> None then None else Some acc) = Some b"
      using b unfolding parseIPv6_body_def Let_def lead_def [symmetric] s1_def [symmetric]
      by (auto split: option.splits)
    have "length acc \<le> 16 \<and> (\<forall>e. ell = Some e \<longrightarrow> e \<le> length acc)"
      using parseIPv6_loop_length [OF l] by simp
    then show ?thesis using r by (auto split: if_splits option.splits)
  qed
qed

lemma net_ParseIP_length: "net_ParseIP s = Some b \<Longrightarrow> length b = 16"
  using parseIPv4Fields_length parseIPv6_body_length
  by (auto simp: net_ParseIP_def netip_ParseAddr_def parseIPv6_def
      split: option.splits netip_Addr.splits if_splits prod.splits)

record netip_Prefix =
  pfx_ip :: netip_Addr
  pfx_bits :: nat

fun is_Addr6 :: "netip_Addr \<Rightarrow> bool" where
  "is_Addr6 (Addr4 b) = False"
| "is_Addr6 (Addr6 b z) = True"

fun addr_zone :: "netip_Addr \<Rightarrow> string" where
  "addr_zone (Addr4 b) = []"
| "addr_zone (Addr6 b z) = z"

definition netip_ParsePrefix :: "string \<Rightarrow> netip_Prefix option" where
  "netip_ParsePrefix s =
     (case LastIndexByte s (CHR ''/'') of
        None \<Rightarrow> None
      | Some i \<Rightarrow>
          (case netip_ParseAddr (take i s) of
             None \<Rightarrow> None
           | Some ip \<Rightarrow>
               if addr_zone ip \<noteq> [] then None
               else let b = drop (Suc i) s in
                 if 1 < length b \<and> \<not> (is_digit (hd b) \<and> hd b \<noteq> CHR ''0'') then None
                 else case Atoi b of
                     Inl _ \<Rightarrow> None
                   | Inr n \<Rightarrow>
                       if n < 0 \<or> n > (if is_Addr6 ip then 128 else 32) then None
                       else Some \<lparr>pfx_ip = ip, pfx_bits = nat n\<rparr>))"

definition word_of_bytes :: "bytes \<Rightarrow> 'a::len word" where
  "word_of_bytes bs = foldl (\<lambda>w b. push_bit 8 w OR ucast b) 0 bs"

definition Prefix_Contains :: "netip_Prefix \<Rightarrow> netip_Addr \<Rightarrow> bool" where
  "Prefix_Contains p ip =
     (case (pfx_ip p, ip) of
        (Addr4 a, Addr4 b) \<Rightarrow>
          drop_bit (32 - pfx_bits p) ((word_of_bytes b :: 32 word) XOR word_of_bytes a) = 0
      | (Addr6 a _, Addr6 b zone) \<Rightarrow>
          zone = [] \<and>
          ((word_of_bytes b :: 128 word) XOR word_of_bytes a) AND NOT (mask (128 - pfx_bits p)) = 0
      | _ \<Rightarrow> False)"

text \<open>A zero-length prefix contains every zone-free address of its family.\<close>

lemma Prefix_Contains_all6:
  "Prefix_Contains \<lparr>pfx_ip = Addr6 a z, pfx_bits = 0\<rparr> ip \<longleftrightarrow> is_Addr6 ip \<and> addr_zone ip = []"
proof -
  have m: "NOT (mask 128 :: 128 word) = 0"
    by (rule bit_word_eqI) (simp add: bit_simps)
  show ?thesis by (cases ip) (simp_all add: Prefix_Contains_def m)
qed

end
