(* ===== verification/GoIO.thy ===== *)
theory GoIO
  imports Prelude
begin

text \<open>
  Byte streams and connections. A connection is the bytes its peer will still send, the error
  a read past them reports, the writes delivered so far, and which write attempts fail. A
  computation on a connection returns a value or an error together with the new connection,
  so that every early return of the sources is a branch here.
\<close>

section \<open>Connections\<close>

record conn =
  inp :: bytes
  inp_err :: goerror
  outs :: "bytes list"
  wcount :: nat
  wfail :: "nat \<Rightarrow> goerror option"

definition conn_of :: "bytes \<Rightarrow> conn" where
  "conn_of bs = \<lparr>inp = bs, inp_err = Sentinel EOF, outs = [], wcount = 0, wfail = (\<lambda>_. None)\<rparr>"

type_synonym 'a io = "conn \<Rightarrow> 'a result \<times> conn"

definition io_return :: "'a \<Rightarrow> 'a io" where
  "io_return x c = (Inr x, c)"

definition io_fail :: "goerror \<Rightarrow> 'a io" where
  "io_fail e c = (Inl e, c)"

definition io_bind :: "'a io \<Rightarrow> ('a \<Rightarrow> 'b io) \<Rightarrow> 'b io" where
  "io_bind m f c = (case m c of (Inl e, c') \<Rightarrow> (Inl e, c') | (Inr x, c') \<Rightarrow> f x c')"

text \<open>Return an error of \<open>m\<close> in a different form.\<close>

definition io_map_err :: "(goerror \<Rightarrow> goerror) \<Rightarrow> 'a io \<Rightarrow> 'a io" where
  "io_map_err g m c = (case m c of (Inl e, c') \<Rightarrow> (Inl (g e), c') | (Inr x, c') \<Rightarrow> (Inr x, c'))"

text \<open>
  \<open>io.ReadFull\<close>, and \<open>io.ReadAtLeast\<close> with a buffer of exactly the minimum size: all \<open>n\<close>
  bytes, or an error after consuming what was there (\<open>ErrUnexpectedEOF\<close> for an end of file
  in the middle).
\<close>

definition ReadFull :: "nat \<Rightarrow> bytes io" where
  "ReadFull n c =
     (if n \<le> length (inp c) then (Inr (take n (inp c)), c\<lparr>inp := drop n (inp c)\<rparr>)
      else (Inl (if inp c \<noteq> [] \<and> inp_err c = Sentinel EOF then Sentinel ErrUnexpectedEOF
                 else inp_err c),
            c\<lparr>inp := []\<rparr>))"

definition Write :: "bytes \<Rightarrow> unit io" where
  "Write bs c =
     (case wfail c (wcount c) of
        Some e \<Rightarrow> (Inl e, c\<lparr>wcount := Suc (wcount c)\<rparr>)
      | None \<Rightarrow> (Inr (), c\<lparr>outs := outs c @ [bs], wcount := Suc (wcount c)\<rparr>))"

lemma io_bind_Inr [wire_simps]: "m c = (Inr x, c') \<Longrightarrow> io_bind m f c = f x c'"
  by (simp add: io_bind_def)

lemma io_bind_Inl [wire_simps]: "m c = (Inl e, c') \<Longrightarrow> io_bind m f c = (Inl e, c')"
  by (simp add: io_bind_def)

lemma ReadFull_prefix [wire_simps]:
  "inp c = bs @ rest \<Longrightarrow> length bs = n \<Longrightarrow> ReadFull n c = (Inr bs, c\<lparr>inp := rest\<rparr>)"
  by (simp add: ReadFull_def)

lemma ReadFull_Inr:
  "ReadFull n c = (Inr bs, c') \<Longrightarrow>
     length bs = n \<and> inp c = bs @ inp c' \<and> c' = c\<lparr>inp := inp c'\<rparr>"
  by (auto simp: ReadFull_def split: if_splits)

text \<open>Successful runs, as equations: used to invert a whole parser.\<close>

lemma io_bind_eq_Inr:
  "io_bind m f c = (Inr y, c2) \<longleftrightarrow> (\<exists>x c1. m c = (Inr x, c1) \<and> f x c1 = (Inr y, c2))"
  by (auto simp: io_bind_def split: prod.splits sum.splits)

lemma io_map_err_eq_Inr: "io_map_err g m c = (Inr y, c2) \<longleftrightarrow> m c = (Inr y, c2)"
  by (auto simp: io_map_err_def split: prod.splits sum.splits)

lemma io_return_eq_Inr: "io_return x c = (Inr y, c2) \<longleftrightarrow> y = x \<and> c2 = c"
  by (auto simp: io_return_def)

lemma io_fail_eq_Inr: "\<not> io_fail e c = (Inr y, c2)"
  by (simp add: io_fail_def)

lemma ReadFull_eq_Inr:
  "ReadFull n c = (Inr bs, c2) \<longleftrightarrow> length bs = n \<and> (\<exists>rest. inp c = bs @ rest \<and> c2 = c\<lparr>inp := rest\<rparr>)"
  by (auto simp: ReadFull_def) (metis append_take_drop_id)

lemma Write_eq_Inr:
  "Write bs c = (Inr u, c2) \<longleftrightarrow>
     wfail c (wcount c) = None \<and> c2 = c\<lparr>outs := outs c @ [bs], wcount := Suc (wcount c)\<rparr>"
  by (auto simp: Write_def split: option.splits)

lemmas io_inversion =
  io_bind_eq_Inr io_map_err_eq_Inr io_return_eq_Inr io_fail_eq_Inr ReadFull_eq_Inr Write_eq_Inr

lemma Write_ok [wire_simps]:
  "wfail c (wcount c) = None \<Longrightarrow> Write bs c = (Inr (), c\<lparr>outs := outs c @ [bs], wcount := Suc (wcount c)\<rparr>)"
  by (simp add: Write_def)

text \<open>
  What a computation may do to a connection: consume a prefix of the input, append whole
  writes, and never change the failure behaviour.
\<close>

definition io_progress :: "conn \<Rightarrow> conn \<Rightarrow> bool" where
  "io_progress c c' \<longleftrightarrow>
     (\<exists>used. inp c = used @ inp c') \<and> (\<exists>ws. outs c' = outs c @ ws) \<and>
     inp_err c' = inp_err c \<and> wfail c' = wfail c"

definition io_wf :: "'a io \<Rightarrow> bool" where
  "io_wf m \<longleftrightarrow> (\<forall>c. io_progress c (snd (m c)))"

lemma io_progress_refl [simp]: "io_progress c c"
  by (auto simp: io_progress_def)

lemma io_progress_trans: "io_progress a b \<Longrightarrow> io_progress b c \<Longrightarrow> io_progress a c"
  unfolding io_progress_def by (metis append_assoc)

lemma io_wf_return [intro]: "io_wf (io_return x)"
  by (simp add: io_wf_def io_return_def)

lemma io_wf_fail [intro]: "io_wf (io_fail e)"
  by (simp add: io_wf_def io_fail_def)

lemma io_wf_bind [intro]:
  assumes "io_wf m" and "\<And>x. io_wf (f x)"
  shows "io_wf (io_bind m f)"
  unfolding io_wf_def
proof
  fix c
  obtain r c1 where m: "m c = (r, c1)" by (cases "m c")
  have p: "io_progress c c1" using assms(1) m by (metis io_wf_def snd_conv)
  show "io_progress c (snd (io_bind m f c))"
  proof (cases r)
    case (Inl e)
    with m p show ?thesis by (simp add: io_bind_def)
  next
    case (Inr x)
    have "io_progress c1 (snd (f x c1))" using assms(2) by (simp add: io_wf_def)
    with m p Inr show ?thesis using io_progress_trans by (simp add: io_bind_def)
  qed
qed

lemma io_wf_map_err [intro]: "io_wf m \<Longrightarrow> io_wf (io_map_err g m)"
  by (auto simp: io_wf_def io_map_err_def split: prod.split sum.split) (metis snd_conv)+

lemma io_wf_ReadFull [intro]: "io_wf (ReadFull n)"
  unfolding io_wf_def io_progress_def ReadFull_def
  by (auto intro: append_take_drop_id [symmetric])

lemma io_wf_Write [intro]: "io_wf (Write bs)"
  by (auto simp: io_wf_def io_progress_def Write_def split: option.split)

end
