(* ===== verification/Credentials.thy ===== *)
theory Credentials
  imports Prelude "HOL-Library.AList"
begin

text \<open>
  \<open>pkg/auth/credentials.go\<close>: the static credential store of the SOCKS and HTTP front ends.
  The store is an association list (a Go map built once from the configuration); SHA-256 is
  the \<open>sha\<close> argument.
\<close>

type_synonym StaticCredentials = "(string \<times> string) list"

definition invalidCredentialDigest :: "(bytes \<Rightarrow> bytes) \<Rightarrow> bytes" where
  "invalidCredentialDigest sha = sha (bytes_of_string ''spaceship-invalid-credential'')"

definition Valid :: "(bytes \<Rightarrow> bytes) \<Rightarrow> StaticCredentials \<Rightarrow> bytes \<Rightarrow> bytes \<Rightarrow> bool" where
  "Valid sha s user password =
     (let found = map_of s (string_of_bytes user);
          pass = (case found of Some p \<Rightarrow> p | None \<Rightarrow> []);
          passwordDigest = sha password;
          storedDigest = (if found = None then invalidCredentialDigest sha
                          else sha (bytes_of_string pass));
          matched = (passwordDigest = storedDigest)
      in found \<noteq> None \<and> matched)"

lemma Valid_iff:
  "Valid sha s user password \<longleftrightarrow>
     (\<exists>pass. map_of s (string_of_bytes user) = Some pass \<and> sha password = sha (bytes_of_string pass))"
  by (auto simp: Valid_def Let_def split: option.splits)

text \<open>
  The credential check is exact. With a digest that separates the given password from the
  stored ones, a pair is accepted if and only if the store holds that very password for that
  user; an unknown user is never accepted, not even with the placeholder password of the
  constant-time path.
\<close>

theorem Valid_exact:
  assumes "\<forall>u p. map_of s u = Some p \<longrightarrow> sha password = sha (bytes_of_string p) \<longrightarrow> password = bytes_of_string p"
  shows "Valid sha s user password \<longleftrightarrow> map_of s (string_of_bytes user) = Some (string_of_bytes password)"
proof -
  have "password = bytes_of_string p \<longleftrightarrow> p = string_of_bytes password" for p
    by (metis bytes_string_bytes string_bytes_string)
  with assms show ?thesis unfolding Valid_iff by metis
qed

theorem Valid_exact_witness:
  "Valid id [(''alice'', ''secret'')] (bytes_of_string ''alice'') (bytes_of_string ''secret'') \<and>
   \<not> Valid id [(''alice'', ''secret'')] (bytes_of_string ''bob'')
       (bytes_of_string ''spaceship-invalid-credential'')"
proof -
  have h: "\<forall>u p. map_of [(''alice'', ''secret'')] u = Some p \<longrightarrow> id pw = id (bytes_of_string p) \<longrightarrow>
      pw = bytes_of_string p" for pw by simp
  show ?thesis by (simp add: Valid_exact [OF h])
qed

end
