(* ===== verification/SocksWire.thy ===== *)
theory SocksWire
  imports GoNet GoIO Credentials
begin

text \<open>
  The SOCKS5 wire protocol of \<open>internal/socks\<close>: authentication (\<open>auth.go\<close>), request and
  reply messages (\<open>request.go\<close>) and the command rule set (\<open>ruleset.go\<close>).
\<close>

section \<open>Constants and data (auth.go, request.go, socks.go)\<close>

definition socks5Version :: byte where "socks5Version = 5"
definition NoAuth :: byte where "NoAuth = 0"
definition noAcceptable :: byte where "noAcceptable = 255"
definition UserPassAuth :: byte where "UserPassAuth = 2"
definition userAuthVersion :: byte where "userAuthVersion = 1"
definition authSuccess :: byte where "authSuccess = 0"
definition authFailure :: byte where "authFailure = 1"

definition ConnectCommand :: byte where "ConnectCommand = 1"
definition BindCommand :: byte where "BindCommand = 2"
definition AssociateCommand :: byte where "AssociateCommand = 3"
definition ipv4Address :: byte where "ipv4Address = 1"
definition fqdnAddress :: byte where "fqdnAddress = 3"
definition ipv6Address :: byte where "ipv6Address = 4"

definition successReply :: byte where "successReply = 0"
definition serverFailure :: byte where "serverFailure = 1"
definition ruleFailure :: byte where "ruleFailure = 2"
definition networkUnreachable :: byte where "networkUnreachable = 3"
definition commandNotSupported :: byte where "commandNotSupported = 7"
definition addrTypeNotSupported :: byte where "addrTypeNotSupported = 8"

lemmas socks_consts [simp] =
  socks5Version_def NoAuth_def noAcceptable_def UserPassAuth_def userAuthVersion_def
  authSuccess_def authFailure_def ConnectCommand_def BindCommand_def AssociateCommand_def
  ipv4Address_def fqdnAddress_def ipv6Address_def successReply_def serverFailure_def
  ruleFailure_def networkUnreachable_def commandNotSupported_def addrTypeNotSupported_def

record AddrSpec =
  as_FQDN :: string
  as_IP :: net_IP
  as_Port :: u16

definition AddrSpec_Address :: "AddrSpec \<Rightarrow> string" where
  "AddrSpec_Address a =
     (if as_IP a \<noteq> [] then net_JoinHostPort (IP_String (as_IP a)) (Itoa (unat (as_Port a)))
      else net_JoinHostPort (as_FQDN a) (Itoa (unat (as_Port a))))"

definition AddrSpec_String :: "AddrSpec \<Rightarrow> string" where
  "AddrSpec_String a =
     (if as_FQDN a \<noteq> [] then as_FQDN a @ '' ('' @ IP_String (as_IP a) @ ''):'' @ Itoa (unat (as_Port a))
      else IP_String (as_IP a) @ '':'' @ Itoa (unat (as_Port a)))"

record AuthContext =
  Method :: byte
  Payload :: "(string \<times> string) list"

record Request =
  Version :: byte
  Command :: byte
  req_AuthContext :: "AuthContext option"
  RemoteAddr :: "AddrSpec option"
  DestAddr :: AddrSpec

section \<open>Authentication (auth.go)\<close>

definition NoAuthAuthenticator :: "AuthContext io" where
  "NoAuthAuthenticator =
     io_bind (Write [socks5Version, NoAuth]) (\<lambda>_. io_return \<lparr>Method = NoAuth, Payload = []\<rparr>)"

definition UserPassAuthenticator :: "(bytes \<Rightarrow> bytes) \<Rightarrow> StaticCredentials \<Rightarrow> AuthContext io" where
  "UserPassAuthenticator sha creds =
     io_bind (Write [socks5Version, UserPassAuth]) (\<lambda>_.
     io_bind (ReadFull 2) (\<lambda>header.
     if header ! 0 \<noteq> userAuthVersion then io_fail (Errorf ''unsupported auth version'')
     else
     io_bind (ReadFull (unat (header ! 1))) (\<lambda>user.
     io_bind (ReadFull 1) (\<lambda>plen.
     io_bind (ReadFull (unat (plen ! 0))) (\<lambda>pass.
     if Valid sha creds user pass then
       io_bind (Write [userAuthVersion, authSuccess]) (\<lambda>_.
       io_return \<lparr>Method = UserPassAuth, Payload = [(''Username'', string_of_bytes user)]\<rparr>)
     else
       io_bind (Write [userAuthVersion, authFailure]) (\<lambda>_.
       io_fail (Sentinel ErrUserAuthFailed)))))))"

definition noAcceptableAuth :: "AuthContext io" where
  "noAcceptableAuth c =
     (Inl (Sentinel ErrNoSupportedAuth), snd (Write [socks5Version, noAcceptable] c))"

definition readMethods :: "bytes io" where
  "readMethods = io_bind (ReadFull 1) (\<lambda>header. ReadFull (unat (header ! 0)))"

definition authenticate :: "(bytes \<Rightarrow> bytes) \<Rightarrow> StaticCredentials \<Rightarrow> AuthContext io" where
  "authenticate sha creds =
     io_bind (io_map_err (\<lambda>_. Errorf ''failed to get auth methods'') readMethods) (\<lambda>methods.
     if creds = [] then NoAuthAuthenticator
     else if UserPassAuth \<in> set methods then UserPassAuthenticator sha creds
     else noAcceptableAuth)"

section \<open>Requests and replies (request.go)\<close>

definition readAddrSpec :: "AddrSpec io" where
  "readAddrSpec =
     io_bind (ReadFull 1) (\<lambda>addrType.
     io_bind
       (if addrType ! 0 = ipv4Address then
          io_bind (ReadFull 4) (\<lambda>addr. io_return \<lparr>as_FQDN = [], as_IP = addr, as_Port = 0\<rparr>)
        else if addrType ! 0 = ipv6Address then
          io_bind (ReadFull 16) (\<lambda>addr. io_return \<lparr>as_FQDN = [], as_IP = addr, as_Port = 0\<rparr>)
        else if addrType ! 0 = fqdnAddress then
          io_bind (ReadFull 1) (\<lambda>len.
          io_bind (ReadFull (unat (len ! 0))) (\<lambda>fqdn.
          io_return \<lparr>as_FQDN = string_of_bytes fqdn, as_IP = [], as_Port = 0\<rparr>))
        else io_fail (Sentinel ErrUnrecognizedAddrType))
       (\<lambda>d.
     io_bind (ReadFull 2) (\<lambda>port.
     io_return (d\<lparr>as_Port := be16 (port ! 0) (port ! 1)\<rparr>))))"

definition NewRequest :: "Request io" where
  "NewRequest =
     io_bind (io_map_err (\<lambda>_. Errorf ''failed to get command version'') (ReadFull 3)) (\<lambda>header.
     if header ! 0 \<noteq> socks5Version then io_fail (Errorf ''unsupported command version'')
     else
     io_bind readAddrSpec (\<lambda>dest.
     io_return \<lparr>Version = socks5Version, Command = header ! 1, req_AuthContext = None,
                RemoteAddr = None, DestAddr = dest\<rparr>))"

text \<open>The message layout of \<open>sendReply\<close>: VER REP RSV ATYP BND.ADDR BND.PORT.\<close>

definition reply_message :: "byte \<Rightarrow> AddrSpec option \<Rightarrow> bytes result" where
  "reply_message resp addr =
     (let frame = (\<lambda>atyp body port. [socks5Version, resp, 0, atyp] @ body @ [hi_byte port, lo_byte port]) in
      case addr of
        None \<Rightarrow> Inr (frame ipv4Address [0, 0, 0, 0] 0)
      | Some a \<Rightarrow>
          (case IP_To4 (as_IP a) of
             Some v4 \<Rightarrow> Inr (frame ipv4Address v4 (as_Port a))
           | None \<Rightarrow>
               (case IP_To16 (as_IP a) of
                  Some v6 \<Rightarrow> Inr (frame ipv6Address v6 (as_Port a))
                | None \<Rightarrow> Inl (Errorf ''failed to format address''))))"

definition sendReply :: "byte \<Rightarrow> AddrSpec option \<Rightarrow> unit io" where
  "sendReply resp addr = (case reply_message resp addr of Inl e \<Rightarrow> io_fail e | Inr msg \<Rightarrow> Write msg)"

section \<open>Rule sets (ruleset.go)\<close>

record PermitCommand =
  EnableConnect :: bool
  EnableBind :: bool
  EnableAssociate :: bool

definition PermitAll :: PermitCommand where
  "PermitAll = \<lparr>EnableConnect = True, EnableBind = True, EnableAssociate = True\<rparr>"

definition PermitNone :: PermitCommand where
  "PermitNone = \<lparr>EnableConnect = False, EnableBind = False, EnableAssociate = False\<rparr>"

definition Allow :: "PermitCommand \<Rightarrow> byte \<Rightarrow> bool" where
  "Allow p cmd =
     (if cmd = ConnectCommand then EnableConnect p
      else if cmd = BindCommand then EnableBind p
      else if cmd = AssociateCommand then EnableAssociate p
      else False)"

section \<open>The computations only consume input and append writes\<close>

lemma io_wf_noAcceptableAuth [intro]: "io_wf noAcceptableAuth"
  using io_wf_Write [of "[socks5Version, noAcceptable]"] by (simp add: io_wf_def noAcceptableAuth_def)

lemma io_wf_authenticate [intro]: "io_wf (authenticate sha creds)"
  unfolding authenticate_def NoAuthAuthenticator_def UserPassAuthenticator_def readMethods_def
  by (intro io_wf_bind io_wf_map_err io_wf_ReadFull io_wf_Write io_wf_return io_wf_fail
      io_wf_noAcceptableAuth | simp | rule allI impI conjI | split if_split)+

lemma io_wf_readAddrSpec [intro]: "io_wf readAddrSpec"
  unfolding readAddrSpec_def
  by (intro io_wf_bind io_wf_ReadFull io_wf_return io_wf_fail | simp | split if_split | rule conjI impI)+

section \<open>The grammar of addresses\<close>

text \<open>The RFC 1928 encoding of an address, as a reference for the readers and writers.\<close>

definition encode_addr :: "AddrSpec \<Rightarrow> bytes" where
  "encode_addr d =
     (if length (as_IP d) = 4 then ipv4Address # as_IP d
      else if length (as_IP d) = 16 then ipv6Address # as_IP d
      else fqdnAddress # word_of_nat (length (as_FQDN d)) # bytes_of_string (as_FQDN d))
     @ [hi_byte (as_Port d), lo_byte (as_Port d)]"

definition addr_wf :: "AddrSpec \<Rightarrow> bool" where
  "addr_wf d \<longleftrightarrow>
     (length (as_IP d) = 4 \<or> length (as_IP d) = 16) \<and> as_FQDN d = [] \<or>
     as_IP d = [] \<and> length (as_FQDN d) < 256"

lemma length_1_conv: "length xs = Suc 0 \<longleftrightarrow> (\<exists>a. xs = [a])"
  by (auto simp: length_Suc_conv)

lemma length_2_conv: "length xs = 2 \<longleftrightarrow> (\<exists>a b. xs = [a, b])"
  by (auto simp: numeral_eq_Suc length_Suc_conv)

lemma length_3_conv: "length xs = 3 \<longleftrightarrow> (\<exists>a b c. xs = [a, b, c])"
  by (auto simp: numeral_eq_Suc length_Suc_conv)

lemmas length_convs = length_1_conv length_2_conv length_3_conv

lemma unat_word_of_length [simp]: "n < 256 \<Longrightarrow> unat (word_of_nat n :: byte) = n"
  by (simp add: unat_of_nat)

text \<open>Decoding: an accepted address is the encoding of the result.\<close>

lemma readAddrSpec_sound:
  assumes "readAddrSpec c = (Inr d, c')"
  shows "addr_wf d \<and> inp c = encode_addr d @ inp c' \<and> c' = c\<lparr>inp := inp c'\<rparr>"
proof -
  have be: "[a, b] = [hi_byte (be16 a b), lo_byte (be16 a b)]" for a b by simp
  show ?thesis
    using assms unfolding readAddrSpec_def
    by (auto simp: io_inversion length_convs addr_wf_def encode_addr_def split: if_splits)
qed

text \<open>Encoding: every well-formed address is read back, with the rest of the input left.\<close>

lemma readAddrSpec_complete:
  assumes "addr_wf d" and "inp c = encode_addr d @ rest"
  shows "readAddrSpec c = (Inr d, c\<lparr>inp := rest\<rparr>)"
proof -
  have port: "ReadFull 2 (c\<lparr>inp := hi_byte p # lo_byte p # rest\<rparr>) =
      (Inr [hi_byte p, lo_byte p], c\<lparr>inp := rest\<rparr>)" for p
    by (simp add: ReadFull_def)
  consider "length (as_IP d) = 4" "as_FQDN d = []" | "length (as_IP d) = 16" "as_FQDN d = []"
    | "as_IP d = []" "length (as_FQDN d) < 256"
    using assms(1) by (auto simp: addr_wf_def)
  then show ?thesis
  proof cases
    case 1
    with assms(2) show ?thesis
      by (simp add: readAddrSpec_def encode_addr_def io_bind_def ReadFull_def io_return_def)
  next
    case 2
    with assms(2) show ?thesis
      by (simp add: readAddrSpec_def encode_addr_def io_bind_def ReadFull_def io_return_def)
  next
    case 3
    with assms(2) show ?thesis
      by (simp add: readAddrSpec_def encode_addr_def io_bind_def ReadFull_def io_return_def)
  qed
qed

lemma authenticate_Inr:
  assumes "creds \<noteq> []" and "authenticate sha creds c = (Inr ctx, c')"
  shows "\<exists>methods user pass n ulen plen.
     inp c = [n] @ methods @ [1, ulen] @ user @ [plen] @ pass @ inp c' \<and>
     unat n = length methods \<and> unat ulen = length user \<and> unat plen = length pass \<and>
     UserPassAuth \<in> set methods \<and> Valid sha creds user pass \<and>
     outs c' = outs c @ [[5, 2], [1, 0]] \<and>
     ctx = \<lparr>Method = UserPassAuth, Payload = [(''Username'', string_of_bytes user)]\<rparr>"
  using assms
  by (auto simp: authenticate_def io_inversion readMethods_def UserPassAuthenticator_def
      noAcceptableAuth_def length_convs split: if_splits) metis

text \<open>Whatever it is sent, authentication answers with two-byte messages only.\<close>

lemma Write_outs: "Write bs c = (r, c') \<Longrightarrow> outs c' = outs c \<or> outs c' = outs c @ [bs]"
  by (auto simp: Write_def split: option.splits)

definition short_writes :: "'a io \<Rightarrow> bool" where
  "short_writes m \<longleftrightarrow> (\<forall>c r c'. m c = (r, c') \<longrightarrow> (\<exists>ws. outs c' = outs c @ ws \<and> (\<forall>b \<in> set ws. length b = 2)))"

lemma short_writes_bind [intro]:
  assumes "short_writes m" and "\<And>x. short_writes (f x)"
  shows "short_writes (io_bind m f)"
  unfolding short_writes_def
proof (intro allI impI)
  fix c r c' assume b: "io_bind m f c = (r, c')"
  obtain r1 c1 where m: "m c = (r1, c1)" by force
  then obtain ws where ws: "outs c1 = outs c @ ws" "\<forall>b \<in> set ws. length b = 2"
    using assms(1) unfolding short_writes_def by blast
  show "\<exists>ws. outs c' = outs c @ ws \<and> (\<forall>b \<in> set ws. length b = 2)"
  proof (cases r1)
    case (Inl e)
    then show ?thesis using b m ws by (auto simp: io_bind_def)
  next
    case (Inr x)
    then have "f x c1 = (r, c')" using b m by (simp add: io_bind_def)
    then obtain ws' where "outs c' = outs c1 @ ws'" "\<forall>b \<in> set ws'. length b = 2"
      using assms(2) unfolding short_writes_def by blast
    with ws show ?thesis by (intro exI [of _ "ws @ ws'"]) auto
  qed
qed

lemma short_writes_basic:
  "short_writes (io_return x)" "short_writes (io_fail e)" "short_writes (ReadFull n)"
  "length bs = 2 \<Longrightarrow> short_writes (Write bs)" "short_writes noAcceptableAuth"
  by (auto simp: short_writes_def io_return_def io_fail_def ReadFull_def Write_def noAcceptableAuth_def
      split: option.splits if_splits)

lemma short_writes_map_err: "short_writes m \<Longrightarrow> short_writes (io_map_err g m)"
  unfolding short_writes_def io_map_err_def by (fastforce split: prod.splits sum.splits)

lemma authenticate_short_writes: "short_writes (authenticate sha creds)"
  unfolding authenticate_def NoAuthAuthenticator_def UserPassAuthenticator_def readMethods_def
  by (intro short_writes_bind short_writes_map_err short_writes_basic | simp | split if_split | rule conjI impI)+

section \<open>Properties\<close>

text \<open>
  C34: The SOCKS5 address reader accepts exactly the RFC 1928 address grammar: it succeeds
  with a value if and only if the input starts with that value's encoding, and it consumes
  precisely those bytes.
\<close>

theorem readAddrSpec_exact:
  "readAddrSpec c = (Inr d, c') \<longleftrightarrow>
     addr_wf d \<and> inp c = encode_addr d @ inp c' \<and> c' = c\<lparr>inp := inp c'\<rparr>"
  using readAddrSpec_sound readAddrSpec_complete by metis

text \<open>
  Replies can be read back. A reply to which an address was given is ten or twenty-two
  bytes, starts with version, reply code and reserved byte, and its address part is read by
  the same grammar to the same IP address (up to the 4-in-6 form) and the same port.
\<close>

theorem reply_roundtrip:
  assumes "reply_message resp (Some a) = Inr msg"
  shows "take 3 msg = [socks5Version, resp, 0] \<and> length msg \<in> {10, 22} \<and>
     (\<exists>ip. readAddrSpec (conn_of (drop 3 msg @ rest)) =
             (Inr \<lparr>as_FQDN = [], as_IP = ip, as_Port = as_Port a\<rparr>, conn_of rest) \<and>
           IP_Equal ip (as_IP a))"
proof (cases "IP_To4 (as_IP a)")
  case (Some v4)
  let ?d = "\<lparr>as_FQDN = [], as_IP = v4, as_Port = as_Port a\<rparr>"
  have l: "length v4 = 4" using Some by (rule IP_To4_length)
  have m: "msg = [socks5Version, resp, 0] @ encode_addr ?d"
    using assms Some l by (simp add: reply_message_def encode_addr_def)
  have "IP_Equal v4 (as_IP a)"
    using Some by (auto simp: IP_To4_def IP_Equal_def split: if_splits)
  then show ?thesis
    using l m readAddrSpec_complete [of ?d "conn_of (drop 3 msg @ rest)" rest]
    by (auto simp: addr_wf_def conn_of_def encode_addr_def)
next
  case None
  with assms obtain v6 where v6: "IP_To16 (as_IP a) = Some v6"
    by (auto simp: reply_message_def split: option.splits)
  let ?d = "\<lparr>as_FQDN = [], as_IP = v6, as_Port = as_Port a\<rparr>"
  have l: "length v6 = 16" using v6 by (rule IP_To16_length)
  have m: "msg = [socks5Version, resp, 0] @ encode_addr ?d"
    using assms None v6 l by (simp add: reply_message_def encode_addr_def)
  have "v6 = as_IP a" using None v6 by (auto simp: IP_To4_def IP_To16_def split: if_splits)
  then show ?thesis
    using l m readAddrSpec_complete [of ?d "conn_of (drop 3 msg @ rest)" rest]
    by (auto simp: addr_wf_def conn_of_def encode_addr_def)
qed

theorem reply_roundtrip_witness:
  "\<exists>ip. readAddrSpec (conn_of [1, 127, 0, 0, 1, 4, 56]) =
     (Inr \<lparr>as_FQDN = [], as_IP = ip, as_Port = 1080\<rparr>, conn_of []) \<and> IP_Equal ip [127, 0, 0, 1]"
proof -
  have h: "reply_message 0 (Some \<lparr>as_FQDN = [], as_IP = [127, 0, 0, 1], as_Port = 1080\<rparr>) =
      Inr [5, 0, 0, 1, 127, 0, 0, 1, 4, 56]" by code_simp
  show ?thesis using reply_roundtrip [OF h, of "[]"] by simp
qed

text \<open>
  With credentials configured, authentication is sound: it succeeds only when the client
  offered the username/password method and then sent, in the RFC 1929 layout, a user and a
  password the credential store accepts; the server's answers are then exactly the method
  selection and the success status, and the context names that user.
\<close>

theorem authenticate_sound:
  assumes "creds \<noteq> []" and "authenticate sha creds c = (Inr ctx, c')"
  shows "\<exists>methods user pass n ulen plen.
     inp c = [n] @ methods @ [1, ulen] @ user @ [plen] @ pass @ inp c' \<and>
     unat n = length methods \<and> unat ulen = length user \<and> unat plen = length pass \<and>
     UserPassAuth \<in> set methods \<and> Valid sha creds user pass \<and>
     outs c' = outs c @ [[5, 2], [1, 0]] \<and>
     ctx = \<lparr>Method = UserPassAuth, Payload = [(''Username'', string_of_bytes user)]\<rparr>"
  using assms by (rule authenticate_Inr)

theorem authenticate_sound_witness:
  "\<exists>methods user pass n ulen plen.
     [1, 2, 1, 1, 117, 1, 112, 9] = [n] @ methods @ [1, ulen] @ user @ [plen] @ pass @ [9 :: byte] \<and>
     UserPassAuth \<in> set methods \<and> Valid id [(''u'', ''p'')] user pass"
proof -
  let ?c = "conn_of [1, 2, 1, 1, 117, 1, 112, 9]"
  have v: "Valid id [(''u'', ''p'')] [117] [112]" by code_simp
  have ok: "\<exists>ctx c'. authenticate id [(''u'', ''p'')] ?c = (Inr ctx, c') \<and> inp c' = [9]"
    by (simp add: authenticate_def readMethods_def UserPassAuthenticator_def io_bind_def
        io_map_err_def ReadFull_def Write_def io_return_def conn_of_def v)
  then obtain ctx c' where "authenticate id [(''u'', ''p'')] ?c = (Inr ctx, c')" "inp c' = [9]" by blast
  moreover have "[(''u'', ''p'')] \<noteq> []" by simp
  ultimately show ?thesis
    using authenticate_sound [of "[(''u'', ''p'')]" id ?c ctx c'] by (fastforce simp: conn_of_def)
qed

end
