(* ===== verification/UdpLimiter.thy ===== *)
theory UdpLimiter
  imports Prelude
begin

text \<open>
  \<open>internal/socks/udp.go\<close>, resource limits: the settings with their defaults and the
  process-wide and per-client limiter. The locale \<open>limiter\<close> is the contract the relay
  relies on: acquisitions and releases are counted per client, exactly.
\<close>

section \<open>The limiter\<close>

record udpResourceLimiter =
  lim_total :: int
  byClient :: "string \<rightharpoonup> int"
  maxTotal :: int
  maxPerClient :: int

definition newUDPResourceLimiter :: "int \<Rightarrow> int \<Rightarrow> udpResourceLimiter" where
  "newUDPResourceLimiter mt mc =
     \<lparr>lim_total = 0, byClient = Map.empty, maxTotal = mt, maxPerClient = mc\<rparr>"

text \<open>Indexing a Go map: zero for a missing key.\<close>

definition client_count :: "udpResourceLimiter \<Rightarrow> string \<Rightarrow> int" where
  "client_count l client = (case byClient l client of None \<Rightarrow> 0 | Some n \<Rightarrow> n)"

definition acquire :: "udpResourceLimiter \<Rightarrow> string \<Rightarrow> bool \<times> udpResourceLimiter" where
  "acquire l client =
     (if maxTotal l > 0 \<and> lim_total l \<ge> maxTotal l then (False, l)
      else if maxPerClient l > 0 \<and> client_count l client \<ge> maxPerClient l then (False, l)
      else (True, l\<lparr>lim_total := lim_total l + 1,
                    byClient := (byClient l)(client \<mapsto> client_count l client + 1)\<rparr>))"

definition release :: "udpResourceLimiter \<Rightarrow> string \<Rightarrow> udpResourceLimiter" where
  "release l client =
     (if client_count l client \<le> 0 \<or> lim_total l \<le> 0 then l
      else let n = client_count l client - 1 in
        l\<lparr>lim_total := lim_total l - 1,
          byClient := (if n = 0 then (byClient l)(client := None) else (byClient l)(client \<mapsto> n))\<rparr>)"

text \<open>A nil limiter grants everything and remembers nothing.\<close>

definition acquire_opt :: "udpResourceLimiter option \<Rightarrow> string \<Rightarrow> bool \<times> udpResourceLimiter option" where
  "acquire_opt lo client =
     (case lo of None \<Rightarrow> (True, None)
      | Some l \<Rightarrow> (case acquire l client of (ok, l') \<Rightarrow> (ok, Some l')))"

definition release_opt :: "udpResourceLimiter option \<Rightarrow> string \<Rightarrow> udpResourceLimiter option" where
  "release_opt lo client = map_option (\<lambda>l. release l client) lo"

section \<open>Settings\<close>

definition defaultMaxNATEntries :: int where "defaultMaxNATEntries = 64"
definition defaultMaxAssociations :: int where "defaultMaxAssociations = 64"
definition defaultMaxAssociationsPerClient :: int where "defaultMaxAssociationsPerClient = 8"
definition defaultMaxNATEntriesGlobal :: int where "defaultMaxNATEntriesGlobal = 512"
definition defaultMaxNATEntriesPerClient :: int where "defaultMaxNATEntriesPerClient = 256"

lemmas udp_defaults [simp] =
  defaultMaxNATEntries_def defaultMaxAssociations_def defaultMaxAssociationsPerClient_def
  defaultMaxNATEntriesGlobal_def defaultMaxNATEntriesPerClient_def

record UDPSettings =
  set_Disable :: bool
  set_MaxAssociations :: int
  set_MaxAssociationsPerClient :: int
  set_MaxNATEntries :: int
  set_MaxNATEntriesGlobal :: int
  set_MaxNATEntriesPerClient :: int

definition orDefault :: "int \<Rightarrow> int \<Rightarrow> int" where
  "orDefault v fallback = (if v \<le> 0 then fallback else v)"

record udp_globals =
  udpDisabled :: bool
  udpMaxNAT :: int
  udpAssociationLimiter :: udpResourceLimiter
  udpNATLimiter :: udpResourceLimiter

definition init_udp_globals :: udp_globals where
  "init_udp_globals =
     \<lparr>udpDisabled = False, udpMaxNAT = defaultMaxNATEntries,
      udpAssociationLimiter = newUDPResourceLimiter defaultMaxAssociations defaultMaxAssociationsPerClient,
      udpNATLimiter = newUDPResourceLimiter defaultMaxNATEntriesGlobal defaultMaxNATEntriesPerClient\<rparr>"

definition SetUDPSettings :: "UDPSettings \<Rightarrow> udp_globals \<Rightarrow> udp_globals" where
  "SetUDPSettings s g =
     g\<lparr>udpDisabled := set_Disable s,
       udpMaxNAT := orDefault (set_MaxNATEntries s) defaultMaxNATEntries,
       udpAssociationLimiter := newUDPResourceLimiter
         (orDefault (set_MaxAssociations s) defaultMaxAssociations)
         (orDefault (set_MaxAssociationsPerClient s) defaultMaxAssociationsPerClient),
       udpNATLimiter := newUDPResourceLimiter
         (orDefault (set_MaxNATEntriesGlobal s) defaultMaxNATEntriesGlobal)
         (orDefault (set_MaxNATEntriesPerClient s) defaultMaxNATEntriesPerClient)\<rparr>"

definition udpConfig :: "udp_globals \<Rightarrow> bool \<times> udpResourceLimiter \<times> udpResourceLimiter \<times> int" where
  "udpConfig g = (udpDisabled g, udpAssociationLimiter g, udpNATLimiter g, udpMaxNAT g)"

definition UDPDisabled :: "udp_globals \<Rightarrow> bool" where
  "UDPDisabled g = udpDisabled g"

definition udpLimiters :: "udp_globals \<Rightarrow> udpResourceLimiter \<times> udpResourceLimiter \<times> int" where
  "udpLimiters g = snd (udpConfig g)"

section \<open>Invariant\<close>

text \<open>
  The total is the sum of the per-client counts, stored counts are positive, and neither
  limit is exceeded.
\<close>

definition limiter_inv :: "udpResourceLimiter \<Rightarrow> bool" where
  "limiter_inv l \<longleftrightarrow>
     finite (dom (byClient l)) \<and> (\<forall>c n. byClient l c = Some n \<longrightarrow> 0 < n) \<and>
     lim_total l = (\<Sum>c \<in> dom (byClient l). client_count l c) \<and>
     (0 < maxTotal l \<longrightarrow> lim_total l \<le> maxTotal l) \<and>
     (0 < maxPerClient l \<longrightarrow> (\<forall>c. client_count l c \<le> maxPerClient l))"

definition held :: "udpResourceLimiter \<Rightarrow> string \<Rightarrow> nat" where
  "held l c = nat (client_count l c)"

lemma limiter_limits:
  assumes "limiter_inv l"
  shows "0 < maxTotal l \<Longrightarrow> lim_total l \<le> maxTotal l"
    and "0 < maxPerClient l \<Longrightarrow> client_count l c \<le> maxPerClient l"
  using assms by (simp_all add: limiter_inv_def)

lemma client_count_nonneg: "limiter_inv l \<Longrightarrow> 0 \<le> client_count l c"
  by (auto simp: limiter_inv_def client_count_def order_less_imp_le split: option.split)

lemma client_count_outside: "c \<notin> dom (byClient l) \<Longrightarrow> client_count l c = 0"
  by (auto simp: client_count_def domIff)

text \<open>The total over any finite set of clients that includes the stored ones.\<close>

lemma total_over:
  assumes "limiter_inv l" and "finite A" and "dom (byClient l) \<subseteq> A"
  shows "lim_total l = (\<Sum>c \<in> A. client_count l c)"
proof -
  have "(\<Sum>c \<in> A. client_count l c) = (\<Sum>c \<in> dom (byClient l). client_count l c)"
    using assms by (intro sum.mono_neutral_right) (auto simp: client_count_outside)
  then show ?thesis using assms(1) by (simp add: limiter_inv_def)
qed

lemma total_ge_count: "limiter_inv l \<Longrightarrow> client_count l c \<le> lim_total l"
proof -
  assume inv: "limiter_inv l"
  let ?A = "insert c (dom (byClient l))"
  have fin: "finite ?A" using inv by (simp add: limiter_inv_def)
  have "client_count l c \<le> (\<Sum>d \<in> ?A. client_count l d)"
    using fin client_count_nonneg [OF inv] by (intro member_le_sum) auto
  then show ?thesis using total_over [OF inv fin subset_insertI] by simp
qed

lemma client_count_upd:
  "client_count (l\<lparr>lim_total := t, byClient := (byClient l)(c \<mapsto> n)\<rparr>) = (client_count l)(c := n)"
  "client_count (l\<lparr>lim_total := t, byClient := (byClient l)(c := None)\<rparr>) = (client_count l)(c := 0)"
  by (auto simp: client_count_def)

text \<open>Changing one client's count by \<open>d\<close> changes the sum by \<open>d\<close>.\<close>

lemma sum_upd:
  assumes "finite A" and "c \<in> A"
  shows "(\<Sum>x \<in> A. ((f(c := f c + d)) x :: int)) = (\<Sum>x \<in> A. f x) + d"
  using assms by (simp add: sum.remove [of A c])

lemma set_count_inv:
  assumes inv: "limiter_inv l"
    and l': "l' = l\<lparr>lim_total := lim_total l + d, byClient := m\<rparr>"
    and m: "m = (if client_count l c + d = 0 then (byClient l)(c := None)
                 else (byClient l)(c \<mapsto> client_count l c + d))"
    and pos: "0 \<le> client_count l c + d"
    and limits: "0 < maxTotal l \<longrightarrow> lim_total l + d \<le> maxTotal l"
      "0 < maxPerClient l \<longrightarrow> client_count l c + d \<le> maxPerClient l"
  shows "limiter_inv l'" and "client_count l' = (client_count l)(c := client_count l c + d)"
proof -
  show cc: "client_count l' = (client_count l)(c := client_count l c + d)"
    using l' m by (simp add: client_count_upd)
  let ?A = "insert c (dom (byClient l))"
  have fin: "finite ?A" using inv by (simp add: limiter_inv_def)
  have sub: "dom m \<subseteq> ?A" using m by (auto split: if_splits)
  have "(\<Sum>x \<in> dom m. client_count l' x) = (\<Sum>x \<in> ?A. client_count l' x)"
    using fin sub client_count_outside [of _ l'] l' by (intro sum.mono_neutral_left) auto
  also have "\<dots> = lim_total l + d"
    unfolding cc by (simp only: sum_upd [OF fin insertI1] total_over [OF inv fin subset_insertI])
  finally have tot: "lim_total l + d = (\<Sum>x \<in> dom m. client_count l' x)" by simp
  have vals: "0 < n" if "m x = Some n" for x n
    using that m pos inv by (auto simp: limiter_inv_def split: if_splits)
  show "limiter_inv l'"
    using fin sub tot vals limits inv l' cc
    by (auto simp: limiter_inv_def intro: finite_subset)
qed

lemma acquire_True:
  assumes "limiter_inv l" and "acquire l c = (True, l')"
  shows "limiter_inv l'" and "client_count l' = (client_count l)(c := client_count l c + 1)"
proof -
  have nn: "0 \<le> client_count l c" by (rule client_count_nonneg [OF assms(1)])
  have l': "l' = l\<lparr>lim_total := lim_total l + 1,
      byClient := (if client_count l c + 1 = 0 then (byClient l)(c := None)
                   else (byClient l)(c \<mapsto> client_count l c + 1))\<rparr>"
    using assms(2) nn by (auto simp: acquire_def split: if_splits)
  have lim: "0 < maxTotal l \<longrightarrow> lim_total l + 1 \<le> maxTotal l"
    "0 < maxPerClient l \<longrightarrow> client_count l c + 1 \<le> maxPerClient l"
    using assms(2) by (auto simp: acquire_def split: if_splits)
  show "limiter_inv l'" "client_count l' = (client_count l)(c := client_count l c + 1)"
    using set_count_inv [OF assms(1) l' refl _ lim] nn by auto
qed

lemma acquire_False: "acquire l c = (False, l') \<Longrightarrow> l' = l"
  by (auto simp: acquire_def split: if_splits)

lemma release_effect:
  assumes "limiter_inv l"
  shows "limiter_inv (release l c)"
    and "client_count (release l c) = (client_count l)(c := max 0 (client_count l c - 1))"
proof -
  have nn: "0 \<le> client_count l c" and le: "client_count l c \<le> lim_total l"
    using client_count_nonneg total_ge_count assms by auto
  consider "client_count l c = 0" | "0 < client_count l c" using nn by linarith
  then have "limiter_inv (release l c) \<and>
      client_count (release l c) = (client_count l)(c := max 0 (client_count l c - 1))"
  proof cases
    case 1
    then show ?thesis using assms by (auto simp: release_def)
  next
    case 2
    have l': "release l c = l\<lparr>lim_total := lim_total l + (- 1),
        byClient := (if client_count l c + (- 1) = 0 then (byClient l)(c := None)
                     else (byClient l)(c \<mapsto> client_count l c + (- 1)))\<rparr>"
      using 2 le by (auto simp: release_def Let_def)
    have lim: "0 < maxTotal l \<longrightarrow> lim_total l + (- 1) \<le> maxTotal l"
      "0 < maxPerClient l \<longrightarrow> client_count l c + (- 1) \<le> maxPerClient l"
      using limiter_limits(1) [OF assms] limiter_limits(2) [OF assms, of c] by linarith+
    show ?thesis
      using set_count_inv [OF assms l' refl _ lim] 2 by auto
  qed
  then show "limiter_inv (release l c)"
    and "client_count (release l c) = (client_count l)(c := max 0 (client_count l c - 1))" by auto
qed

section \<open>The contract of a limiter\<close>

text \<open>
  What the relay relies on: a granted acquisition adds one to the client's count, a refused
  one changes nothing, a release takes one away.
\<close>

datatype lim_op = Acq string | Rel string

text \<open>
  A sequence of calls that keeps the caller's side of the contract, together with what each
  client holds. \<open>None\<close> is a release of something that is not held.
\<close>

fun settle :: "('l \<Rightarrow> string \<Rightarrow> bool \<times> 'l) \<Rightarrow> ('l \<Rightarrow> string \<Rightarrow> 'l) \<Rightarrow> lim_op list \<Rightarrow>
    'l \<times> (string \<Rightarrow> nat) \<Rightarrow> ('l \<times> (string \<Rightarrow> nat)) option" where
  "settle acq rel [] lh = Some lh"
| "settle acq rel (Acq c # ops) (l, h) =
     (case acq l c of (granted, l') \<Rightarrow>
        settle acq rel ops (l', if granted then h(c := h c + 1) else h))"
| "settle acq rel (Rel c # ops) (l, h) =
     (if h c = 0 then None else settle acq rel ops (rel l c, h(c := h c - 1)))"

locale limiter =
  fixes acq :: "'l \<Rightarrow> string \<Rightarrow> bool \<times> 'l"
    and rel :: "'l \<Rightarrow> string \<Rightarrow> 'l"
    and cnt :: "'l \<Rightarrow> string \<Rightarrow> nat"
    and invar :: "'l \<Rightarrow> bool"
  assumes granted: "invar l \<Longrightarrow> acq l c = (True, l') \<Longrightarrow> invar l' \<and> cnt l' = (cnt l)(c := cnt l c + 1)"
    and refused: "acq l c = (False, l') \<Longrightarrow> l' = l"
    and released: "invar l \<Longrightarrow> invar (rel l c) \<and> cnt (rel l c) = (cnt l)(c := cnt l c - 1)"
begin

lemma acq_rel_count: "invar l \<Longrightarrow> acq l c = (True, l') \<Longrightarrow> cnt (rel l' c) = cnt l"
  using granted released [of l' c] by (auto simp: fun_eq_iff)

lemma settle_counts:
  assumes "invar l" and "cnt l = h" and "settle acq rel ops (l, h) = Some (l', h')"
  shows "invar l' \<and> cnt l' = h'"
  using assms
proof (induction ops arbitrary: l h)
  case (Cons op ops)
  show ?case
  proof (cases op)
    case (Acq c)
    obtain b m where a: "acq l c = (b, m)" by force
    show ?thesis
    proof (cases b)
      case True
      then have "invar m" "cnt m = h(c := h c + 1)"
        using granted [OF Cons.prems(1)] a Cons.prems(2) by auto
      then show ?thesis using Cons.IH Cons.prems(3) a Acq True by simp
    next
      case False
      then have "m = l" using refused a by simp
      then show ?thesis using Cons.IH [OF Cons.prems(1,2)] Cons.prems(3) a Acq False by simp
    qed
  next
    case (Rel c)
    have "invar (rel l c)" "cnt (rel l c) = h(c := h c - 1)"
      using released [OF Cons.prems(1)] Cons.prems(2) by auto
    then show ?thesis using Cons.IH Cons.prems(3) Rel by (simp split: if_splits)
  qed
qed simp

end

interpretation lim: limiter acquire release held limiter_inv
proof
  show "limiter_inv l' \<and> held l' = (held l)(c := held l c + 1)"
    if "limiter_inv l" "acquire l c = (True, l')" for l l' c
    using acquire_True [OF that] client_count_nonneg [OF that(1)]
    by (auto simp: held_def nat_add_distrib)
  show "l' = l" if "acquire l c = (False, l')" for l l' :: udpResourceLimiter and c
    using that by (rule acquire_False)
  show "limiter_inv (release l c) \<and> held (release l c) = (held l)(c := held l c - 1)"
    if "limiter_inv l" for l c
    using release_effect [OF that, of c] by (auto simp: held_def fun_eq_iff)
qed

lemma new_limiter_inv [simp]: "limiter_inv (newUDPResourceLimiter mt mc)"
  by (auto simp: limiter_inv_def newUDPResourceLimiter_def client_count_def)

lemma acquire_config:
  "acquire l c = (b, l') \<Longrightarrow> maxTotal l' = maxTotal l \<and> maxPerClient l' = maxPerClient l"
  by (auto simp: acquire_def split: if_splits)

lemma release_config [simp]:
  "maxTotal (release l c) = maxTotal l" "maxPerClient (release l c) = maxPerClient l"
  by (auto simp: release_def Let_def)

lemma settle_config:
  "settle acquire release ops (l, h) = Some (l', h') \<Longrightarrow>
   maxTotal l' = maxTotal l \<and> maxPerClient l' = maxPerClient l"
proof (induction ops arbitrary: l h)
  case (Cons op ops)
  show ?case
  proof (cases op)
    case (Acq c)
    obtain b m where a: "acquire l c = (b, m)" by force
    show ?thesis using Cons a Acq acquire_config [OF a] by auto
  qed (use Cons in \<open>auto split: if_splits\<close>)
qed simp

lemma no_counts_new:
  assumes "limiter_inv l" and "held l = (\<lambda>_. 0)"
  shows "l = newUDPResourceLimiter (maxTotal l) (maxPerClient l)"
proof -
  have zero: "client_count l c = 0" for c
    using fun_cong [OF assms(2), of c] client_count_nonneg [OF assms(1), of c]
    by (simp add: held_def)
  have "byClient l c = None" for c
    using zero [of c] assms(1) by (cases "byClient l c") (auto simp: client_count_def limiter_inv_def)
  then have m: "byClient l = Map.empty" by auto
  then have "lim_total l = 0" using assms(1) by (simp add: limiter_inv_def)
  with m show ?thesis by (simp add: newUDPResourceLimiter_def)
qed

section \<open>Properties\<close>

text \<open>C26: Whatever sequence of acquisitions and releases its callers make, as long as each
  granted acquisition is released at most once: the limiter's count of a client is exactly what
  that client holds, a positive global limit bounds the total and a positive per-client limit
  bounds every client, and when everything has been given back the limiter is as new, with no
  entry left in its map.\<close>

theorem limiter_exact_accounting:
  assumes "settle acquire release ops (newUDPResourceLimiter mt mc, \<lambda>_. 0) = Some (l, h)"
  shows "(\<forall>c. client_count l c = int (h c)) \<and>
    lim_total l = (\<Sum>c \<in> dom (byClient l). int (h c)) \<and>
    (0 < mt \<longrightarrow> lim_total l \<le> mt) \<and> (0 < mc \<longrightarrow> (\<forall>c. int (h c) \<le> mc)) \<and>
    (h = (\<lambda>_. 0) \<longrightarrow> l = newUDPResourceLimiter mt mc)"
proof -
  have zero: "held (newUDPResourceLimiter mt mc) = (\<lambda>_. 0)"
    by (simp add: fun_eq_iff held_def client_count_def newUDPResourceLimiter_def)
  have inv: "limiter_inv l" and h: "held l = h"
    using lim.settle_counts [OF new_limiter_inv zero assms] by auto
  have cfg: "maxTotal l = mt" "maxPerClient l = mc"
    using settle_config [OF assms] by (auto simp: newUDPResourceLimiter_def)
  have cnt: "client_count l c = int (h c)" for c
    using h client_count_nonneg [OF inv, of c] by (auto simp: held_def)
  show ?thesis
    using inv cnt cfg limiter_limits [OF inv] no_counts_new [OF inv] h
    by (auto simp: limiter_inv_def)
qed

theorem limiter_exact_accounting_witness:
  "\<exists>l h. settle acquire release [Acq ''a'', Acq ''a'', Acq ''b'', Rel ''a'', Acq ''b'']
      (newUDPResourceLimiter 2 1, \<lambda>_. 0) = Some (l, h) \<and>
    (\<forall>c. client_count l c = int (h c)) \<and> h ''a'' = 0 \<and> h ''b'' = 1 \<and> lim_total l \<le> 2"
proof -
  let ?ops = "[Acq ''a'', Acq ''a'', Acq ''b'', Rel ''a'', Acq ''b'']"
  obtain l h where r: "settle acquire release ?ops (newUDPResourceLimiter 2 1, \<lambda>_. 0) = Some (l, h)"
    and h: "h ''a'' = 0" "h ''b'' = 1"
    by (simp add: acquire_def release_def newUDPResourceLimiter_def client_count_def Let_def)
  show ?thesis using limiter_exact_accounting [OF r] r h by auto
qed

text \<open>Whatever the configuration says, zero and negative values included, the limits in
  force after \<open>SetUDPSettings\<close> are positive, so no relay runs unlimited; and the built-in
  defaults keep the per-client NAT cap at or above the per-association cap, which the source
  asks for.\<close>

theorem SetUDPSettings_always_limits:
  "(case udpConfig (SetUDPSettings s g) of (disabled, associations, natl, maxNAT) \<Rightarrow>
      disabled = set_Disable s \<and> 0 < maxNAT \<and>
      0 < maxTotal associations \<and> 0 < maxPerClient associations \<and>
      0 < maxTotal natl \<and> 0 < maxPerClient natl \<and>
      limiter_inv associations \<and> limiter_inv natl) \<and>
   (case udpConfig init_udp_globals of (_, _, natl, maxNAT) \<Rightarrow> maxNAT \<le> maxPerClient natl)"
  by (simp add: udpConfig_def SetUDPSettings_def orDefault_def init_udp_globals_def)
     (simp add: newUDPResourceLimiter_def)

end
