(* ===== verification/UdpHeader.thy ===== *)
theory UdpHeader
  imports SocksWire UdpLimiter
begin

text \<open>
  \<open>internal/socks/udp.go\<close>, the datagram codec: the SOCKS5 UDP header, the keys of flows
  and clients, the address checks of the reverse path and the in-place framing of a response
  in the pooled buffer. The reference grammar is the one of \<open>SocksWire\<close>.
\<close>

section \<open>The header\<close>

definition udpMaxPacketSize :: nat where "udpMaxPacketSize = 65535"
definition udpMaxHeaderLen :: nat where "udpMaxHeaderLen = 262"

record UDPHeader =
  Frag :: byte
  Addr :: AddrSpec
  DataOffset :: nat

text \<open>The slice expression \<open>buf[a:b]\<close>, used within bounds only.\<close>

definition buf_slice :: "nat \<Rightarrow> nat \<Rightarrow> 'a list \<Rightarrow> 'a list" where
  "buf_slice a b xs = take (b - a) (drop a xs)"

text \<open>The common tail of \<open>ParseUDPHeader\<close>: the port behind an address that ends at \<open>off\<close>.\<close>

definition parse_udp_port :: "bytes \<Rightarrow> byte \<Rightarrow> AddrSpec \<Rightarrow> nat \<Rightarrow> UDPHeader result" where
  "parse_udp_port buf frag addr off =
     (if length buf < off + 2 then Inl (Sentinel ErrUDPMalformed)
      else Inr \<lparr>Frag = frag, Addr = addr\<lparr>as_Port := be16 (buf ! off) (buf ! (off + 1))\<rparr>,
                DataOffset = off + 2\<rparr>)"

definition ParseUDPHeader :: "bytes \<Rightarrow> UDPHeader result" where
  "ParseUDPHeader buf =
     (if length buf < 4 then Inl (Sentinel ErrUDPMalformed)
      else if buf ! 0 \<noteq> 0 \<or> buf ! 1 \<noteq> 0 then Inl (Sentinel ErrUDPMalformed)
      else
        let frag = buf ! 2; addr = \<lparr>as_FQDN = [], as_IP = [], as_Port = 0\<rparr> in
        if buf ! 3 = ipv4Address then
          (if length buf < 4 + 4 + 2 then Inl (Sentinel ErrUDPMalformed)
           else parse_udp_port buf frag (addr\<lparr>as_IP := buf_slice 4 8 buf\<rparr>) 8)
        else if buf ! 3 = ipv6Address then
          (if length buf < 4 + 16 + 2 then Inl (Sentinel ErrUDPMalformed)
           else parse_udp_port buf frag (addr\<lparr>as_IP := buf_slice 4 20 buf\<rparr>) 20)
        else if buf ! 3 = fqdnAddress then
          (if length buf < 4 + 1 then Inl (Sentinel ErrUDPMalformed)
           else let fqdnLen = unat (buf ! 4) in
             if length buf < 5 + fqdnLen + 2 then Inl (Sentinel ErrUDPMalformed)
             else parse_udp_port buf frag
                    (addr\<lparr>as_FQDN := string_of_bytes (buf_slice 5 (5 + fqdnLen) buf)\<rparr>) (5 + fqdnLen))
        else Inl (Sentinel ErrUnrecognizedAddrType))"

definition MarshalUDPHeader :: "AddrSpec option \<Rightarrow> bytes result" where
  "MarshalUDPHeader addr =
     (case addr of
        None \<Rightarrow> Inl (Errorf ''socks5: cannot marshal UDP header: nil address'')
      | Some a \<Rightarrow>
          let header = (\<lambda>atyp addrBytes. [0, 0, 0] @ [atyp] @ addrBytes @ [hi_byte (as_Port a), lo_byte (as_Port a)]) in
          (case IP_To4 (as_IP a) of
             Some v4 \<Rightarrow> Inr (header ipv4Address v4)
           | None \<Rightarrow>
          (case IP_To16 (as_IP a) of
             Some v6 \<Rightarrow> Inr (header ipv6Address v6)
           | None \<Rightarrow>
             if as_FQDN a \<noteq> [] then
               (if 255 < length (as_FQDN a) then Inl (Sentinel ErrUDPFQDNTooLong)
                else Inr (header fqdnAddress
                       (word_of_nat (length (as_FQDN a)) # bytes_of_string (as_FQDN a))))
             else Inl (Errorf ''socks5: cannot marshal UDP header: invalid address''))))"

section \<open>Keys and addresses\<close>

definition udpClientKey :: "net_IP \<Rightarrow> string" where
  "udpClientKey ip =
     (if ip = [] \<or> IP_IsUnspecified ip then ''unknown''
      else case IP_To4 ip of Some v4 \<Rightarrow> IP_String v4 | None \<Rightarrow> IP_String ip)"

definition natKey :: "net_Addr option \<Rightarrow> string \<Rightarrow> string" where
  "natKey clientAddr targetAddr =
     (case clientAddr of None \<Rightarrow> targetAddr
      | Some a \<Rightarrow> Addr_String a @ ''|'' @ targetAddr)"

definition relayBindAddress :: "net_IP \<Rightarrow> string \<times> string" where
  "relayBindAddress localIP =
     (if localIP \<noteq> [] \<and> \<not> IP_IsUnspecified localIP then
        (if IP_To4 localIP \<noteq> None then (''udp4'', net_JoinHostPort (IP_String localIP) ''0'')
         else (''udp6'', net_JoinHostPort (IP_String localIP) ''0''))
      else (''udp4'', ''127.0.0.1:0''))"

definition sourceMatchesTarget :: "net_Addr \<Rightarrow> net_Addr \<Rightarrow> bool" where
  "sourceMatchesTarget src target =
     (case src of
        NamedAddr _ \<Rightarrow> True
      | UDPAddr s \<Rightarrow>
          (case target of
             NamedAddr _ \<Rightarrow> True
           | UDPAddr t \<Rightarrow> ua_Port s = ua_Port t \<and> IP_Equal (ua_IP s) (ua_IP t)))"

definition addrSpecFromNetAddr :: "net_Addr option \<Rightarrow> AddrSpec option" where
  "addrSpecFromNetAddr addr =
     (case addr of
        None \<Rightarrow> None
      | Some (UDPAddr v) \<Rightarrow>
          if ua_Port v < 0 \<or> 65535 < ua_Port v then None
          else Some \<lparr>as_FQDN = [], as_IP = ua_IP v, as_Port = word_of_int (ua_Port v)\<rparr>
      | Some (NamedAddr s) \<Rightarrow>
          (case net_SplitHostPort s of
             Inl _ \<Rightarrow> None
           | Inr (host, portStr) \<Rightarrow>
               (case ParseUint10 portStr 16 of
                  Inl _ \<Rightarrow> None
                | Inr port \<Rightarrow>
                    (case net_ParseIP host of
                       Some ip \<Rightarrow> Some \<lparr>as_FQDN = [], as_IP = ip, as_Port = word_of_nat port\<rparr>
                     | None \<Rightarrow> Some \<lparr>as_FQDN = host, as_IP = [], as_Port = word_of_nat port\<rparr>))))"

section \<open>Dialing a packet target\<close>

text \<open>
  What the egress answers. Connections are named by numbers; a transport may hand back a
  connection next to an error, and may leave the connection or the target nil.
\<close>

datatype packet_dial =
    TargetDialer "nat option" "net_Addr option" "goerror option"
  | PacketDialer "nat option" "goerror option"
  | NoPacketDialer

text \<open>The result and the connections closed on the way.\<close>

definition dialPacketTarget :: "packet_dial \<Rightarrow> string \<Rightarrow> (nat \<times> net_Addr) result \<times> nat list" where
  "dialPacketTarget answer targetAddr =
     (case answer of
        TargetDialer conn target err \<Rightarrow>
          (case err of
             Some e \<Rightarrow> (Inl e, case conn of None \<Rightarrow> [] | Some c \<Rightarrow> [c])
           | None \<Rightarrow>
               (case conn of
                  None \<Rightarrow> (Inl (Errorf ''packet target dialer returned a nil connection''), [])
                | Some c \<Rightarrow>
                    (case target of
                       None \<Rightarrow> (Inl (Errorf ''packet target dialer returned a nil target address''), [c])
                     | Some t \<Rightarrow> (Inr (c, t), []))))
      | NoPacketDialer \<Rightarrow> (Inl (Errorf ''egress does not support UDP''), [])
      | PacketDialer conn err \<Rightarrow>
          (case err of
             Some e \<Rightarrow> (Inl e, case conn of None \<Rightarrow> [] | Some c \<Rightarrow> [c])
           | None \<Rightarrow>
               (case conn of
                  None \<Rightarrow> (Inl (Errorf ''packet dialer returned a nil connection''), [])
                | Some c \<Rightarrow> (Inr (c, NamedAddr targetAddr), []))))"

fun offered_conn :: "packet_dial \<Rightarrow> nat list" where
  "offered_conn (TargetDialer conn t e) = (case conn of None \<Rightarrow> [] | Some c \<Rightarrow> [c])"
| "offered_conn (PacketDialer conn e) = (case conn of None \<Rightarrow> [] | Some c \<Rightarrow> [c])"
| "offered_conn NoPacketDialer = []"

section \<open>One datagram of the reverse path\<close>

text \<open>
  The body of the loop of \<open>reverseRelay\<close> for one datagram that was read: \<open>buf\<close> is the
  pooled buffer as it was before the read, \<open>data\<close> the bytes \<open>ReadFrom\<close> stored behind the
  reserved header space. \<open>None\<close> is a \<open>continue\<close>, otherwise the slice that is written to
  the client.
\<close>

definition overwrite :: "nat \<Rightarrow> 'a list \<Rightarrow> 'a list \<Rightarrow> 'a list" where
  "overwrite i ys xs = take i xs @ ys @ drop (i + length ys) xs"

definition frame_response :: "net_Addr \<Rightarrow> net_Addr \<Rightarrow> bytes \<Rightarrow> bytes \<Rightarrow> bytes option" where
  "frame_response target respAddr buf data =
     (let n = length data; buf1 = overwrite udpMaxHeaderLen data buf in
      if \<not> sourceMatchesTarget respAddr target then None
      else case addrSpecFromNetAddr (Some respAddr) of
          None \<Rightarrow> None
        | Some spec \<Rightarrow>
            (case MarshalUDPHeader (Some spec) of
               Inl _ \<Rightarrow> None
             | Inr header \<Rightarrow>
                 if length header + n > udpMaxPacketSize then None
                 else let start = udpMaxHeaderLen - length header;
                          buf2 = overwrite start header buf1
                      in Some (buf_slice start (udpMaxHeaderLen + n) buf2)))"

section \<open>Lemmas\<close>

lemma buf_slice_append [simp]: "length p = a \<Longrightarrow> length q + a = b \<Longrightarrow> buf_slice a b (p @ q @ r) = q"
  by (auto simp: buf_slice_def)

text \<open>The parser is the address grammar behind three bytes.\<close>

lemma parse_port_iff:
  "parse_udp_port buf frag addr off = Inr h \<longleftrightarrow>
     off + 2 \<le> length buf \<and>
     h = \<lparr>Frag = frag, Addr = addr\<lparr>as_Port := be16 (buf ! off) (buf ! (off + 1))\<rparr>, DataOffset = off + 2\<rparr>"
  by (auto simp: parse_udp_port_def)

lemma split_at_2:
  assumes "off + 2 \<le> length buf"
  shows "buf = take off buf @ [buf ! off, buf ! Suc off] @ drop (off + 2) buf"
  using assms by (metis Cons_nth_drop_Suc Suc_le_eq add_2_eq_Suc' append_Cons append_Nil
      append_take_drop_id le_SucI not_less_eq_eq)

lemma ParseUDPHeader_complete:
  assumes "addr_wf d"
  shows "ParseUDPHeader ([0, 0, frag] @ encode_addr d @ rest) =
    Inr \<lparr>Frag = frag, Addr = d, DataOffset = 3 + length (encode_addr d)\<rparr>"
proof -
  obtain fqdn ip port where d: "d = \<lparr>as_FQDN = fqdn, as_IP = ip, as_Port = port\<rparr>" by (cases d)
  consider "length ip = 4" "fqdn = []" | "length ip = 16" "fqdn = []" | "ip = []" "length fqdn < 256"
    using assms by (auto simp: addr_wf_def d)
  then show ?thesis
  proof cases
    case 1
    then show ?thesis
      by (simp add: ParseUDPHeader_def encode_addr_def d Let_def parse_udp_port_def nth_append buf_slice_def
          nth_Cons' drop_Cons')
  next
    case 2
    then show ?thesis
      by (simp add: ParseUDPHeader_def encode_addr_def d Let_def parse_udp_port_def nth_append buf_slice_def
          nth_Cons' drop_Cons')
  next
    case 3
    then show ?thesis
      by (simp add: ParseUDPHeader_def encode_addr_def d Let_def parse_udp_port_def nth_append buf_slice_def
          nth_Cons' drop_Cons')
  qed
qed

lemma ParseUDPHeader_sound:
  assumes "ParseUDPHeader buf = Inr h"
  shows "addr_wf (Addr h) \<and> buf = [0, 0, Frag h] @ encode_addr (Addr h) @ drop (DataOffset h) buf \<and>
    DataOffset h = 3 + length (encode_addr (Addr h))"
proof -
  have len: "4 \<le> length buf" and z: "buf ! 0 = 0" "buf ! 1 = 0"
    using assms by (auto simp: ParseUDPHeader_def split: if_splits)
  obtain frag atyp r where buf: "buf = 0 # 0 # frag # atyp # r"
  proof -
    obtain a b c d r where "buf = a # b # c # d # r"
      using len by (auto simp: Suc_le_length_iff numeral_eq_Suc)
    with z that show thesis by auto
  qed
  have two: "r = take k r @ [r ! k, r ! Suc k] @ drop (k + 2) r" if "k + 2 \<le> length r" for k
    using split_at_2 [OF that] .
  consider (v4) "atyp = 1" | (v6) "atyp = 4" | (name) "atyp = 3"
    using assms by (auto simp: ParseUDPHeader_def buf Let_def split: if_splits)
  then show ?thesis
  proof cases
    case v4
    then show ?thesis using assms two [of 4]
      by (auto simp: ParseUDPHeader_def buf Let_def parse_udp_port_def buf_slice_def addr_wf_def
          encode_addr_def split: if_splits)
  next
    case v6
    then show ?thesis using assms two [of 16]
      by (auto simp: ParseUDPHeader_def buf Let_def parse_udp_port_def buf_slice_def addr_wf_def
          encode_addr_def split: if_splits)
  next
    case name
    then obtain l q where r: "r = l # q"
      using assms by (cases r) (auto simp: ParseUDPHeader_def buf split: if_splits)
    have two': "q = take k q @ [q ! k, q ! Suc k] @ drop (k + 2) q" if "k + 2 \<le> length q" for k
      using split_at_2 [OF that] .
    have seven: "7 + n = Suc (Suc (Suc (Suc (Suc (n + 2)))))" for n :: nat by simp
    show ?thesis using assms name two' [of "unat l"] unat_byte_lt [of l]
      by (auto simp: seven ParseUDPHeader_def buf r Let_def parse_udp_port_def buf_slice_def addr_wf_def
          encode_addr_def split: if_splits)
  qed
qed

lemma encode_addr_length: "addr_wf d \<Longrightarrow> length (encode_addr d) \<le> 259"
  by (auto simp: addr_wf_def encode_addr_def)

text \<open>
  A marshalled header is a header of the grammar, for the address the spec denotes: the
  IP address when it has one, in its shortest form, the name otherwise.
\<close>

lemma MarshalUDPHeader_sound:
  assumes "MarshalUDPHeader (Some a) = Inr header"
  shows "\<exists>d. addr_wf d \<and> header = [0, 0, 0] @ encode_addr d \<and> as_Port d = as_Port a \<and>
    (if length (as_IP a) \<in> {4, 16} then as_FQDN d = [] \<and> IP_Equal (as_IP d) (as_IP a)
     else as_IP d = [] \<and> as_FQDN d = as_FQDN a \<and> as_FQDN a \<noteq> [])"
proof (cases "IP_To4 (as_IP a)")
  case (Some v4)
  then have "length v4 = 4" "IP_Equal v4 (as_IP a)" "length (as_IP a) \<in> {4, 16}"
    by (auto simp: IP_To4_def IP_Equal_def split: if_splits)
  then show ?thesis using assms Some
    by (intro exI [of _ "\<lparr>as_FQDN = [], as_IP = v4, as_Port = as_Port a\<rparr>"])
       (auto simp: MarshalUDPHeader_def addr_wf_def encode_addr_def)
next
  case None
  show ?thesis
  proof (cases "IP_To16 (as_IP a)")
    case (Some v6)
    then have "v6 = as_IP a" "length (as_IP a) = 16"
      using None by (auto simp: IP_To4_def IP_To16_def split: if_splits)
    then show ?thesis using assms Some None
      by (intro exI [of _ "\<lparr>as_FQDN = [], as_IP = v6, as_Port = as_Port a\<rparr>"])
         (auto simp: MarshalUDPHeader_def addr_wf_def encode_addr_def)
  next
    case n16: None
    then have "length (as_IP a) \<notin> {4, 16}" by (auto simp: IP_To16_def split: if_splits)
    then show ?thesis using assms n16 None
      by (intro exI [of _ "\<lparr>as_FQDN = as_FQDN a, as_IP = [], as_Port = as_Port a\<rparr>"])
         (auto simp: MarshalUDPHeader_def addr_wf_def encode_addr_def split: if_splits)
  qed
qed

lemma MarshalUDPHeader_length:
  assumes "MarshalUDPHeader (Some a) = Inr header"
  shows "length header \<le> udpMaxHeaderLen"
  using MarshalUDPHeader_sound [OF assms] encode_addr_length by (auto simp: udpMaxHeaderLen_def)

text \<open>Writing the header right before the payload yields header and payload, contiguous.\<close>

lemma frame_in_place:
  assumes "udpMaxHeaderLen \<le> length buf" and "length header \<le> udpMaxHeaderLen"
  shows "buf_slice (udpMaxHeaderLen - length header) (udpMaxHeaderLen + length data)
      (overwrite (udpMaxHeaderLen - length header) header (overwrite udpMaxHeaderLen data buf)) =
    header @ data"
proof -
  let ?s = "udpMaxHeaderLen - length header"
  have e: "?s + length header = udpMaxHeaderLen" using assms(2) by simp
  have "overwrite ?s header (overwrite udpMaxHeaderLen data buf) =
      take ?s buf @ (header @ data) @ drop (udpMaxHeaderLen + length data) buf"
    using assms by (simp add: overwrite_def e min_def)
  then show ?thesis using assms e by (simp only:) (intro buf_slice_append; simp)
qed

text \<open>What a framed response is made of.\<close>

lemma frame_response_parts:
  assumes "frame_response target respAddr buf data = Some out"
    and "length buf = udpMaxPacketSize + udpMaxHeaderLen"
  obtains spec d where "sourceMatchesTarget respAddr target"
    and "addrSpecFromNetAddr (Some respAddr) = Some spec"
    and "addr_wf d" and "out = [0, 0, 0] @ encode_addr d @ data" and "as_Port d = as_Port spec"
    and "if length (as_IP spec) \<in> {4, 16} then as_FQDN d = [] \<and> IP_Equal (as_IP d) (as_IP spec)
     else as_IP d = [] \<and> as_FQDN d = as_FQDN spec \<and> as_FQDN spec \<noteq> []"
    and "length out \<le> udpMaxPacketSize"
proof -
  obtain spec header where s: "sourceMatchesTarget respAddr target"
    and sp: "addrSpecFromNetAddr (Some respAddr) = Some spec"
    and m: "MarshalUDPHeader (Some spec) = Inr header"
    and le: "length header + length data \<le> udpMaxPacketSize"
    and out0: "out = buf_slice (udpMaxHeaderLen - length header) (udpMaxHeaderLen + length data)
      (overwrite (udpMaxHeaderLen - length header) header (overwrite udpMaxHeaderLen data buf))"
    using assms(1) by (auto simp: frame_response_def Let_def split: if_splits option.splits sum.splits)
  have out: "out = header @ data"
    unfolding out0 using assms(2) MarshalUDPHeader_length [OF m] by (intro frame_in_place) simp_all
  show thesis using MarshalUDPHeader_sound [OF m] that [OF s sp] out le by auto
qed

section \<open>Properties\<close>

text \<open>C35: \<open>ParseUDPHeader\<close> accepts exactly the RFC 1928 datagram header: it succeeds if and
  only if the datagram starts with two zero bytes, a fragment byte and the encoding of a
  well-formed address, and then the payload offset points right behind it, within the
  datagram.\<close>

theorem ParseUDPHeader_exact:
  "ParseUDPHeader buf = Inr h \<longleftrightarrow>
     addr_wf (Addr h) \<and>
     (\<exists>payload. buf = [0, 0, Frag h] @ encode_addr (Addr h) @ payload \<and>
                DataOffset h + length payload = length buf)"
proof
  assume "ParseUDPHeader buf = Inr h"
  from ParseUDPHeader_sound [OF this] have
    wf: "addr_wf (Addr h)" and b: "buf = [0, 0, Frag h] @ encode_addr (Addr h) @ drop (DataOffset h) buf"
    and off: "DataOffset h = 3 + length (encode_addr (Addr h))" by auto
  have "length buf = 3 + length (encode_addr (Addr h)) + length (drop (DataOffset h) buf)"
    using arg_cong [OF b, of length] by simp
  with wf b off show "addr_wf (Addr h) \<and> (\<exists>payload. buf = [0, 0, Frag h] @ encode_addr (Addr h) @ payload \<and>
                DataOffset h + length payload = length buf)" by metis
next
  assume a: "addr_wf (Addr h) \<and> (\<exists>payload. buf = [0, 0, Frag h] @ encode_addr (Addr h) @ payload \<and>
                DataOffset h + length payload = length buf)"
  then obtain payload where b: "buf = [0, 0, Frag h] @ encode_addr (Addr h) @ payload"
    and off: "DataOffset h + length payload = length buf" by blast
  have "DataOffset h = 3 + length (encode_addr (Addr h))" using off b by simp
  then have "h = \<lparr>Frag = Frag h, Addr = Addr h, DataOffset = 3 + length (encode_addr (Addr h))\<rparr>" by simp
  then show "ParseUDPHeader buf = Inr h"
    using ParseUDPHeader_complete [of "Addr h" "Frag h" payload] a b by simp
qed

text \<open>C36: Every response the reverse path writes to the client is one valid SOCKS5 datagram:
  from a pooled buffer of sufficient size, the slice sent is at most 65535 bytes, parses with
  fragment number zero to the responder's port and address (its IP, up to the 4-in-6 form,
  when the transport reports one), its payload is exactly the bytes that were read, and the
  responder is the flow's target whenever both are UDP addresses. So writing the header in
  place never runs out of the reserved space and never truncates.\<close>

theorem frame_response_valid:
  assumes "frame_response target respAddr buf data = Some out"
    and "length buf = udpMaxPacketSize + udpMaxHeaderLen"
  shows "length out \<le> udpMaxPacketSize \<and> sourceMatchesTarget respAddr target \<and>
    (\<exists>h spec. ParseUDPHeader out = Inr h \<and> Frag h = 0 \<and> drop (DataOffset h) out = data \<and>
       addrSpecFromNetAddr (Some respAddr) = Some spec \<and> as_Port (Addr h) = as_Port spec \<and>
       (if length (as_IP spec) \<in> {4, 16} then IP_Equal (as_IP (Addr h)) (as_IP spec)
        else as_FQDN (Addr h) = as_FQDN spec))"
proof (rule frame_response_parts [OF assms])
  fix spec d
  assume s: "sourceMatchesTarget respAddr target" "addrSpecFromNetAddr (Some respAddr) = Some spec"
    and d: "addr_wf d" and out: "out = [0, 0, 0] @ encode_addr d @ data"
    and q: "as_Port d = as_Port spec"
      "if length (as_IP spec) \<in> {4, 16} then as_FQDN d = [] \<and> IP_Equal (as_IP d) (as_IP spec)
       else as_IP d = [] \<and> as_FQDN d = as_FQDN spec \<and> as_FQDN spec \<noteq> []"
      "length out \<le> udpMaxPacketSize"
  have "ParseUDPHeader out = Inr \<lparr>Frag = 0, Addr = d, DataOffset = 3 + length (encode_addr d)\<rparr>"
    using ParseUDPHeader_complete [OF d, of 0 data] out by simp
  moreover have "drop (3 + length (encode_addr d)) out = data" using out by (simp add: numeral_3_eq_3)
  ultimately show ?thesis using s q by (auto split: if_splits)
qed

theorem frame_response_valid_witness:
  "\<exists>buf out h. length buf = udpMaxPacketSize + udpMaxHeaderLen \<and>
     frame_response (UDPAddr \<lparr>ua_IP = [9, 9, 9, 9], ua_Port = 53, ua_Zone = []\<rparr>)
       (UDPAddr \<lparr>ua_IP = [9, 9, 9, 9], ua_Port = 53, ua_Zone = []\<rparr>) buf [7, 8] = Some out \<and>
     ParseUDPHeader out = Inr h \<and> drop (DataOffset h) out = [7, 8] \<and> as_Port (Addr h) = 53"
proof -
  let ?a = "UDPAddr \<lparr>ua_IP = [9, 9, 9, 9], ua_Port = 53, ua_Zone = []\<rparr>"
  obtain buf :: bytes where buf: "length buf = udpMaxPacketSize + udpMaxHeaderLen"
    by (rule that, rule length_replicate)
  have sp: "addrSpecFromNetAddr (Some ?a) = Some \<lparr>as_FQDN = [], as_IP = [9, 9, 9, 9], as_Port = 53\<rparr>"
    by (simp add: addrSpecFromNetAddr_def)
  have ms: "\<exists>h. MarshalUDPHeader (Some \<lparr>as_FQDN = [], as_IP = [9, 9, 9, 9], as_Port = 53\<rparr>) = Inr h \<and>
      length h = 10"
    by (simp add: MarshalUDPHeader_def IP_To4_def)
  obtain out where o: "frame_response ?a ?a buf [7, 8] = Some out"
    using ms by (auto simp: frame_response_def sourceMatchesTarget_def Let_def udpMaxPacketSize_def sp)
  show ?thesis using frame_response_valid [OF o buf] sp o buf by auto
qed

end
