(* ===== verification/HostUtils.thy ===== *)
theory HostUtils
  imports GoNet
begin

text \<open>
  \<open>internal/utils\<close>: host-name normalisation, the 16-bit \<open>SplitHostPort\<close>, the
  registrable-domain extraction and the idempotent closer. The public-suffix table is a
  third-party package and enters \<open>ExtractDomain\<close> as an argument.
\<close>

section \<open>Host names (net.go)\<close>

definition NormalizeHost :: "unicode \<Rightarrow> string \<Rightarrow> string" where
  "NormalizeHost u s =
     (let t = strings_TrimSpace u s in
      if t = [] then t else strings_ToLower u (trim_right_dots t))"

definition SplitHostPort :: "string \<Rightarrow> (string \<times> u16) result" where
  "SplitHostPort s =
     (case net_SplitHostPort s of
        Inl e \<Rightarrow> Inl e
      | Inr (host, sport) \<Rightarrow>
          (case Atoi sport of
             Inl e \<Rightarrow> Inl e
           | Inr port \<Rightarrow>
               if port < 0 \<or> port > 65535 then Inl (Errorf ''invalid port'')
               else Inr (host, word_of_int port)))"

text \<open>\<open>publicsuffix.PublicSuffix\<close> returns the suffix and whether an ICANN rule gave it.\<close>

definition ExtractDomain ::
  "unicode \<Rightarrow> (string \<Rightarrow> string \<times> bool) \<Rightarrow> string \<Rightarrow> string" where
  "ExtractDomain u publicSuffix raw =
     (let s = NormalizeHost u raw in
      if s = [] then []
      else case publicSuffix s of (eTLD, icann) \<Rightarrow>
        if icann then
          (if length s \<le> length eTLD then s
           else let domain = take (length s - length eTLD - 1) s in
             case LastIndexByte domain (CHR ''.'') of
               Some index \<Rightarrow> drop (Suc index) s
             | None \<Rightarrow> s)
        else eTLD)"

lemma NormalizeHost_ascii:
  assumes "list_all is_ascii s"
  shows "NormalizeHost u s = map ascii_lower (trim_right_dots (trim_both ascii_space s))"
proof -
  have a: "list_all is_ascii (trim_right_dots (trim_both ascii_space s))"
    using assms set_trim_both [of ascii_space s] set_trim_right
    unfolding list_all_iff trim_right_dots_def by blast
  show ?thesis
    using assms a by (simp add: NormalizeHost_def strings_TrimSpace_def strings_ToLower_def
        trim_right_dots_def Let_def)
qed

lemma NormalizeHost_ascii_ascii:
  assumes "list_all is_ascii s"
  shows "list_all is_ascii (NormalizeHost u s)"
proof -
  have "set (trim_right_dots (trim_both ascii_space s)) \<subseteq> set s"
    using set_trim_both [of ascii_space s] set_trim_right
    unfolding trim_right_dots_def by blast
  with assms show ?thesis by (auto simp: NormalizeHost_ascii list_all_iff)
qed

text \<open>A normalised name is lower case and does not end in a dot.\<close>

lemma NormalizeHost_canonical:
  assumes "list_all is_ascii s"
  shows "map ascii_lower (NormalizeHost u s) = NormalizeHost u s"
    and "NormalizeHost u s \<noteq> [] \<Longrightarrow> last (NormalizeHost u s) \<noteq> CHR ''.''"
  using assms trim_right_last [of "\<lambda>c. c = CHR ''.''" "trim_both ascii_space s"]
  by (simp_all add: NormalizeHost_ascii trim_right_dots_def last_map comp_def)

text \<open>
  Normalising is idempotent exactly when removing the trailing dots does not expose a
  blank. On a name such as \<open>''a. .''\<close> one pass leaves \<open>''a. ''\<close>.
\<close>

lemma NormalizeHost_stable:
  assumes "list_all is_ascii s"
    and "NormalizeHost u s = [] \<or> \<not> ascii_space (last (NormalizeHost u s))"
  shows "NormalizeHost u (NormalizeHost u s) = NormalizeHost u s"
proof -
  let ?t = "trim_both ascii_space s" and ?n = "NormalizeHost u s"
  have n: "?n = map ascii_lower (trim_right_dots ?t)"
    by (rule NormalizeHost_ascii [OF assms(1)])
  have "?n = [] \<or> \<not> ascii_space (hd ?n)"
    using trim_both_ends [of ascii_space s] trim_right_hd [of "\<lambda>c. c = CHR ''.''" ?t]
    by (cases "?t = []") (auto simp: n trim_right_dots_def hd_map)
  with assms(2) have b: "trim_both ascii_space ?n = ?n"
    by (intro trim_both_id) auto
  have d: "trim_right_dots ?n = ?n"
    unfolding trim_right_dots_def using NormalizeHost_canonical(2) [OF assms(1), of u]
    by (intro trim_right_id) auto
  show ?thesis
    using NormalizeHost_ascii [OF NormalizeHost_ascii_ascii [OF assms(1), of u], of u]
      NormalizeHost_canonical(1) [OF assms(1), of u] by (simp add: b d)
qed

section \<open>Idempotent close (once\_closer.go)\<close>

text \<open>
  \<open>onceConn\<close> and \<open>onceRWC\<close> share one body: a \<open>sync.Once\<close>, the wrapped closer
  (possibly nil) and the remembered error. \<open>inner_closes\<close> counts the calls of the wrapped
  \<open>Close\<close>, whose result is \<open>inner_result\<close>.
\<close>

record onceConn =
  once_done :: bool
  once_err :: "goerror option"
  inner_nil :: bool
  inner_closes :: nat
  inner_result :: "goerror option"

definition OnceNetConn :: "goerror option \<Rightarrow> onceConn" where
  "OnceNetConn res = \<lparr>once_done = False, once_err = None, inner_nil = False,
     inner_closes = 0, inner_result = res\<rparr>"

definition onceConn_Close :: "onceConn \<Rightarrow> onceConn \<times> goerror option" where
  "onceConn_Close c =
     (let c' = (if once_done c then c
                else if inner_nil c then c\<lparr>once_done := True\<rparr>
                else c\<lparr>once_done := True, inner_closes := Suc (inner_closes c),
                       once_err := inner_result c\<rparr>)
      in (c', once_err c'))"

fun onceConn_Closes :: "nat \<Rightarrow> onceConn \<Rightarrow> onceConn \<times> goerror option list" where
  "onceConn_Closes 0 c = (c, [])"
| "onceConn_Closes (Suc n) c =
     (case onceConn_Close c of (c1, r) \<Rightarrow>
        (case onceConn_Closes n c1 of (c2, rs) \<Rightarrow> (c2, r # rs)))"

lemma onceConn_Closes_done:
  "once_done c \<Longrightarrow> onceConn_Closes n c = (c, replicate n (once_err c))"
  by (induction n) (simp_all add: onceConn_Close_def)

text \<open>Wrapping what is wrapped already changes nothing; wrapping nil gives nil.\<close>

datatype closer = PlainCloser "goerror option" | OnceCloser onceConn

definition OnceReadWriteCloser :: "closer option \<Rightarrow> closer option" where
  "OnceReadWriteCloser c =
     (case c of
        None \<Rightarrow> None
      | Some (OnceCloser o1) \<Rightarrow> Some (OnceCloser o1)
      | Some (PlainCloser res) \<Rightarrow> Some (OnceCloser (OnceNetConn res)))"

section \<open>Closing quietly (io.go)\<close>

text \<open>The text of an error is an argument.\<close>

definition isBenignCloseError :: "(goerror \<Rightarrow> string) \<Rightarrow> goerror option \<Rightarrow> bool" where
  "isBenignCloseError err_text err =
     (case err of
        None \<Rightarrow> True
      | Some e \<Rightarrow>
          errors_Is e NetErrClosed \<or> errors_Is e EOF \<or> errors_Is e ErrClosedPipe \<or> errors_Is e OsErrClosed \<or>
          strings_Contains (err_text e) ''use of closed network connection'' \<or>
          strings_Contains (err_text e) ''connection reset by peer'' \<or> strings_Contains (err_text e) ''broken pipe'')"

text \<open>\<open>Close\<close>: the closer afterwards, and the error it logged, if any.\<close>

definition closer_Close :: "closer \<Rightarrow> closer \<times> goerror option" where
  "closer_Close c =
     (case c of
        PlainCloser res \<Rightarrow> (PlainCloser (Some (Sentinel NetErrClosed)), res)
      | OnceCloser o1 \<Rightarrow> (case onceConn_Close o1 of (o2, r) \<Rightarrow> (OnceCloser o2, r)))"

definition utils_Close :: "(goerror \<Rightarrow> string) \<Rightarrow> closer option \<Rightarrow> closer option \<times> goerror option" where
  "utils_Close err_text c =
     (case c of
        None \<Rightarrow> (None, None)
      | Some k \<Rightarrow> (case closer_Close k of (k', err) \<Rightarrow> (Some k', if isBenignCloseError err_text err then None else err)))"

fun utils_Closes :: "(goerror \<Rightarrow> string) \<Rightarrow> nat \<Rightarrow> closer option \<Rightarrow> closer option \<times> goerror option list" where
  "utils_Closes err_text 0 c = (c, [])"
| "utils_Closes err_text (Suc n) c =
     (case utils_Close err_text c of (c1, l) \<Rightarrow> (case utils_Closes err_text n c1 of (c2, ls) \<Rightarrow> (c2, l # ls)))"

lemma utils_Closes_done:
  "once_done o1 \<Longrightarrow> utils_Closes err_text n (Some (OnceCloser o1)) =
     (Some (OnceCloser o1), replicate n (if isBenignCloseError err_text (once_err o1) then None else once_err o1))"
  by (induction n) (simp_all add: utils_Close_def closer_Close_def onceConn_Close_def)

text \<open>
  A connection owned twice: however many owners close a wrapped connection, the connection itself
  is closed once, every one of them sees the result of that, and a second close of the same
  connection is never what is logged.
\<close>

lemma shared_close_once:
  assumes "OnceReadWriteCloser (Some (PlainCloser res)) = c"
  shows "\<exists>o1. utils_Closes err_text (Suc n) c = (Some (OnceCloser o1), replicate (Suc n) (if isBenignCloseError err_text res then None else res)) \<and>
    inner_closes o1 = 1"
proof -
  let ?o1 = "(OnceNetConn res)\<lparr>once_done := True, inner_closes := 1, once_err := res\<rparr>"
  have "utils_Close err_text c = (Some (OnceCloser ?o1), if isBenignCloseError err_text res then None else res)"
    using assms by (auto simp: OnceReadWriteCloser_def utils_Close_def closer_Close_def onceConn_Close_def OnceNetConn_def)
  then show ?thesis using utils_Closes_done [of ?o1 err_text n] by (simp add: Let_def)
qed

end
