(* ===== verification/RouteTable.thy ===== *)
theory RouteTable
  imports Prelude
begin

text \<open>
  \<open>internal/router/table.go\<close>: the bounded route cache with second-chance (CLOCK)
  eviction. The list elements are heap objects shared by the map and the list, so the
  state has an explicit store of entries addressed by element number; \<open>lruList\<close> holds
  the element numbers from front to back and \<open>cache\<close> maps a key to its element.

  The locale \<open>route_cache\<close> is the contract the router relies on; it is interpreted on
  this table at the end of the theory.
\<close>

section \<open>State\<close>

record 'e cacheEntry =
  ce_key :: string
  ce_egress :: 'e
  ce_referenced :: bool

record 'e syncedRoutesTable =
  cache :: "string \<rightharpoonup> nat"
  lruList :: "nat list"
  entries :: "nat \<Rightarrow> 'e cacheEntry"
  nextElem :: nat
  maxSize :: int

definition maxCacheSize :: int where
  "maxCacheSize = 10000"

definition newSyncedRoutesTable :: "'e \<Rightarrow> int \<Rightarrow> 'e syncedRoutesTable" where
  "newSyncedRoutesTable e0 n =
     \<lparr>cache = Map.empty, lruList = [],
      entries = (\<lambda>_. \<lparr>ce_key = [], ce_egress = e0, ce_referenced = False\<rparr>), nextElem = 0,
      maxSize = (if n \<le> 0 then maxCacheSize else n)\<rparr>"

section \<open>Operations\<close>

definition MoveToFront :: "nat \<Rightarrow> nat list \<Rightarrow> nat list" where
  "MoveToFront x xs = x # remove1 x xs"

text \<open>
  The eviction loop of \<open>Set\<close>: look at the back element; a referenced one loses its bit and
  moves to the front, the first unreferenced one is removed.
\<close>

function evict_loop :: "'e syncedRoutesTable \<Rightarrow> 'e syncedRoutesTable" where
  "evict_loop t =
     (if lruList t = [] then t
      else let x = last (lruList t); entry = entries t x in
        if ce_referenced entry then
          evict_loop (t\<lparr>entries := (entries t)(x := entry\<lparr>ce_referenced := False\<rparr>),
                        lruList := MoveToFront x (lruList t)\<rparr>)
        else t\<lparr>cache := (cache t)(ce_key entry := None), lruList := butlast (lruList t)\<rparr>)"
  by pat_completeness auto

text \<open>Each pass clears one referenced bit, so the scan ends.\<close>

lemma clear_bit_decreases:
  assumes "x \<in> set xs" and "P x" and "\<not> Q x" and "\<And>i. Q i \<Longrightarrow> P i"
  shows "length (filter Q (MoveToFront x xs)) < length (filter P xs)"
proof -
  have "length (filter Q ys) \<le> length (filter P ys)" for ys
    using assms(4) by (induction ys) auto
  moreover have "length (filter P (remove1 x xs)) < length (filter P xs)"
    using assms(1,2) by (induction xs) auto
  ultimately show ?thesis using assms(3) by (auto simp: MoveToFront_def intro: le_less_trans)
qed

termination evict_loop
  by (relation "measure (\<lambda>t. length (filter (\<lambda>i. ce_referenced (entries t i)) (lruList t)))")
    (auto intro!: clear_bit_decreases)

declare evict_loop.simps [simp del]

definition table_Set :: "'e syncedRoutesTable \<Rightarrow> string \<Rightarrow> 'e \<Rightarrow> 'e syncedRoutesTable" where
  "table_Set t k egress =
     (case cache t k of
        Some elem \<Rightarrow>
          t\<lparr>lruList := MoveToFront elem (lruList t),
            entries := (entries t)(elem := (entries t elem)\<lparr>ce_egress := egress\<rparr>)\<rparr>
      | None \<Rightarrow>
          let t1 = (if int (length (lruList t)) \<ge> maxSize t then evict_loop t else t);
              elem = nextElem t1
          in t1\<lparr>entries := (entries t1)(elem :=
                   \<lparr>ce_key = k, ce_egress = egress, ce_referenced = False\<rparr>),
                lruList := elem # lruList t1, cache := (cache t1)(k \<mapsto> elem),
                nextElem := Suc elem\<rparr>)"

definition table_Get :: "'e syncedRoutesTable \<Rightarrow> string \<Rightarrow> 'e option \<times> 'e syncedRoutesTable" where
  "table_Get t k =
     (case cache t k of
        None \<Rightarrow> (None, t)
      | Some elem \<Rightarrow>
          (Some (ce_egress (entries t elem)),
           t\<lparr>entries := (entries t)(elem := (entries t elem)\<lparr>ce_referenced := True\<rparr>)\<rparr>))"

definition table_Reset :: "'e syncedRoutesTable \<Rightarrow> 'e syncedRoutesTable" where
  "table_Reset t = t\<lparr>cache := Map.empty, lruList := []\<rparr>"

section \<open>Invariant and abstraction\<close>

text \<open>
  The list holds no element twice, the map and the list hold the same elements, each under
  its own key, and the list never exceeds the (positive) capacity.
\<close>

definition table_linked :: "'e syncedRoutesTable \<Rightarrow> bool" where
  "table_linked t \<longleftrightarrow>
     distinct (lruList t) \<and> (\<forall>i \<in> set (lruList t). i < nextElem t) \<and>
     (\<forall>k i. cache t k = Some i \<longleftrightarrow> i \<in> set (lruList t) \<and> ce_key (entries t i) = k)"

definition table_inv :: "'e syncedRoutesTable \<Rightarrow> bool" where
  "table_inv t \<longleftrightarrow> table_linked t \<and> 0 < maxSize t \<and> int (length (lruList t)) \<le> maxSize t"

definition table_lookup :: "'e syncedRoutesTable \<Rightarrow> string \<Rightarrow> 'e option" where
  "table_lookup t k = map_option (\<lambda>i. ce_egress (entries t i)) (cache t k)"

text \<open>
  The element the scan removes: the rearmost unreferenced one, or, when every element is
  referenced, the back of the list (the scan comes round to it with its bit cleared).
\<close>

definition victim :: "'e syncedRoutesTable \<Rightarrow> nat" where
  "victim t = (case find (\<lambda>i. \<not> ce_referenced (entries t i)) (rev (lruList t)) of
                 Some v \<Rightarrow> v | None \<Rightarrow> last (lruList t))"

definition same_content :: "'e syncedRoutesTable \<Rightarrow> 'e syncedRoutesTable \<Rightarrow> bool" where
  "same_content t t' \<longleftrightarrow>
     (\<forall>i. ce_key (entries t' i) = ce_key (entries t i) \<and>
          ce_egress (entries t' i) = ce_egress (entries t i)) \<and>
     nextElem t' = nextElem t \<and> maxSize t' = maxSize t"

definition evicted_from :: "'e syncedRoutesTable \<Rightarrow> nat \<Rightarrow> 'e syncedRoutesTable \<Rightarrow> bool" where
  "evicted_from t v t' \<longleftrightarrow>
     v \<in> set (lruList t) \<and> set (lruList t') = set (lruList t) - {v} \<and> distinct (lruList t') \<and>
     cache t' = (cache t)(ce_key (entries t v) := None) \<and> same_content t t'"

lemma set_MoveToFront [simp]: "x \<in> set xs \<Longrightarrow> set (MoveToFront x xs) = set xs"
  by (induction xs) (auto simp: MoveToFront_def)

lemma distinct_MoveToFront [simp]: "distinct xs \<Longrightarrow> distinct (MoveToFront x xs)"
  by (simp add: MoveToFront_def)

lemma length_MoveToFront [simp]: "x \<in> set xs \<Longrightarrow> length (MoveToFront x xs) = length xs"
  by (cases xs) (auto simp: MoveToFront_def length_remove1 dest: length_pos_if_in_set)

lemma MoveToFront_last:
  "xs \<noteq> [] \<Longrightarrow> distinct xs \<Longrightarrow> MoveToFront (last xs) xs = last xs # butlast xs"
  by (cases xs rule: rev_cases) (auto simp: MoveToFront_def remove1_append)

lemma find_append: "find P (xs @ ys) = (case find P xs of None \<Rightarrow> find P ys | Some x \<Rightarrow> Some x)"
  by (induction xs) auto

lemma find_cong_on: "(\<And>x. x \<in> set xs \<Longrightarrow> P x = Q x) \<Longrightarrow> find P xs = find Q xs"
  by (induction xs) auto

text \<open>Giving the back element its second chance does not change who will be evicted.\<close>

lemma victim_second_chance:
  assumes "lruList t \<noteq> []" and "distinct (lruList t)"
    and "ce_referenced (entries t (last (lruList t)))"
  shows "victim (t\<lparr>entries := (entries t)(last (lruList t) :=
             (entries t (last (lruList t)))\<lparr>ce_referenced := False\<rparr>),
           lruList := MoveToFront (last (lruList t)) (lruList t)\<rparr>) = victim t"
proof -
  obtain ys x where l: "lruList t = ys @ [x]" using assms(1) by (cases "lruList t" rule: rev_cases) auto
  then have x: "x \<notin> set ys" "ce_referenced (entries t x)" using assms by auto
  have "find (\<lambda>i. \<not> ce_referenced (((entries t)(x := (entries t x)\<lparr>ce_referenced := False\<rparr>)) i)) (rev ys)
      = find (\<lambda>i. \<not> ce_referenced (entries t i)) (rev ys)"
    using x(1) by (intro find_cong_on) auto
  with l x show ?thesis
    by (simp add: victim_def MoveToFront_def remove1_append find_append split: option.split)
qed

lemma evict_loop_evicts:
  "lruList t \<noteq> [] \<Longrightarrow> distinct (lruList t) \<Longrightarrow> evicted_from t (victim t) (evict_loop t)"
proof (induction t rule: evict_loop.induct)
  case (1 t)
  let ?x = "last (lruList t)"
  let ?t1 = "t\<lparr>entries := (entries t)(?x := (entries t ?x)\<lparr>ce_referenced := False\<rparr>),
               lruList := MoveToFront ?x (lruList t)\<rparr>"
  show ?case
  proof (cases "ce_referenced (entries t ?x)")
    case True
    with 1 have "evicted_from ?t1 (victim ?t1) (evict_loop ?t1)"
      by (auto simp: MoveToFront_def)
    moreover have "victim ?t1 = victim t"
      using 1 True by (intro victim_second_chance) auto
    moreover have "evict_loop t = evict_loop ?t1"
      using 1 True by (simp add: evict_loop.simps [of t] Let_def)
    ultimately show ?thesis
      using 1 by (auto simp: evicted_from_def same_content_def split: if_splits)
  next
    case False
    obtain ys x where l: "lruList t = ys @ [x]"
      using 1 by (cases "lruList t" rule: rev_cases) auto
    have "victim t = ?x"
      using False l by (simp add: victim_def)
    moreover have "evict_loop t =
        t\<lparr>cache := (cache t)(ce_key (entries t ?x) := None), lruList := butlast (lruList t)\<rparr>"
      using 1 False by (simp add: evict_loop.simps [of t] Let_def)
    moreover have "set (butlast (lruList t)) = set (lruList t) - {?x}"
      using 1 l by auto
    ultimately show ?thesis
      using 1 by (simp add: evicted_from_def same_content_def distinct_butlast)
  qed
qed

lemma linked_iff:
  "table_linked t \<Longrightarrow> cache t k = Some i \<longleftrightarrow> i \<in> set (lruList t) \<and> ce_key (entries t i) = k"
  by (simp add: table_linked_def)

lemma linked_inj:
  "table_linked t \<Longrightarrow> cache t k = Some i \<Longrightarrow> cache t k' = Some i \<Longrightarrow> k' = k"
  by (simp add: linked_iff)

lemma linked_absent:
  "table_linked t \<Longrightarrow> cache t k = None \<Longrightarrow> i \<in> set (lruList t) \<Longrightarrow> ce_key (entries t i) \<noteq> k"
  using linked_iff [of t k i] by auto

lemma evicted_from_length:
  assumes "distinct (lruList t)" and "evicted_from t v t'"
  shows "length (lruList t) = Suc (length (lruList t'))"
proof -
  have "card (set (lruList t)) = Suc (card (set (lruList t')))"
    using assms(2) card_Suc_Diff1 [of "set (lruList t)" v] by (simp add: evicted_from_def)
  then show ?thesis
    using assms distinct_card by (metis evicted_from_def)
qed

lemma evicted_from_linked:
  assumes "table_linked t" and "evicted_from t v t'"
  shows "table_linked t'"
proof -
  have v: "cache t (ce_key (entries t v)) = Some v" and
    l: "\<And>k i. cache t k = Some i \<longleftrightarrow> i \<in> set (lruList t) \<and> ce_key (entries t i) = k"
    using assms by (auto simp: table_linked_def evicted_from_def)
  have "cache t' k = Some i \<longleftrightarrow> i \<in> set (lruList t') \<and> ce_key (entries t' i) = k" for k i
    using assms(2) v l [of k i] by (auto simp: evicted_from_def same_content_def)
  with assms show ?thesis by (auto simp: table_linked_def evicted_from_def same_content_def)
qed

text \<open>What \<open>Set\<close> does before it inserts a new key.\<close>

definition make_room :: "'e syncedRoutesTable \<Rightarrow> 'e syncedRoutesTable" where
  "make_room t = (if int (length (lruList t)) \<ge> maxSize t then evict_loop t else t)"

lemma make_room_props:
  assumes "table_inv t"
  shows "table_linked (make_room t)" and "int (length (lruList (make_room t))) < maxSize t"
    and "maxSize (make_room t) = maxSize t" and "nextElem (make_room t) = nextElem t"
    and "table_lookup (make_room t) k \<in> {None, table_lookup t k}"
    and "int (length (lruList t)) < maxSize t \<Longrightarrow> make_room t = t"
proof -
  have full: "evicted_from t (victim t) (evict_loop t)" if "int (length (lruList t)) \<ge> maxSize t"
    using that assms by (intro evict_loop_evicts) (auto simp: table_inv_def table_linked_def)
  have lk: "table_lookup t' k \<in> {None, table_lookup t k}" if "evicted_from t v t'" for v t'
    using that by (auto simp: evicted_from_def same_content_def table_lookup_def)
  show "table_linked (make_room t)"
    using full evicted_from_linked assms by (auto simp: make_room_def table_inv_def)
  show "int (length (lruList (make_room t))) < maxSize t"
    using full evicted_from_length assms
    by (fastforce simp: make_room_def table_inv_def table_linked_def)
  show "maxSize (make_room t) = maxSize t" "nextElem (make_room t) = nextElem t"
    using full by (auto simp: make_room_def evicted_from_def same_content_def)
  show "table_lookup (make_room t) k \<in> {None, table_lookup t k}"
    using full lk by (auto simp: make_room_def)
qed (simp add: make_room_def)

lemma table_Set_new:
  "cache t k = None \<Longrightarrow> table_Set t k e =
     (let t1 = make_room t; elem = nextElem t1 in
      t1\<lparr>entries := (entries t1)(elem := \<lparr>ce_key = k, ce_egress = e, ce_referenced = False\<rparr>),
         lruList := elem # lruList t1, cache := (cache t1)(k \<mapsto> elem), nextElem := Suc elem\<rparr>)"
  by (simp add: table_Set_def make_room_def Let_def)

lemma insert_new_linked:
  assumes "table_linked t" and "cache t k = None"
  shows "table_linked (t\<lparr>entries := (entries t)(nextElem t := \<lparr>ce_key = k, ce_egress = e, ce_referenced = False\<rparr>),
         lruList := nextElem t # lruList t, cache := (cache t)(k \<mapsto> nextElem t), nextElem := Suc (nextElem t)\<rparr>)"
    (is "table_linked ?t'")
proof -
  have fresh: "nextElem t \<notin> set (lruList t)"
    using assms(1) by (auto simp: table_linked_def)
  have "cache ?t' k' = Some i \<longleftrightarrow> i \<in> set (lruList ?t') \<and> ce_key (entries ?t' i) = k'" for k' i
  proof (cases "i = nextElem t")
    case True
    with assms(1) fresh show ?thesis by (auto simp: table_linked_def)
  next
    case False
    with assms linked_absent [OF assms, of i] show ?thesis by (auto simp: linked_iff)
  qed
  then show ?thesis
    using assms(1) fresh unfolding table_linked_def by (simp add: less_Suc_eq)
qed

lemma make_room_absent:
  "table_inv t \<Longrightarrow> cache t k = None \<Longrightarrow> cache (make_room t) k = None"
  using make_room_props(5) [of t k] by (auto simp: table_lookup_def)

lemma table_Set_inv [inv_intros]:
  assumes "table_inv t" shows "table_inv (table_Set t k e)"
proof (cases "cache t k")
  case None
  let ?t1 = "make_room t"
  have "table_linked (table_Set t k e)"
    using insert_new_linked [OF make_room_props(1) [OF assms] make_room_absent [OF assms None]]
    by (simp add: table_Set_new [OF None] Let_def)
  then show ?thesis
    using assms None make_room_props(2,3) [OF assms]
    by (simp add: table_inv_def table_Set_new Let_def)
next
  case (Some i)
  with assms have i: "i \<in> set (lruList t)" by (simp add: table_inv_def table_linked_def)
  have "table_Set t k e = t\<lparr>lruList := MoveToFront i (lruList t),
      entries := (entries t)(i := (entries t i)\<lparr>ce_egress := e\<rparr>)\<rparr>"
    by (simp add: table_Set_def Some)
  with assms i show ?thesis
    by (simp add: table_inv_def table_linked_def)
qed

lemma table_Get_inv [inv_intros]: "table_inv t \<Longrightarrow> table_inv (snd (table_Get t k))"
  by (auto simp: table_inv_def table_linked_def table_Get_def split: option.splits)

lemma table_Reset_inv [inv_intros]: "table_inv t \<Longrightarrow> table_inv (table_Reset t)"
  by (simp add: table_inv_def table_linked_def table_Reset_def)

lemma newSyncedRoutesTable_inv [inv_intros]: "table_inv (newSyncedRoutesTable e0 n)"
  by (simp add: table_inv_def table_linked_def newSyncedRoutesTable_def maxCacheSize_def)

lemma table_Set_lookup:
  assumes "table_inv t"
  shows "table_lookup (table_Set t k e) k = Some e"
    and "k' \<noteq> k \<Longrightarrow> table_lookup (table_Set t k e) k' \<in> {None, table_lookup t k'}"
    and "k' \<noteq> k \<Longrightarrow> table_lookup t k \<noteq> None \<or> int (length (lruList t)) < maxSize t \<Longrightarrow>
         table_lookup (table_Set t k e) k' = table_lookup t k'"
proof -
  show "table_lookup (table_Set t k e) k = Some e"
    by (auto simp: table_lookup_def table_Set_def Let_def split: option.splits)
  have new: "table_lookup (table_Set t k e) k' = table_lookup (make_room t) k'"
    if "cache t k = None" "k' \<noteq> k" for k'
  proof -
    have "cache (make_room t) k' \<noteq> Some (nextElem (make_room t))"
      using make_room_props(1,4) [OF assms] by (auto simp: table_linked_def)
    with that show ?thesis
      by (cases "cache (make_room t) k'") (simp_all add: table_lookup_def table_Set_new Let_def)
  qed
  have old: "table_lookup (table_Set t k e) k' = table_lookup t k'"
    if "cache t k = Some i" "k' \<noteq> k" for i k'
    using that assms linked_inj [of t k i k']
    by (cases "cache t k'") (auto simp: table_lookup_def table_Set_def table_inv_def)
  show "table_lookup (table_Set t k e) k' \<in> {None, table_lookup t k'}" if "k' \<noteq> k"
    using that new old make_room_props(5) [OF assms, of k'] by (cases "cache t k") auto
  show "table_lookup (table_Set t k e) k' = table_lookup t k'"
    if "k' \<noteq> k" "table_lookup t k \<noteq> None \<or> int (length (lruList t)) < maxSize t"
    using that new old make_room_props(6) [OF assms]
    by (cases "cache t k") (auto simp: table_lookup_def)
qed

lemma table_Get_lookup:
  "fst (table_Get t k) = table_lookup t k" "table_lookup (snd (table_Get t k)) = table_lookup t"
  by (auto simp: table_lookup_def table_Get_def fun_eq_iff split: option.splits intro!: option.map_cong)

section \<open>The contract the router relies on\<close>

text \<open>
  A memoised lookup: ask the cache, on a miss compute and store. This is the shape of
  \<open>GetRoute\<close>; \<open>f\<close> computes the answer for a key, \<open>None\<close> when there is none.
\<close>

definition memo_lookup ::
  "('t \<Rightarrow> string \<Rightarrow> 'e option \<times> 't) \<Rightarrow> ('t \<Rightarrow> string \<Rightarrow> 'e \<Rightarrow> 't) \<Rightarrow>
   (string \<Rightarrow> 'e option) \<Rightarrow> 't \<Rightarrow> string \<Rightarrow> 'e option \<times> 't" where
  "memo_lookup get st f t k =
     (case get t k of
        (Some e, t1) \<Rightarrow> (Some e, t1)
      | (None, t1) \<Rightarrow> (case f k of None \<Rightarrow> (None, t1) | Some e \<Rightarrow> (Some e, st t1 k e)))"

locale route_cache =
  fixes get :: "'t \<Rightarrow> string \<Rightarrow> 'e option \<times> 't"
    and st :: "'t \<Rightarrow> string \<Rightarrow> 'e \<Rightarrow> 't"
    and reset :: "'t \<Rightarrow> 't"
    and lookup :: "'t \<Rightarrow> string \<Rightarrow> 'e option"
    and invar :: "'t \<Rightarrow> bool"
  assumes get_value: "invar t \<Longrightarrow> fst (get t k) = lookup t k"
    and get_lookup: "invar t \<Longrightarrow> lookup (snd (get t k)) = lookup t"
    and get_invar: "invar t \<Longrightarrow> invar (snd (get t k))"
    and st_same: "invar t \<Longrightarrow> lookup (st t k e) k = Some e"
    and st_other: "invar t \<Longrightarrow> k' \<noteq> k \<Longrightarrow> lookup (st t k e) k' \<in> {None, lookup t k'}"
    and st_invar: "invar t \<Longrightarrow> invar (st t k e)"
    and reset_lookup: "invar t \<Longrightarrow> lookup (reset t) k = None"
    and reset_invar: "invar t \<Longrightarrow> invar (reset t)"
begin

text \<open>Storing a correct answer keeps every cached answer correct, whatever is evicted.\<close>

lemma st_sound:
  assumes "invar t" and "\<And>k e. lookup t k = Some e \<Longrightarrow> f k = Some e" and "f k = Some e"
    and "lookup (st t k e) k' = Some e'"
  shows "f k' = Some e'"
proof (cases "k' = k")
  case True
  with assms st_same [OF assms(1), of k e] show ?thesis by simp
next
  case False
  with assms(4) st_other [OF assms(1), of k' k e] have "lookup t k' = Some e'" by auto
  then show ?thesis by (rule assms(2))
qed

text \<open>A memoised lookup over a sound cache returns what the uncached computation returns.\<close>

lemma memo_transparent:
  assumes inv: "invar t" and sound: "\<And>k e. lookup t k = Some e \<Longrightarrow> f k = Some e"
  shows "fst (memo_lookup get st f t k) = f k"
    and "invar (snd (memo_lookup get st f t k))"
    and "lookup (snd (memo_lookup get st f t k)) k' = Some e' \<Longrightarrow> f k' = Some e'"
proof -
  obtain r t1 where g: "get t k = (r, t1)" by (cases "get t k")
  have r: "r = lookup t k" and t1: "invar t1" "lookup t1 = lookup t"
    using get_value [OF inv, of k] get_lookup [OF inv, of k] get_invar [OF inv, of k] g by auto
  show "fst (memo_lookup get st f t k) = f k"
    using g r sound by (auto simp: memo_lookup_def split: option.split)
  show "invar (snd (memo_lookup get st f t k))"
    using g t1 by (auto simp: memo_lookup_def st_invar split: option.split)
  show "f k' = Some e'" if "lookup (snd (memo_lookup get st f t k)) k' = Some e'"
    using that g t1 sound st_sound [of t1 f k _ k' e']
    by (auto simp: memo_lookup_def split: option.splits)
qed

end

interpretation clock: route_cache table_Get table_Set table_Reset table_lookup table_inv
  by unfold_locales
    (simp_all add: table_Get_lookup table_Get_inv table_Set_inv table_Reset_inv
      table_Set_lookup(1) table_Set_lookup(2) [simplified],
     simp add: table_lookup_def table_Reset_def)

section \<open>Properties\<close>

datatype 'e table_op = TSet string 'e | TGet string | TReset

fun table_step :: "'e table_op \<Rightarrow> 'e syncedRoutesTable \<Rightarrow> 'e syncedRoutesTable" where
  "table_step (TSet k e) t = table_Set t k e"
| "table_step (TGet k) t = snd (table_Get t k)"
| "table_step TReset t = table_Reset t"

definition table_run :: "'e \<Rightarrow> int \<Rightarrow> 'e table_op list \<Rightarrow> 'e syncedRoutesTable" where
  "table_run e0 n ops = fold table_step ops (newSyncedRoutesTable e0 n)"

lemma table_step_inv: "table_inv t \<Longrightarrow> table_inv (table_step op t)"
  by (cases op) (simp_all add: inv_intros)

lemma table_run_inv: "table_inv (table_run e0 n ops)"
proof -
  have "table_inv t \<Longrightarrow> table_inv (fold table_step ops t)" for t :: "'a syncedRoutesTable"
    by (induction ops arbitrary: t) (simp_all add: table_step_inv)
  then show ?thesis unfolding table_run_def by (simp add: newSyncedRoutesTable_inv)
qed

lemma table_step_maxSize: "table_inv t \<Longrightarrow> maxSize (table_step op t) = maxSize t"
  using make_room_props(3) [of t]
  by (cases op) (auto simp: table_Set_def table_Get_def table_Reset_def make_room_def Let_def
      split: option.splits if_splits)

lemma table_run_maxSize: "maxSize (table_run e0 n ops) = (if n \<le> 0 then maxCacheSize else n)"
proof -
  have "table_inv t \<Longrightarrow> maxSize (fold table_step ops t) = maxSize t" for t :: "'a syncedRoutesTable"
    by (induction ops arbitrary: t) (simp_all add: table_step_inv table_step_maxSize)
  then show ?thesis
    using newSyncedRoutesTable_inv [of e0 n]
    unfolding table_run_def by (simp add: newSyncedRoutesTable_def)
qed

text \<open>
  C5: The route cache stays bounded and consistent. After any sequence of \<open>Set\<close>, \<open>Get\<close> and
  \<open>Reset\<close> on a new table, the list holds at most the configured number of elements (the
  default when the configured size is not positive), no element twice, and the key map and the
  list hold exactly the same elements, each filed under its own key.
\<close>

theorem table_bounded_consistent:
  "int (length (lruList (table_run e0 n ops))) \<le> (if n \<le> 0 then maxCacheSize else n) \<and>
   distinct (lruList (table_run e0 n ops)) \<and>
   (\<forall>k i. cache (table_run e0 n ops) k = Some i \<longleftrightarrow>
      i \<in> set (lruList (table_run e0 n ops)) \<and> ce_key (entries (table_run e0 n ops) i) = k)"
  using table_run_inv [of e0 n ops] table_run_maxSize [of e0 n ops]
  by (simp add: table_inv_def table_linked_def)

text \<open>
  Second-chance eviction. Storing a new key in a full table loses exactly one key: that of
  the rearmost entry not looked up since it was last considered, or of the back entry when all
  were looked up. Every other key keeps its value.
\<close>

theorem table_Set_evicts_victim:
  assumes "table_inv t" and "cache t k = None" and "int (length (lruList t)) = maxSize t"
  shows "table_lookup (table_Set t k e) =
           (table_lookup t)(ce_key (entries t (victim t)) := None, k := Some e)"
proof -
  have ev: "evicted_from t (victim t) (make_room t)"
    using assms by (auto simp: make_room_def table_inv_def table_linked_def intro!: evict_loop_evicts)
  have lk: "table_lookup (make_room t) = (table_lookup t)(ce_key (entries t (victim t)) := None)"
    using ev by (auto simp: evicted_from_def same_content_def table_lookup_def fun_eq_iff)
  have fresh: "cache (make_room t) k' \<noteq> Some (nextElem (make_room t))" for k'
    using make_room_props(1,4) [OF assms(1)] by (auto simp: table_linked_def)
  have "table_lookup (table_Set t k e) k' = (if k' = k then Some e else table_lookup (make_room t) k')" for k'
    using fresh [of k'] assms(2)
    by (cases "cache (make_room t) k'") (simp_all add: table_lookup_def table_Set_new Let_def)
  then show ?thesis unfolding lk by (auto simp: fun_eq_iff)
qed

theorem table_Set_evicts_victim_witness:
  "table_lookup (table_Set (table_run (0::nat) 2 [TSet ''a'' 1, TSet ''b'' 2, TGet ''a'']) ''c'' 3)
     = (table_lookup (table_run 0 2 [TSet ''a'' 1, TSet ''b'' 2, TGet ''a'']))(''b'' := None, ''c'' := Some 3)"
proof -
  let ?t = "table_run (0::nat) 2 [TSet ''a'' 1, TSet ''b'' 2, TGet ''a'']"
  have absent: "cache ?t ''c'' = None" by code_simp
  have full: "int (length (lruList ?t)) = maxSize ?t" by code_simp
  have v: "ce_key (entries ?t (victim ?t)) = ''b''" by code_simp
  show ?thesis
    using table_Set_evicts_victim [OF table_run_inv absent full, of 3] by (simp only: v)
qed

end
