(* ===== verification/Router.thy ===== *)
theory Router
  imports HostUtils RouteTable
begin

text \<open>
  \<open>internal/router\<close>: route rules (\<open>route.go\<close>, \<open>type.go\<close>), rule lists
  (\<open>routes.go\<close>), egress selection (\<open>egress.go\<close>) and the process-wide routing state
  with its route cache (\<open>cache.go\<close>). The outside world a rule list depends on (the file
  named by a rule's \<open>path\<close>, the \<open>regexp\<close> engine, Unicode tables) is the \<open>route_env\<close>
  argument; \<open>rpcClient.New\<close> enters as the result it returns.
\<close>

section \<open>Rules (type.go, egress.go, route.go)\<close>

datatype rtype = TypeExact | TypeDomain | TypeCIDR | TypeRegex | TypeDefault | TypeOther string

datatype egress =
    EgressUnknown | EgressDirect | EgressProxy | EgressForward | EgressBlock | EgressBlackHole
  | EgressOther string

datatype 'c transport = Direct | RpcClient 'c | Forward | BlackHole

definition SupportsUDP :: "egress \<Rightarrow> bool" where
  "SupportsUDP e = (case e of EgressDirect \<Rightarrow> True | EgressProxy \<Rightarrow> True | _ \<Rightarrow> False)"

definition GetTransport :: "'c result \<Rightarrow> egress \<Rightarrow> 'c transport result" where
  "GetTransport newClient e =
     (case e of
        EgressUnknown \<Rightarrow> Inl (Errorf ''unknown transport'')
      | EgressDirect \<Rightarrow> Inr Direct
      | EgressProxy \<Rightarrow> (case newClient of Inl err \<Rightarrow> Inl err | Inr c \<Rightarrow> Inr (RpcClient c))
      | EgressForward \<Rightarrow> Inr Forward
      | EgressBlackHole \<Rightarrow> Inr BlackHole
      | EgressBlock \<Rightarrow> Inl (Sentinel ErrBlocked)
      | EgressOther s \<Rightarrow> Inl (Errorf ''desired transport not implemented''))"

text \<open>The transports that implement \<open>transport.PacketDialer\<close>.\<close>

fun is_PacketDialer :: "'c transport \<Rightarrow> bool" where
  "is_PacketDialer Direct = True"
| "is_PacketDialer (RpcClient c) = True"
| "is_PacketDialer Forward = False"
| "is_PacketDialer BlackHole = False"

record MatchCache =
  ExactMap :: "string set option"
  DomainMap :: "string set option"
  RegexpList :: "string list"
  CIDRList :: "netip_Prefix list"

definition emptyMatchCache :: MatchCache where
  "emptyMatchCache = \<lparr>ExactMap = None, DomainMap = None, RegexpList = [], CIDRList = []\<rparr>"

record Route =
  Sources :: "string list"
  Ext :: string
  Destination :: egress
  MatchType :: rtype
  match_cache :: MatchCache

definition RouteServerDefault :: Route where
  "RouteServerDefault = \<lparr>Sources = [], Ext = [], Destination = EgressDirect,
     MatchType = TypeDefault, match_cache = emptyMatchCache\<rparr>"

definition RouteClientDefault :: Route where
  "RouteClientDefault = \<lparr>Sources = [], Ext = [], Destination = EgressProxy,
     MatchType = TypeDefault, match_cache = emptyMatchCache\<rparr>"

definition RouteBlockIPv6 :: Route where
  "RouteBlockIPv6 = \<lparr>Sources = [''::/0''], Ext = [], Destination = EgressBlock,
     MatchType = TypeCIDR, match_cache = emptyMatchCache\<rparr>"

definition CloneRoute :: "Route option \<Rightarrow> Route option" where
  "CloneRoute r = map_option (\<lambda>r. r\<lparr>match_cache := emptyMatchCache\<rparr>) r"

text \<open>
  The environment of rule generation and matching: the lines of a file (or the error of
  opening or scanning it), whether a pattern compiles, and whether a compiled pattern
  matches. A compiled pattern is identified with its source text.
\<close>

record route_env =
  file_lines :: "string \<Rightarrow> string list result"
  rx_valid :: "string \<Rightarrow> bool"
  rx_match :: "string \<Rightarrow> string \<Rightarrow> bool"
  env_uni :: unicode

text \<open>A loop that skips some items, keeps others and stops at the first error.\<close>

fun collect :: "('a \<Rightarrow> 'b option result) \<Rightarrow> 'a list \<Rightarrow> 'b list result" where
  "collect f [] = Inr []"
| "collect f (x # xs) =
     (case f x of
        Inl e \<Rightarrow> Inl e
      | Inr None \<Rightarrow> collect f xs
      | Inr (Some y) \<Rightarrow> (case collect f xs of Inl e \<Rightarrow> Inl e | Inr ys \<Rightarrow> Inr (y # ys)))"

definition ext_line :: "unicode \<Rightarrow> string \<Rightarrow> string option result" where
  "ext_line u text =
     (let line = strings_TrimSpace u text in
      if line = [] \<or> strings_HasPrefix line ''#'' then Inr None else Inr (Some line))"

definition route_sources :: "route_env \<Rightarrow> Route \<Rightarrow> string list result" where
  "route_sources env r =
     (if Ext r = [] then Inr (Sources r)
      else case file_lines env (Ext r) of
          Inl e \<Rightarrow> Inl (Wrap ''read from path failed'' e)
        | Inr ls \<Rightarrow> (case collect (ext_line (env_uni env)) ls of
                       Inl e \<Rightarrow> Inl e | Inr fs \<Rightarrow> Inr (Sources r @ fs)))"

definition host_set :: "unicode \<Rightarrow> string list \<Rightarrow> string set" where
  "host_set u srcs = set (filter (\<lambda>h. h \<noteq> []) (map (NormalizeHost u) srcs))"

definition parse_cidr :: "unicode \<Rightarrow> string \<Rightarrow> netip_Prefix option result" where
  "parse_cidr u src =
     (let cidr = strings_TrimSpace u src in
      if cidr = [] then Inr None
      else case netip_ParsePrefix cidr of
          None \<Rightarrow> Inl (Errorf ''cidr parse failed'') | Some p \<Rightarrow> Inr (Some p))"

definition compile_regex :: "route_env \<Rightarrow> string \<Rightarrow> string option result" where
  "compile_regex env rx =
     (if strings_TrimSpace (env_uni env) rx = [] then Inr None
      else if rx_valid env rx then Inr (Some rx) else Inl (Errorf ''regex parse failed''))"

definition Route_GenerateCache :: "route_env \<Rightarrow> Route \<Rightarrow> Route result" where
  "Route_GenerateCache env r =
     (case route_sources env r of
        Inl e \<Rightarrow> Inl e
      | Inr sources \<Rightarrow>
          (case MatchType r of
             TypeDefault \<Rightarrow> Inr (r\<lparr>match_cache := emptyMatchCache\<rparr>)
           | TypeExact \<Rightarrow>
               Inr (r\<lparr>match_cache := emptyMatchCache\<lparr>ExactMap := Some (host_set (env_uni env) sources)\<rparr>\<rparr>)
           | TypeDomain \<Rightarrow>
               Inr (r\<lparr>match_cache := emptyMatchCache\<lparr>DomainMap := Some (host_set (env_uni env) sources)\<rparr>\<rparr>)
           | TypeCIDR \<Rightarrow>
               (case collect (parse_cidr (env_uni env)) sources of
                  Inl e \<Rightarrow> Inl e
                | Inr ps \<Rightarrow> Inr (r\<lparr>match_cache := emptyMatchCache\<lparr>CIDRList := ps\<rparr>\<rparr>))
           | TypeRegex \<Rightarrow>
               (case collect (compile_regex env) sources of
                  Inl e \<Rightarrow> Inl e
                | Inr rs \<Rightarrow> Inr (r\<lparr>match_cache := emptyMatchCache\<lparr>RegexpList := rs\<rparr>\<rparr>))
           | TypeOther s \<Rightarrow> Inl (Errorf ''unknown route type, cannot generate cache'')))"

text \<open>The suffix loop of a domain rule: the name, then the name after each dot.\<close>

function domain_loop :: "string set \<Rightarrow> string \<Rightarrow> bool" where
  "domain_loop m candidate =
     (if candidate \<in> m then True
      else case IndexByte candidate (CHR ''.'') of
          None \<Rightarrow> False
        | Some dot \<Rightarrow> domain_loop m (drop (Suc dot) candidate))"
  by pat_completeness auto
termination
  by (relation "measure (\<lambda>(m, c). length c)") (auto dest: IndexByte_Some)

declare domain_loop.simps [simp del]

definition Route_Match :: "route_env \<Rightarrow> Route \<Rightarrow> string \<Rightarrow> bool" where
  "Route_Match env r dst =
     (case MatchType r of
        TypeDefault \<Rightarrow> True
      | TypeExact \<Rightarrow>
          (case ExactMap (match_cache r) of
             None \<Rightarrow> False | Some m \<Rightarrow> NormalizeHost (env_uni env) dst \<in> m)
      | TypeRegex \<Rightarrow> list_ex (\<lambda>rx. rx_match env rx dst) (RegexpList (match_cache r))
      | TypeDomain \<Rightarrow>
          (let host = NormalizeHost (env_uni env) dst in
           if host = [] then False
           else if netip_ParseAddr host \<noteq> None then False
           else case DomainMap (match_cache r) of None \<Rightarrow> False | Some m \<Rightarrow> domain_loop m host)
      | TypeCIDR \<Rightarrow>
          (case netip_ParseAddr dst of
             None \<Rightarrow> False
           | Some addr \<Rightarrow> list_ex (\<lambda>cidr. Prefix_Contains cidr addr) (CIDRList (match_cache r)))
      | TypeOther s \<Rightarrow> False)"

section \<open>Rule lists (routes.go)\<close>

text \<open>A nil pointer in the list is \<^const>\<open>None\<close>.\<close>

type_synonym Routes = "Route option list"

fun Routes_GenerateCache :: "route_env \<Rightarrow> Routes \<Rightarrow> Routes result" where
  "Routes_GenerateCache env [] = Inr []"
| "Routes_GenerateCache env (None # rs) = Inl (Errorf ''route is nil'')"
| "Routes_GenerateCache env (Some r # rs) =
     (case Route_GenerateCache env r of
        Inl e \<Rightarrow> Inl (Wrap ''route'' e)
      | Inr r' \<Rightarrow> (case Routes_GenerateCache env rs of
                     Inl e \<Rightarrow> Inl e | Inr rs' \<Rightarrow> Inr (Some r' # rs')))"

text \<open>The scan of \<open>Routes.GetRoute\<close>: the destination of the first rule that matches.\<close>

fun first_match :: "route_env \<Rightarrow> Routes \<Rightarrow> string \<Rightarrow> egress result" where
  "first_match env [] key = Inl (Errorf ''route not found'')"
| "first_match env (None # rs) key = Inl (Errorf ''route is nil'')"
| "first_match env (Some r # rs) key =
     (if Route_Match env r key then Inr (Destination r) else first_match env rs key)"

definition normalizeRouteKey :: "unicode \<Rightarrow> string \<Rightarrow> string" where
  "normalizeRouteKey u dst = (let key = NormalizeHost u dst in if key \<noteq> [] then key else dst)"

definition Routes_GetRoute ::
  "route_env \<Rightarrow> 'c result \<Rightarrow> Routes \<Rightarrow> string \<Rightarrow> egress syncedRoutesTable
    \<Rightarrow> 'c transport result \<times> egress syncedRoutesTable" where
  "Routes_GetRoute env newClient rs dst table =
     (let key = normalizeRouteKey (env_uni env) dst in
      case first_match env rs key of
        Inl e \<Rightarrow> (Inl e, table)
      | Inr dest \<Rightarrow> (GetTransport newClient dest, table_Set table key dest))"

section \<open>The routing state (cache.go)\<close>

record router_state =
  routesCache :: Routes
  routesVersion :: u64
  table :: "egress syncedRoutesTable"

definition init_router :: router_state where
  "init_router = \<lparr>routesCache = [], routesVersion = 0,
     table = newSyncedRoutesTable EgressUnknown maxCacheSize\<rparr>"

definition cloneRoutes :: "Routes \<Rightarrow> Routes" where
  "cloneRoutes rs = map CloneRoute rs"

definition prepareRoutes :: "route_env \<Rightarrow> Routes \<Rightarrow> Routes result" where
  "prepareRoutes env rs = Routes_GenerateCache env (cloneRoutes rs)"

text \<open>The critical section every update of the rules ends with.\<close>

definition install :: "router_state \<Rightarrow> Routes \<Rightarrow> router_state" where
  "install s rs = s\<lparr>routesCache := rs, routesVersion := routesVersion s + 1,
     table := table_Reset (table s)\<rparr>"

definition SetRoutes :: "route_env \<Rightarrow> Routes \<Rightarrow> router_state \<Rightarrow> goerror option \<times> router_state" where
  "SetRoutes env r s =
     (case prepareRoutes env r of Inl e \<Rightarrow> (Some e, s) | Inr prepared \<Rightarrow> (None, install s prepared))"

definition AddToFirstRoute :: "route_env \<Rightarrow> Route option \<Rightarrow> router_state \<Rightarrow> goerror option \<times> router_state" where
  "AddToFirstRoute env r s =
     (case prepareRoutes env [r] of
        Inl e \<Rightarrow> (Some e, s) | Inr prepared \<Rightarrow> (None, install s (prepared @ routesCache s)))"

definition AddToLastRoute :: "route_env \<Rightarrow> Route option \<Rightarrow> router_state \<Rightarrow> goerror option \<times> router_state" where
  "AddToLastRoute env r s =
     (case prepareRoutes env [r] of
        Inl e \<Rightarrow> (Some e, s) | Inr prepared \<Rightarrow> (None, install s (routesCache s @ prepared)))"

definition GetRoute ::
  "route_env \<Rightarrow> 'c result \<Rightarrow> string \<Rightarrow> router_state \<Rightarrow> 'c transport result \<times> router_state" where
  "GetRoute env newClient dst s =
     (let key = normalizeRouteKey (env_uni env) dst in
      case table_Get (table s) key of
        (Some route, t1) \<Rightarrow> (GetTransport newClient route, s\<lparr>table := t1\<rparr>)
      | (None, t1) \<Rightarrow>
          (case Routes_GetRoute env newClient (routesCache s) key t1 of
             (res, t2) \<Rightarrow> (res, s\<lparr>table := t2\<rparr>)))"

definition AnyRouteSupportsUDP :: "router_state \<Rightarrow> bool" where
  "AnyRouteSupportsUDP s =
     list_ex (\<lambda>route. case route of None \<Rightarrow> False | Some r \<Rightarrow> SupportsUDP (Destination r)) (routesCache s)"

text \<open>
  One pass of the loop of \<open>GenerateCache\<close> that nothing interferes with: snapshot, regeneration
  and commit.
\<close>

definition regenerate :: "route_env \<Rightarrow> router_state \<Rightarrow> goerror option \<times> router_state" where
  "regenerate env s =
     (case Routes_GenerateCache env (cloneRoutes (routesCache s)) of
        Inl e \<Rightarrow> (Some e, s) | Inr snapshot \<Rightarrow> (None, install s snapshot))"

text \<open>
  The operations of the routing API, as other goroutines may call them. A concurrent
  \<open>GenerateCache\<close> touches the state only at its commit, which \<open>OpGenerateCache\<close> stands for.
\<close>

datatype 'c router_op =
    OpSetRoutes Routes | OpAddFirst "Route option" | OpAddLast "Route option"
  | OpGetRoute string "'c result" | OpGenerateCache

fun router_step :: "route_env \<Rightarrow> 'c router_op \<Rightarrow> router_state \<Rightarrow> router_state" where
  "router_step env (OpSetRoutes rs) s = snd (SetRoutes env rs s)"
| "router_step env (OpAddFirst r) s = snd (AddToFirstRoute env r s)"
| "router_step env (OpAddLast r) s = snd (AddToLastRoute env r s)"
| "router_step env (OpGetRoute dst nc) s = snd (GetRoute env nc dst s)"
| "router_step env OpGenerateCache s = snd (regenerate env s)"

text \<open>
  \<open>GenerateCache\<close> takes a snapshot, regenerates it without the lock, and installs it only if
  the version is unchanged; otherwise it starts over. Between the snapshot and the commit of
  an attempt other goroutines run operations of the API: the list holds, for each attempt,
  the operations that run during it, and past its end nothing interferes any more.
\<close>

fun GenerateCache ::
  "route_env \<Rightarrow> 'c router_op list list \<Rightarrow> router_state \<Rightarrow> goerror option \<times> router_state" where
  "GenerateCache env [] s = regenerate env s"
| "GenerateCache env (during # rest) s =
     (let version = routesVersion s; s' = fold (router_step env) during s in
      case Routes_GenerateCache env (cloneRoutes (routesCache s)) of
        Inl e \<Rightarrow> (Some e, s')
      | Inr snapshot \<Rightarrow>
          if version \<noteq> routesVersion s' then GenerateCache env rest s'
          else (None, install s' snapshot))"

section \<open>Matching\<close>

lemma suffix_after_dot:
  assumes "c \<notin> set a"
  shows "(\<exists>p. a @ c # b = p @ c # r) \<longleftrightarrow> b = r \<or> (\<exists>p. b = p @ c # r)"
proof
  assume "\<exists>p. a @ c # b = p @ c # r"
  then obtain p where p: "a @ c # b = p @ c # r" by blast
  then obtain us where "a = p @ us \<and> us @ c # b = c # r \<or> a @ us = p \<and> c # b = us @ c # r"
    by (auto simp: append_eq_append_conv2)
  with assms show "b = r \<or> (\<exists>p. b = p @ c # r)" by (cases us) auto
next
  assume "b = r \<or> (\<exists>p. b = p @ c # r)"
  then show "\<exists>p. a @ c # b = p @ c # r"
    by (metis append_Cons append_assoc)
qed

text \<open>The suffix loop decides the suffix relation on label boundaries.\<close>

lemma domain_loop_iff:
  "domain_loop m h \<longleftrightarrow> (\<exists>r \<in> m. h = r \<or> (\<exists>p. h = p @ CHR ''.'' # r))"
proof (induction m h rule: domain_loop.induct)
  case (1 m h)
  show ?case
  proof (cases "IndexByte h (CHR ''.'')")
    case None
    then have "CHR ''.'' \<notin> set h" by simp
    with None show ?thesis
      by (auto simp: domain_loop.simps [of m h] simp del: IndexByte_None)
  next
    case (Some dot)
    let ?b = "drop (Suc dot) h"
    have h: "h = take dot h @ CHR ''.'' # ?b" and nd: "CHR ''.'' \<notin> set (take dot h)"
      using IndexByte_Some [OF Some] id_take_nth_drop [of dot h] by auto
    show ?thesis
    proof (cases "h \<in> m")
      case True
      then show ?thesis by (auto simp: domain_loop.simps [of m h])
    next
      case False
      then have "domain_loop m h = domain_loop m ?b"
        using Some by (simp add: domain_loop.simps [of m h])
      also have "\<dots> \<longleftrightarrow> (\<exists>r \<in> m. ?b = r \<or> (\<exists>p. ?b = p @ CHR ''.'' # r))"
        using "1.IH" False Some by simp
      also have "\<dots> \<longleftrightarrow> (\<exists>r \<in> m. \<exists>p. h = p @ CHR ''.'' # r)"
        using suffix_after_dot [OF nd] h by metis
      finally show ?thesis using False by blast
    qed
  qed
qed

lemma host_set_iff: "h \<in> host_set u srcs \<longleftrightarrow> h \<noteq> [] \<and> (\<exists>s \<in> set srcs. NormalizeHost u s = h)"
  by (auto simp: host_set_def)

lemma collect_append_ok:
  "collect f xs = Inr ys \<Longrightarrow> y \<in> set ys \<longleftrightarrow> (\<exists>x \<in> set xs. f x = Inr (Some y))"
  by (induction xs arbitrary: ys) (auto split: sum.splits option.splits)

lemma Route_GenerateCache_fields:
  assumes "Route_GenerateCache env r = Inr r'"
  shows "r' = r\<lparr>match_cache := match_cache r'\<rparr>"
  using assms by (auto simp: Route_GenerateCache_def split: sum.splits rtype.splits)

lemma Route_GenerateCache_cong:
  "Route_GenerateCache env (r\<lparr>match_cache := c\<rparr>) = Route_GenerateCache env r"
  by (simp add: Route_GenerateCache_def route_sources_def split: sum.split rtype.split)

lemma first_match_Inr:
  "first_match env rs key = Inr dest \<longleftrightarrow>
     (\<exists>before r after. rs = map Some before @ Some r # after \<and> Route_Match env r key \<and>
        Destination r = dest \<and> (\<forall>q \<in> set before. \<not> Route_Match env q key))"
proof (induction rs)
  case (Cons a rs)
  show ?case
  proof (cases a)
    case None
    then show ?thesis by (auto simp: Cons_eq_append_conv Cons_eq_map_conv)
  next
    case (Some r)
    show ?thesis
    proof (cases "Route_Match env r key")
      case True
      with Some show ?thesis
        by (force simp: Cons_eq_append_conv Cons_eq_map_conv)
    next
      case False
      show ?thesis
      proof
        assume "first_match env (a # rs) key = Inr dest"
        then have "first_match env rs key = Inr dest" using Some False by simp
        then obtain before q after where "rs = map Some before @ Some q # after"
          "Route_Match env q key" "Destination q = dest" "\<forall>q \<in> set before. \<not> Route_Match env q key"
          using Cons by blast
        with Some False show "\<exists>before q after. a # rs = map Some before @ Some q # after \<and>
            Route_Match env q key \<and> Destination q = dest \<and> (\<forall>q \<in> set before. \<not> Route_Match env q key)"
          by (intro exI [of _ "r # before"] exI [of _ q] exI [of _ after]) auto
      next
        assume "\<exists>before q after. a # rs = map Some before @ Some q # after \<and>
            Route_Match env q key \<and> Destination q = dest \<and> (\<forall>q \<in> set before. \<not> Route_Match env q key)"
        then obtain before q after where eq: "a # rs = map Some before @ Some q # after"
          and q: "Route_Match env q key" "Destination q = dest" "\<forall>q \<in> set before. \<not> Route_Match env q key"
          by blast
        from eq q(1) Some False obtain before' where "before = r # before'" by (cases before) auto
        with eq q have "first_match env rs key = Inr dest" using Cons by auto
        with Some False show "first_match env (a # rs) key = Inr dest" by simp
      qed
    qed
  qed
qed simp

lemma first_match_dest:
  "first_match env rs key = Inr dest \<Longrightarrow> \<exists>r. Some r \<in> set rs \<and> Destination r = dest"
  unfolding first_match_Inr by auto

section \<open>The routing invariant\<close>

text \<open>The cache table is well formed and every cached answer is what the rules give for its key.\<close>

definition router_inv :: "route_env \<Rightarrow> router_state \<Rightarrow> bool" where
  "router_inv env s \<longleftrightarrow> table_inv (table s) \<and>
     (\<forall>k e. table_lookup (table s) k = Some e \<longrightarrow> first_match env (routesCache s) k = Inr e)"

lemma install_inv [inv_intros]: "router_inv env s \<Longrightarrow> router_inv env (install s rs)"
  using clock.reset_lookup clock.reset_invar by (auto simp: router_inv_def install_def)

lemma init_router_inv [inv_intros]: "router_inv env init_router"
  using newSyncedRoutesTable_inv [of EgressUnknown maxCacheSize]
  by (simp add: router_inv_def init_router_def)
    (simp add: newSyncedRoutesTable_def table_lookup_def)

lemma SetRoutes_inv [inv_intros]: "router_inv env s \<Longrightarrow> router_inv env (snd (SetRoutes env r s))"
  by (auto simp: SetRoutes_def install_inv split: sum.split)

lemma AddToFirstRoute_inv [inv_intros]:
  "router_inv env s \<Longrightarrow> router_inv env (snd (AddToFirstRoute env r s))"
  by (auto simp: AddToFirstRoute_def install_inv split: sum.split)

lemma AddToLastRoute_inv [inv_intros]:
  "router_inv env s \<Longrightarrow> router_inv env (snd (AddToLastRoute env r s))"
  by (auto simp: AddToLastRoute_def install_inv split: sum.split)

text \<open>Rule lookup as an option, the form the cache contract speaks about.\<close>

abbreviation rule_for :: "route_env \<Rightarrow> router_state \<Rightarrow> string \<Rightarrow> egress option" where
  "rule_for env s k \<equiv> (case first_match env (routesCache s) k of Inl _ \<Rightarrow> None | Inr e \<Rightarrow> Some e)"

lemma GetRoute_inv [inv_intros]:
  assumes "router_inv env s"
  shows "router_inv env (snd (GetRoute env newClient dst s))"
proof -
  let ?key = "normalizeRouteKey (env_uni env) dst"
  let ?key2 = "normalizeRouteKey (env_uni env) ?key"
  obtain r t1 where g: "table_Get (table s) ?key = (r, t1)" by (cases "table_Get (table s) ?key")
  have t1: "table_inv t1" "table_lookup t1 = table_lookup (table s)"
    using assms clock.get_invar [of "table s" ?key] clock.get_lookup [of "table s" ?key] g
    by (auto simp: router_inv_def)
  have sound: "\<And>k e. table_lookup t1 k = Some e \<Longrightarrow> rule_for env s k = Some e"
    using assms t1(2) by (auto simp: router_inv_def)
  have conv: "rule_for env s k = Some e \<Longrightarrow> first_match env (routesCache s) k = Inr e" for k e
    by (auto split: sum.splits)
  have hit: "router_inv env (s\<lparr>table := t1\<rparr>)"
    using t1(1) sound conv by (simp add: router_inv_def)
  have miss: "router_inv env (s\<lparr>table := table_Set t1 ?key2 d\<rparr>)"
    if "first_match env (routesCache s) ?key2 = Inr d" for d
  proof -
    have "rule_for env s k' = Some e'" if "table_lookup (table_Set t1 ?key2 d) k' = Some e'" for k' e'
      using clock.st_sound [OF t1(1), where f = "rule_for env s" and k = ?key2 and e = d]
        sound that \<open>first_match env (routesCache s) ?key2 = Inr d\<close> by simp
    then show ?thesis using conv table_Set_inv [OF t1(1)] by (simp add: router_inv_def)
  qed
  show ?thesis
  proof (cases r)
    case None
    then show ?thesis
      using g hit miss
      by (cases "first_match env (routesCache s) ?key2")
        (simp_all add: GetRoute_def Routes_GetRoute_def Let_def)
  next
    case (Some e)
    then show ?thesis using g hit by (simp add: GetRoute_def Let_def)
  qed
qed

lemma GetRoute_frame [simp]:
  "routesCache (snd (GetRoute env newClient dst s)) = routesCache s"
  "routesVersion (snd (GetRoute env newClient dst s)) = routesVersion s"
  by (auto simp: GetRoute_def Let_def split: option.split prod.split)

text \<open>Every answer of \<open>GetRoute\<close>, cached or not, comes from an installed rule.\<close>

lemma GetRoute_from_rule:
  assumes "router_inv env s" and "fst (GetRoute env newClient dst s) = Inr t"
  shows "\<exists>r. Some r \<in> set (routesCache s) \<and> GetTransport newClient (Destination r) = Inr t"
proof -
  let ?key = "normalizeRouteKey (env_uni env) dst"
  have v: "fst (table_Get (table s) ?key) = table_lookup (table s) ?key"
    by (rule table_Get_lookup)
  have hit: "table_lookup (table s) ?key = Some e \<Longrightarrow> first_match env (routesCache s) ?key = Inr e" for e
    using assms(1) by (auto simp: router_inv_def)
  show ?thesis
    using assms(2) v hit first_match_dest [of env "routesCache s"]
    by (auto simp: GetRoute_def Routes_GetRoute_def Let_def split: prod.splits option.splits sum.splits)
qed

section \<open>Runs of the routing API\<close>

definition router_run :: "route_env \<Rightarrow> 'c router_op list \<Rightarrow> router_state" where
  "router_run env ops = fold (router_step env) ops init_router"

lemma regenerate_inv [inv_intros]: "router_inv env s \<Longrightarrow> router_inv env (snd (regenerate env s))"
  by (auto simp: regenerate_def install_inv split: sum.split)

lemma router_step_inv: "router_inv env s \<Longrightarrow> router_inv env (router_step env op s)"
  by (cases op) (simp_all add: inv_intros)

lemma fold_router_step_inv: "router_inv env s \<Longrightarrow> router_inv env (fold (router_step env) ops s)"
  by (induction ops arbitrary: s) (simp_all add: router_step_inv)

lemma router_run_inv: "router_inv env (router_run env ops)"
  unfolding router_run_def by (rule fold_router_step_inv [OF init_router_inv])

lemma normalizeRouteKey_stable:
  assumes "list_all is_ascii dst" and "list_all (\<lambda>c. \<not> ascii_space c) dst"
  shows "normalizeRouteKey u (normalizeRouteKey u dst) = normalizeRouteKey u dst"
proof -
  have sub: "set (trim_right_dots (trim_both ascii_space dst)) \<subseteq> set dst"
    using set_trim_both [of ascii_space dst] set_trim_right unfolding trim_right_dots_def by blast
  have "\<not> ascii_space (last (NormalizeHost u dst))" if "NormalizeHost u dst \<noteq> []"
  proof -
    have "last (NormalizeHost u dst) \<in> set (NormalizeHost u dst)" using that by simp
    then obtain c where "c \<in> set dst" "last (NormalizeHost u dst) = ascii_lower c"
      using NormalizeHost_ascii [OF assms(1), of u] sub by auto
    with assms(2) show ?thesis by (simp add: list_all_iff)
  qed
  then have "NormalizeHost u (NormalizeHost u dst) = NormalizeHost u dst"
    using NormalizeHost_stable [OF assms(1), of u] by blast
  then show ?thesis by (simp add: normalizeRouteKey_def Let_def)
qed

text \<open>With a stable key \<open>GetRoute\<close> is the memoised rule lookup of the cache contract.\<close>

lemma GetRoute_memo:
  assumes inv: "router_inv env s"
    and stable: "normalizeRouteKey (env_uni env) (normalizeRouteKey (env_uni env) dst)
                   = normalizeRouteKey (env_uni env) dst"
  shows "fst (GetRoute env newClient dst s) =
     (case first_match env (routesCache s) (normalizeRouteKey (env_uni env) dst) of
        Inl e \<Rightarrow> Inl e | Inr dest \<Rightarrow> GetTransport newClient dest)"
proof -
  let ?key = "normalizeRouteKey (env_uni env) dst"
  have t: "table_inv (table s)"
    and sound: "\<And>k e. table_lookup (table s) k = Some e \<Longrightarrow> rule_for env s k = Some e"
    using inv by (auto simp: router_inv_def)
  have m: "fst (memo_lookup table_Get table_Set (rule_for env s) (table s) ?key) = rule_for env s ?key"
    by (rule clock.memo_transparent(1) [OF t sound])
  obtain r t1 where g: "table_Get (table s) ?key = (r, t1)" by (cases "table_Get (table s) ?key")
  show ?thesis
    using m g stable
    by (cases r; cases "first_match env (routesCache s) ?key")
      (auto simp: memo_lookup_def GetRoute_def Routes_GetRoute_def Let_def)
qed

section \<open>Properties\<close>

text \<open>An environment without files, patterns or non-ASCII text, for concrete evaluations.\<close>

definition plain_unicode :: unicode where
  "plain_unicode = \<lparr>uni_TrimSpace = (\<lambda>s. s), uni_ToLower = (\<lambda>s. s), uni_EqualFold = (=)\<rparr>"

definition plain_env :: route_env where
  "plain_env = \<lparr>file_lines = (\<lambda>_. Inl (Errorf ''no such file'')), rx_valid = (\<lambda>_. False),
     rx_match = (\<lambda>_ _. False), env_uni = plain_unicode\<rparr>"

definition domain_route :: "string list \<Rightarrow> egress \<Rightarrow> Route" where
  "domain_route srcs e = \<lparr>Sources = srcs, Ext = [], Destination = e, MatchType = TypeDomain,
     match_cache = emptyMatchCache\<rparr>"

text \<open>
  C11: The route cache is transparent. After any sequence of rule updates and lookups, a lookup
  of an ASCII host name without blanks returns exactly what a scan of the currently installed
  rules returns: the transport of the first matching rule, or the scan's error. Cached
  answers, evictions and earlier lookups never show.
\<close>

theorem GetRoute_transparent:
  assumes "list_all is_ascii dst" and "list_all (\<lambda>c. \<not> ascii_space c) dst"
  shows "fst (GetRoute env newClient dst (router_run env ops)) =
     (case first_match env (routesCache (router_run env ops)) (normalizeRouteKey (env_uni env) dst) of
        Inl e \<Rightarrow> Inl e | Inr dest \<Rightarrow> GetTransport newClient dest)"
  by (rule GetRoute_memo [OF router_run_inv normalizeRouteKey_stable [OF assms]])

theorem GetRoute_transparent_witness:
  "fst (GetRoute plain_env (Inr ()) ''WWW.Example.com.''
      (router_run plain_env [OpSetRoutes [Some (domain_route [''example.com''] EgressDirect)],
         OpGetRoute ''www.example.com'' (Inr ())])) = Inr Direct"
proof -
  have a: "list_all is_ascii ''WWW.Example.com.''"
    and b: "list_all (\<lambda>c. \<not> ascii_space c) ''WWW.Example.com.''" by code_simp+
  show ?thesis
    unfolding GetRoute_transparent [OF a b] by code_simp
qed

text \<open>
  Domain rules. A rule generated from a list of names matches a host that is not an IP
  literal exactly when the normalised host is one of the normalised names or ends in a dot
  followed by one: a name covers itself and its subdomains, and nothing else.
\<close>

theorem domain_rule_matches:
  assumes "MatchType r = TypeDomain" and "Ext r = []" and "Route_GenerateCache env r = Inr r'"
    and "NormalizeHost (env_uni env) dst = host" and "host \<noteq> []" and "netip_ParseAddr host = None"
  shows "Route_Match env r' dst \<longleftrightarrow>
     (\<exists>src \<in> set (Sources r). \<exists>name. name = NormalizeHost (env_uni env) src \<and> name \<noteq> [] \<and>
        (host = name \<or> (\<exists>p. host = p @ CHR ''.'' # name)))"
proof -
  have r': "r' = r\<lparr>match_cache := emptyMatchCache\<lparr>DomainMap := Some (host_set (env_uni env) (Sources r))\<rparr>\<rparr>"
    using assms(1,2,3) by (simp add: Route_GenerateCache_def route_sources_def)
  have "Route_Match env r' dst \<longleftrightarrow> domain_loop (host_set (env_uni env) (Sources r)) host"
    using assms r' by (simp add: Route_Match_def)
  then show ?thesis unfolding domain_loop_iff Bex_def host_set_iff by blast
qed

theorem domain_rule_matches_witness:
  "\<exists>r'. Route_GenerateCache plain_env (domain_route [''Google.com.''] EgressDirect) = Inr r' \<and>
     Route_Match plain_env r' ''www.google.com'' \<and> \<not> Route_Match plain_env r' ''notgoogle.com''"
proof -
  let ?r = "domain_route [''Google.com.''] EgressDirect"
  let ?r' = "?r\<lparr>match_cache := emptyMatchCache\<lparr>DomainMap := Some (host_set plain_unicode [''Google.com.''])\<rparr>\<rparr>"
  have g: "Route_GenerateCache plain_env ?r = Inr ?r'"
    by (simp add: Route_GenerateCache_def route_sources_def domain_route_def plain_env_def)
  have t: "MatchType ?r = TypeDomain" "Ext ?r = []" "Sources ?r = [''Google.com.'']"
    by (simp_all add: domain_route_def)
  have n: "NormalizeHost (env_uni plain_env) ''www.google.com'' = ''www.google.com''"
    "NormalizeHost (env_uni plain_env) ''notgoogle.com'' = ''notgoogle.com''"
    "NormalizeHost (env_uni plain_env) ''Google.com.'' = ''google.com''" by code_simp+
  have ip: "netip_ParseAddr ''www.google.com'' = None" "netip_ParseAddr ''notgoogle.com'' = None"
    by code_simp+
  have "Route_Match plain_env ?r' ''www.google.com''"
    using domain_rule_matches [OF t(1,2) g n(1) _ ip(1)] t(3) n(3)
    by (auto intro!: exI [of _ "''www''"])
  moreover have "\<not> (\<exists>p. ''notgoogle.com'' = p @ CHR ''.'' # ''google.com'')"
    by (auto simp: Cons_eq_append_conv)
  then have "\<not> Route_Match plain_env ?r' ''notgoogle.com''"
    using domain_rule_matches [OF t(1,2) g n(2) _ ip(2)] t(3) n(3) by auto
  ultimately show ?thesis using g by blast
qed

text \<open>
  No UDP capability is missed. When no installed rule has a UDP-capable egress, no lookup,
  after any history, yields a transport that can dial packets; so refusing UDP ASSOCIATE up
  front never refuses an association that could have carried traffic.
\<close>

theorem no_udp_route_no_packet_dialer:
  assumes "\<not> AnyRouteSupportsUDP (router_run env ops)"
    and "fst (GetRoute env newClient dst (router_run env ops)) = Inr t"
  shows "\<not> is_PacketDialer t"
proof -
  obtain r where r: "Some r \<in> set (routesCache (router_run env ops))"
    and t: "GetTransport newClient (Destination r) = Inr t"
    using GetRoute_from_rule [OF router_run_inv assms(2)] by blast
  from r assms(1) have "\<not> SupportsUDP (Destination r)"
    by (force simp: AnyRouteSupportsUDP_def list_ex_iff)
  with t show ?thesis
    by (auto simp: SupportsUDP_def GetTransport_def split: egress.splits sum.splits)
qed

theorem no_udp_route_no_packet_dialer_witness:
  "\<not> is_PacketDialer (Forward :: unit transport)"
proof -
  let ?ops = "[OpSetRoutes [Some (domain_route [''example.com''] EgressForward)]] :: unit router_op list"
  have a: "\<not> AnyRouteSupportsUDP (router_run plain_env ?ops)" by code_simp
  have b: "fst (GetRoute plain_env (Inr ()) ''example.com'' (router_run plain_env ?ops)) = Inr Forward"
    by code_simp
  show ?thesis by (rule no_udp_route_no_packet_dialer [OF a b])
qed

text \<open>
  The version counts the updates: an operation that leaves it alone leaves the rules alone,
  and fewer than \<open>2 ^ 64\<close> operations cannot bring it back to an old value.
\<close>

lemma router_step_version:
  "(routesVersion (router_step env op s) = routesVersion s \<and>
    routesCache (router_step env op s) = routesCache s) \<or>
   routesVersion (router_step env op s) = routesVersion s + 1"
  by (cases op) (auto simp: SetRoutes_def AddToFirstRoute_def AddToLastRoute_def regenerate_def
      install_def split: sum.splits)

lemma router_steps_version:
  "\<exists>k \<le> length ops. routesVersion (fold (router_step env) ops s) = routesVersion s + of_nat k \<and>
     (k = 0 \<longrightarrow> routesCache (fold (router_step env) ops s) = routesCache s)"
proof (induction ops arbitrary: s)
  case Nil
  then show ?case by simp
next
  case (Cons op ops)
  let ?s = "router_step env op s"
  obtain k where k: "k \<le> length ops"
    "routesVersion (fold (router_step env) ops ?s) = routesVersion ?s + of_nat k"
    "k = 0 \<longrightarrow> routesCache (fold (router_step env) ops ?s) = routesCache ?s"
    using Cons.IH by blast
  show ?case
    using router_step_version [of env op s]
  proof (elim disjE conjE)
    assume "routesVersion ?s = routesVersion s" "routesCache ?s = routesCache s"
    with k show ?thesis by (intro exI [of _ k]) simp
  next
    assume "routesVersion ?s = routesVersion s + 1"
    with k show ?thesis by (intro exI [of _ "Suc k"]) (simp add: add.assoc)
  qed
qed

lemma same_version_same_rules:
  assumes "length ops < 2 ^ 64"
    and "routesVersion (fold (router_step env) ops s) = routesVersion s"
  shows "routesCache (fold (router_step env) ops s) = routesCache s"
proof -
  obtain k where k: "k \<le> length ops" "(of_nat k :: u64) = 0"
    "k = 0 \<longrightarrow> routesCache (fold (router_step env) ops s) = routesCache s"
    using router_steps_version [of ops env s] assms(2) by auto
  have "k < 2 ^ 64" using k(1) assms(1) by simp
  then have "k = 0" using k(2) by (simp add: word_of_nat_eq_0_iff)
    (metis dvd_imp_mod_0 mod_less)
  with k(3) show ?thesis by simp
qed

text \<open>
  C31: Regenerating the rules loses no concurrent update. During every attempt other goroutines
  may run any operations of the routing API (fewer than \<open>2 ^ 64\<close> of them, so that the version
  does not come round). Either \<open>GenerateCache\<close> succeeds, and then it installs the regeneration
  of the rules as they stand at the moment of commit, all the concurrent updates so far
  included, counts the version up and empties the lookup cache; or the rules at the start of
  some attempt do not compile, and then it returns that error and the state is what the
  others made of it.
\<close>

theorem GenerateCache_no_lost_update:
  assumes "list_all (\<lambda>during. length during < 2 ^ 64) bursts"
  shows "\<exists>n \<le> length bursts. \<exists>now. now = fold (router_step env) (concat (take n bursts)) s \<and>
     (case fst (GenerateCache env bursts s) of
        None \<Rightarrow> \<exists>rs. Routes_GenerateCache env (cloneRoutes (routesCache now)) = Inr rs \<and>
          snd (GenerateCache env bursts s) =
            now\<lparr>routesCache := rs, routesVersion := routesVersion now + 1,
                table := table_Reset (table now)\<rparr>
      | Some e \<Rightarrow> Routes_GenerateCache env (cloneRoutes (routesCache now)) = Inl e \<and>
          snd (GenerateCache env bursts s) =
            fold (router_step env) (concat (take (Suc n) bursts)) s)"
  using assms
proof (induction bursts arbitrary: s)
  case Nil
  then show ?case by (auto simp: regenerate_def install_def split: sum.split)
next
  case (Cons during rest)
  let ?s = "fold (router_step env) during s"
  show ?case
  proof (cases "Routes_GenerateCache env (cloneRoutes (routesCache s))")
    case (Inl e)
    then show ?thesis by (intro exI [of _ 0]) simp
  next
    case (Inr rs)
    show ?thesis
    proof (cases "routesVersion s = routesVersion ?s")
      case True
      then have "routesCache ?s = routesCache s"
        using same_version_same_rules [of during env s] Cons.prems by simp
      with True Inr show ?thesis by (intro exI [of _ 1]) (simp add: install_def Let_def)
    next
      case False
      then have step: "GenerateCache env (during # rest) s = GenerateCache env rest ?s"
        using Inr by (simp add: Let_def)
      obtain n where n: "n \<le> length rest" "\<exists>now. now = fold (router_step env) (concat (take n rest)) ?s \<and>
         (case fst (GenerateCache env rest ?s) of
            None \<Rightarrow> \<exists>rs. Routes_GenerateCache env (cloneRoutes (routesCache now)) = Inr rs \<and>
              snd (GenerateCache env rest ?s) =
                now\<lparr>routesCache := rs, routesVersion := routesVersion now + 1,
                    table := table_Reset (table now)\<rparr>
          | Some e \<Rightarrow> Routes_GenerateCache env (cloneRoutes (routesCache now)) = Inl e \<and>
              snd (GenerateCache env rest ?s) =
                fold (router_step env) (concat (take (Suc n) rest)) ?s)"
        using Cons.IH [of ?s] Cons.prems by auto
      show ?thesis
        unfolding step using n by (intro exI [of _ "Suc n"]) (auto split: option.splits)
    qed
  qed
qed

theorem GenerateCache_no_lost_update_witness:
  "\<exists>n \<le> 1. \<exists>now. now = fold (router_step plain_env)
       (concat (take n [[OpSetRoutes [Some RouteClientDefault] :: unit router_op]])) init_router \<and>
     (\<exists>rs. Routes_GenerateCache plain_env (cloneRoutes (routesCache now)) = Inr rs \<and>
        snd (GenerateCache plain_env [[OpSetRoutes [Some RouteClientDefault] :: unit router_op]] init_router) =
          now\<lparr>routesCache := rs, routesVersion := routesVersion now + 1,
              table := table_Reset (table now)\<rparr>)"
proof -
  let ?b = "[[OpSetRoutes [Some RouteClientDefault] :: unit router_op]]"
  have b: "list_all (\<lambda>during. length during < 2 ^ 64) ?b" by simp
  have ok: "fst (GenerateCache plain_env ?b init_router) = None" by code_simp
  show ?thesis
    using GenerateCache_no_lost_update [OF b, of plain_env init_router] unfolding ok by simp
qed

end
