(* ===== verification/UdpRelay.thy ===== *)
theory UdpRelay
  imports UdpHeader Router
begin

text \<open>
  \<open>internal/socks/udp.go\<close>, the relay: the NAT table, and the relay as a step relation over
  its goroutines. A goroutine is a \<open>task\<close> that names the program point it has reached; each
  step runs the code up to the next access to shared state. What the network, the router and
  the clock answer in a step is its \<open>choice\<close>. \<open>dialGroup\<close> is modelled by its documented
  behaviour: at most one call per key is in flight, and later callers wait for its result.
\<close>

section \<open>The NAT table\<close>

text \<open>Flow key to entry number; the order of the list carries no meaning.\<close>

type_synonym natTable = "(string \<times> nat) list"

definition natTable_Load :: "string \<Rightarrow> natTable \<Rightarrow> nat option" where
  "natTable_Load key t = map_of t key"

definition natTable_delete :: "string \<Rightarrow> natTable \<Rightarrow> natTable" where
  "natTable_delete key t = filter (\<lambda>ke. fst ke \<noteq> key) t"

definition natTable_Store :: "string \<Rightarrow> nat \<Rightarrow> natTable \<Rightarrow> natTable" where
  "natTable_Store key entry t = (key, entry) # natTable_delete key t"

text \<open>
  The scan of \<open>Install\<close> over the entries in the order \<open>range\<close> yields them.
\<close>

fun oldest_loop :: "(nat \<Rightarrow> int) \<Rightarrow> (string \<times> nat) option \<Rightarrow> (string \<times> nat) list \<Rightarrow> (string \<times> nat) option" where
  "oldest_loop seen oldest [] = oldest"
| "oldest_loop seen oldest (candidate # rest) =
     (case oldest of
        None \<Rightarrow> oldest_loop seen (Some candidate) rest
      | Some o1 \<Rightarrow> if seen (snd candidate) < seen (snd o1) then oldest_loop seen (Some candidate) rest
                  else oldest_loop seen oldest rest)"

definition natTable_Install :: "(nat \<Rightarrow> int) \<Rightarrow> (string \<times> nat) list \<Rightarrow> string \<Rightarrow> nat \<Rightarrow> int \<Rightarrow> natTable
    \<Rightarrow> (nat \<times> nat option \<times> bool) \<times> natTable" where
  "natTable_Install seen order key entry limit t =
     (case map_of t key of
        Some current \<Rightarrow> ((current, None, False), t)
      | None \<Rightarrow>
          if 0 < limit \<and> limit \<le> int (length t) then
            (case oldest_loop seen None order of
               None \<Rightarrow> ((entry, None, True), (key, entry) # t)
             | Some (oldestKey, oldest) \<Rightarrow>
                 ((entry, Some oldest, True), (key, entry) # natTable_delete oldestKey t))
          else ((entry, None, True), (key, entry) # t))"

definition natTable_DeleteIf :: "string \<Rightarrow> nat \<Rightarrow> natTable \<Rightarrow> bool \<times> natTable" where
  "natTable_DeleteIf key expected t =
     (if map_of t key \<noteq> Some expected then (False, t) else (True, natTable_delete key t))"

definition natTable_Drain :: "natTable \<Rightarrow> nat list \<times> natTable" where
  "natTable_Drain t = (map snd t, [])"

fun natTable_Range :: "(string \<Rightarrow> nat \<Rightarrow> 's \<Rightarrow> bool \<times> 's) \<Rightarrow> natTable \<Rightarrow> 's \<Rightarrow> 's" where
  "natTable_Range fn [] s = s"
| "natTable_Range fn ((key, entry) # rest) s =
     (case fn key entry s of (True, s') \<Rightarrow> natTable_Range fn rest s' | (False, s') \<Rightarrow> s')"

section \<open>State\<close>

record natEntry =
  ent_conn :: nat
  ent_targetAddr :: net_Addr
  ent_lastSeen :: int
  ent_closed :: bool \<comment> \<open>\<open>closeOnce\<close> has run\<close>

text \<open>What \<open>handlePacket\<close> knows of a datagram once it has accepted it.\<close>

record flow =
  fl_client :: net_Addr
  fl_target :: string
  fl_payload :: bytes

text \<open>
  The relay with its two limiters, which it shares with the other relays of the process
  (\<open>env_nat\<close> and \<open>env_assoc\<close> are what those hold), its entries by number, how many routes and
  outbound sockets it has open, and a log of the datagrams written in each
  direction: towards a target the flow served, the entry, its socket, the address and the
  payload; towards the client the entry, the source the datagram was read from, the address and
  the datagram.
\<close>

record relay =
  r_table :: natTable
  r_heap :: "nat \<Rightarrow> natEntry option"
  r_next :: nat
  r_inflight :: "string set"
  r_once :: bool
  r_done :: bool
  r_sock :: bool
  r_maxNATEntries :: int
  r_clientIP :: net_IP
  r_clientKey :: string
  r_associationLimiter :: udpResourceLimiter
  r_natLimiter :: udpResourceLimiter
  r_associationHeld :: bool
  env_nat :: "string \<Rightarrow> nat"
  env_assoc :: "string \<Rightarrow> nat"
  routes_open :: int
  conns_open :: int
  to_target :: "(flow \<times> nat \<times> nat \<times> net_Addr \<times> bytes) list"
  to_client :: "(nat \<times> net_Addr \<times> net_Addr \<times> bytes) list"

definition fl_key :: "flow \<Rightarrow> string" where
  "fl_key f = natKey (Some (fl_client f)) (fl_target f)"

datatype dial_pc =
    D_Start | D_Find | D_Join | D_Load | D_Route | D_Limit | D_Dial
  | D_Install nat | D_Evict nat "nat option" | D_Dup nat nat | D_Recheck nat | D_Delete nat | D_Close nat

datatype rev_pc = R_Loop | R_Close | R_Delete

datatype close_pc = C_Start | C_Sock | C_Drain | C_Entries "nat list" | C_Release

datatype task =
    Dialing dial_pc flow | Waiting flow | Sending nat flow
  | Reversing rev_pc nat flow | Closing close_pc | Exited

datatype io_err = Timeout | ConnClosed | OtherErr

text \<open>What one iteration of the reverse loop meets: a read error, or a datagram and the
  fate of the write to the client.\<close>

datatype rev_event = RevErr io_err | RevData net_Addr bytes "io_err option"

record 'c choice =
  ch_route :: "string \<Rightarrow> 'c transport result"
  ch_dial :: packet_dial
  ch_now :: int
  ch_order :: "(string \<times> nat) list"
  ch_write :: "io_err option"
  ch_event :: rev_event
  ch_buf :: bytes

section \<open>Entries\<close>

definition open_entry :: "relay \<Rightarrow> nat \<Rightarrow> bool" where
  "open_entry s eid = (case r_heap s eid of None \<Rightarrow> False | Some e \<Rightarrow> \<not> ent_closed e)"

definition last_seen :: "relay \<Rightarrow> nat \<Rightarrow> int" where
  "last_seen s eid = (case r_heap s eid of None \<Rightarrow> 0 | Some e \<Rightarrow> ent_lastSeen e)"

definition touch :: "nat \<Rightarrow> int \<Rightarrow> relay \<Rightarrow> relay" where
  "touch eid now s = s\<lparr>r_heap := (r_heap s)(eid := map_option (\<lambda>e. e\<lparr>ent_lastSeen := now\<rparr>) (r_heap s eid))\<rparr>"

text \<open>\<open>natEntry.Close\<close>: once per entry, the socket, the route and the NAT slot are given back.\<close>

definition natEntry_Close :: "nat \<Rightarrow> relay \<Rightarrow> relay" where
  "natEntry_Close eid s =
     (case r_heap s eid of
        None \<Rightarrow> s
      | Some e \<Rightarrow>
          if ent_closed e then s
          else s\<lparr>r_heap := (r_heap s)(eid \<mapsto> e\<lparr>ent_closed := True\<rparr>),
                 conns_open := conns_open s - 1, routes_open := routes_open s - 1,
                 r_natLimiter := release (r_natLimiter s) (r_clientKey s)\<rparr>)"

definition alloc_entry :: "nat \<Rightarrow> net_Addr \<Rightarrow> int \<Rightarrow> relay \<Rightarrow> nat \<times> relay" where
  "alloc_entry conn target now s =
     (r_next s,
      s\<lparr>r_heap := (r_heap s)(r_next s \<mapsto>
          \<lparr>ent_conn = conn, ent_targetAddr = target, ent_lastSeen = now, ent_closed = False\<rparr>),
        r_next := r_next s + 1\<rparr>)"

section \<open>The goroutines\<close>

text \<open>
  A step yields the new state, the tasks that replace the stepping one, and, when it ends a
  call of \<open>dialGroup.Do\<close>, that call's key and result.
\<close>

type_synonym outcome = "relay \<times> task list \<times> (string \<times> nat option) option"

definition flight_ends :: "flow \<Rightarrow> nat option \<Rightarrow> relay \<Rightarrow> task list \<Rightarrow> outcome" where
  "flight_ends f res s spawned =
     (s\<lparr>r_inflight := r_inflight s - {fl_key f}\<rparr>,
      spawned @ (case res of None \<Rightarrow> [] | Some eid \<Rightarrow> [Sending eid f]), Some (fl_key f, res))"

definition target_host :: "string \<Rightarrow> string" where
  "target_host targetAddr =
     (case net_SplitHostPort targetAddr of Inl _ \<Rightarrow> targetAddr | Inr (host, _) \<Rightarrow> host)"

fun getOrCreateNAT_step :: "'c choice \<Rightarrow> dial_pc \<Rightarrow> flow \<Rightarrow> relay \<Rightarrow> outcome" where
  "getOrCreateNAT_step ch D_Start f s =
     (if r_done s then (s, [], None) else (s, [Dialing D_Find f], None))"
| "getOrCreateNAT_step ch D_Find f s =
     (case natTable_Load (fl_key f) (r_table s) of
        Some eid \<Rightarrow> (s, [Sending eid f], None)
      | None \<Rightarrow> (s, [Dialing D_Join f], None))"
| "getOrCreateNAT_step ch D_Join f s =
     (if fl_key f \<in> r_inflight s then (s, [Waiting f], None)
      else (s\<lparr>r_inflight := insert (fl_key f) (r_inflight s)\<rparr>, [Dialing D_Load f], None))"
| "getOrCreateNAT_step ch D_Load f s =
     (case natTable_Load (fl_key f) (r_table s) of
        Some eid \<Rightarrow> flight_ends f (Some eid) s []
      | None \<Rightarrow> (s, [Dialing D_Route f], None))"
| "getOrCreateNAT_step ch D_Route f s =
     (case ch_route ch (target_host (fl_target f)) of
        Inl e \<Rightarrow> flight_ends f None s []
      | Inr route \<Rightarrow>
          if \<not> is_PacketDialer route then flight_ends f None s []
          else (s\<lparr>routes_open := routes_open s + 1\<rparr>, [Dialing D_Limit f], None))"
| "getOrCreateNAT_step ch D_Limit f s =
     (case acquire (r_natLimiter s) (r_clientKey s) of
        (False, l) \<Rightarrow> flight_ends f None (s\<lparr>r_natLimiter := l, routes_open := routes_open s - 1\<rparr>) []
      | (True, l) \<Rightarrow> (s\<lparr>r_natLimiter := l\<rparr>, [Dialing D_Dial f], None))"
| "getOrCreateNAT_step ch D_Dial f s =
     (let (res, closed) = dialPacketTarget (ch_dial ch) (fl_target f);
          s1 = s\<lparr>conns_open := conns_open s + int (length (offered_conn (ch_dial ch))) - int (length closed)\<rparr>
      in case res of
          Inl e \<Rightarrow> flight_ends f None
                    (s1\<lparr>r_natLimiter := release (r_natLimiter s1) (r_clientKey s1),
                        routes_open := routes_open s1 - 1\<rparr>) []
        | Inr (conn, target) \<Rightarrow>
            (let (eid, s2) = alloc_entry conn target (ch_now ch) s1
             in (s2, [Dialing (D_Install eid) f], None)))"
| "getOrCreateNAT_step ch (D_Install eid) f s =
     (let ((actual, evicted, installed), t') =
            natTable_Install (last_seen s) (ch_order ch) (fl_key f) eid
              (orDefault (r_maxNATEntries s) defaultMaxNATEntries) (r_table s)
      in (s\<lparr>r_table := t'\<rparr>,
          [Dialing (if installed then D_Evict eid evicted else D_Dup eid actual) f], None))"
| "getOrCreateNAT_step ch (D_Evict eid evicted) f s =
     ((case evicted of None \<Rightarrow> s | Some old \<Rightarrow> natEntry_Close old s), [Dialing (D_Recheck eid) f], None)"
| "getOrCreateNAT_step ch (D_Dup eid actual) f s = flight_ends f (Some actual) (natEntry_Close eid s) []"
| "getOrCreateNAT_step ch (D_Recheck eid) f s =
     (if r_done s then (s, [Dialing (D_Delete eid) f], None)
      else flight_ends f (Some eid) s [Reversing R_Loop eid f])"
| "getOrCreateNAT_step ch (D_Delete eid) f s =
     (s\<lparr>r_table := snd (natTable_DeleteIf (fl_key f) eid (r_table s))\<rparr>, [Dialing (D_Close eid) f], None)"
| "getOrCreateNAT_step ch (D_Close eid) f s = flight_ends f None (natEntry_Close eid s) []"

text \<open>The end of \<open>handlePacket\<close>: the payload goes to the flow's target.\<close>

definition handlePacket_write :: "'c choice \<Rightarrow> nat \<Rightarrow> flow \<Rightarrow> relay \<Rightarrow> relay" where
  "handlePacket_write ch eid f s =
     (case r_heap s eid of
        None \<Rightarrow> s
      | Some e \<Rightarrow>
          if ent_closed e \<or> ch_write ch \<noteq> None then s
          else touch eid (ch_now ch)
                 (s\<lparr>to_target := to_target s @ [(f, eid, ent_conn e, ent_targetAddr e, fl_payload f)]\<rparr>))"

definition udpIdleTimeout :: int where "udpIdleTimeout = 120 * 1000000000"

fun reverseRelay_step :: "'c choice \<Rightarrow> rev_pc \<Rightarrow> nat \<Rightarrow> flow \<Rightarrow> relay \<Rightarrow> relay \<times> task list" where
  "reverseRelay_step ch R_Loop eid f s =
     (let key = fl_key f in
      case ch_event ch of
        RevErr e \<Rightarrow>
          if r_done s then (s, [Reversing R_Close eid f])
          else if e = Timeout \<and> natTable_Load key (r_table s) = Some eid \<and>
                  ch_now ch - last_seen s eid < udpIdleTimeout
            then (s, [Reversing R_Loop eid f])
          else (s, [Reversing R_Close eid f])
      | RevData respAddr data werr \<Rightarrow>
          (case r_heap s eid of
             None \<Rightarrow> (s, [Reversing R_Close eid f])
           | Some e \<Rightarrow>
               (case frame_response (ent_targetAddr e) respAddr (ch_buf ch) data of
                  None \<Rightarrow> (s, [Reversing R_Loop eid f])
                | Some out \<Rightarrow>
                    let s1 = (if natTable_Load key (r_table s) = Some eid then touch eid (ch_now ch) s else s)
                    in case werr of
                         Some e \<Rightarrow> (s1, [Reversing (if e = ConnClosed then R_Close else R_Loop) eid f])
                       | None \<Rightarrow> (s1\<lparr>to_client := to_client s1 @ [(eid, respAddr, fl_client f, out)]\<rparr>,
                                  [Reversing R_Loop eid f]))))"
| "reverseRelay_step ch R_Close eid f s = (natEntry_Close eid s, [Reversing R_Delete eid f])"
| "reverseRelay_step ch R_Delete eid f s =
     (s\<lparr>r_table := snd (natTable_DeleteIf (fl_key f) eid (r_table s))\<rparr>, [])"

fun relay_Close_step :: "close_pc \<Rightarrow> relay \<Rightarrow> relay \<times> task list" where
  "relay_Close_step C_Start s =
     (if r_once s then (s, []) else (s\<lparr>r_once := True, r_done := True\<rparr>, [Closing C_Sock]))"
| "relay_Close_step C_Sock s = (s\<lparr>r_sock := False\<rparr>, [Closing C_Drain])"
| "relay_Close_step C_Drain s =
     (let (entries, t') = natTable_Drain (r_table s)
      in (s\<lparr>r_table := t'\<rparr>, [Closing (C_Entries entries)]))"
| "relay_Close_step (C_Entries []) s = (s, [Closing C_Release])"
| "relay_Close_step (C_Entries (eid # ids)) s = (natEntry_Close eid s, [Closing (C_Entries ids)])"
| "relay_Close_step C_Release s =
     (if r_associationHeld s
      then (s\<lparr>r_associationLimiter := release (r_associationLimiter s) (r_clientKey s),
              r_associationHeld := False\<rparr>, [])
      else (s, []))"

text \<open>The same call of \<open>Close\<close> in one go, for a caller with which no goroutine of the relay interferes.\<close>

definition relay_Close :: "relay \<Rightarrow> relay" where
  "relay_Close s =
     (if r_once s then s
      else case natTable_Drain (r_table s) of (drained, t') \<Rightarrow>
        let s1 = foldl (\<lambda>s eid. natEntry_Close eid s)
                   (s\<lparr>r_once := True, r_done := True, r_sock := False, r_table := t'\<rparr>) drained
        in if r_associationHeld s1
           then s1\<lparr>r_associationLimiter := release (r_associationLimiter s1) (r_clientKey s1),
                   r_associationHeld := False\<rparr>
           else s1)"

fun task_step :: "'c choice \<Rightarrow> task \<Rightarrow> relay \<Rightarrow> outcome" where
  "task_step ch (Dialing pc f) s = getOrCreateNAT_step ch pc f s"
| "task_step ch (Waiting f) s = (s, [Waiting f], None)"
| "task_step ch (Sending eid f) s = (handlePacket_write ch eid f s, [], None)"
| "task_step ch (Reversing pc eid f) s =
     (case reverseRelay_step ch pc eid f s of (s', ts) \<Rightarrow> (s', ts, None))"
| "task_step ch (Closing pc) s = (case relay_Close_step pc s of (s', ts) \<Rightarrow> (s', ts, None))"
| "task_step ch Exited s = (s, [], None)"

text \<open>The callers that wait in \<open>dialGroup.Do\<close> receive the result of the call that ended.\<close>

fun resolve :: "(string \<times> nat option) option \<Rightarrow> task \<Rightarrow> task" where
  "resolve (Some (key, res)) (Waiting f) =
     (if fl_key f = key then (case res of None \<Rightarrow> Exited | Some eid \<Rightarrow> Sending eid f) else Waiting f)"
| "resolve _ t = t"

section \<open>Datagrams from the client\<close>

text \<open>The checks of \<open>handlePacket\<close>; \<open>None\<close> drops the datagram.\<close>

definition handlePacket :: "net_IP \<Rightarrow> net_Addr \<Rightarrow> bytes \<Rightarrow> flow option" where
  "handlePacket clientIP clientAddr buf =
     (case clientAddr of
        NamedAddr _ \<Rightarrow> None
      | UDPAddr udpAddr \<Rightarrow>
          if clientIP \<noteq> [] \<and> \<not> IP_IsUnspecified clientIP \<and> \<not> IP_Equal clientIP (ua_IP udpAddr)
          then None
          else (case ParseUDPHeader buf of
                  Inl _ \<Rightarrow> None
                | Inr header \<Rightarrow>
                    if Frag header \<noteq> 0 then None
                    else Some \<lparr>fl_client = clientAddr, fl_target = AddrSpec_Address (Addr header),
                               fl_payload = drop (DataOffset header) buf\<rparr>))"

definition udpJobQueueSize :: nat where "udpJobQueueSize = 64"

text \<open>One iteration of \<open>readLoop\<close> over the queue of jobs: \<open>Inl\<close> returns from the loop.\<close>

definition readLoop_iter :: "(io_err + net_Addr \<times> bytes) \<Rightarrow> (net_Addr \<times> bytes) list
    \<Rightarrow> goerror option + (net_Addr \<times> bytes) list" where
  "readLoop_iter event jobs =
     (case event of
        Inl ConnClosed \<Rightarrow> Inl None
      | Inl Timeout \<Rightarrow> Inr jobs
      | Inl OtherErr \<Rightarrow> Inl (Some (Errorf ''socks5: udp relay read''))
      | Inr packet \<Rightarrow> if length jobs = udpJobQueueSize then Inr jobs else Inr (jobs @ [packet]))"

section \<open>Creating a relay\<close>

text \<open>\<open>newUDPRelayWithListener\<close>; the caller's limiters come back with the result.\<close>

definition newUDPRelay :: "net_IP \<Rightarrow> net_IP \<Rightarrow> udpResourceLimiter \<Rightarrow> udpResourceLimiter \<Rightarrow> int
    \<Rightarrow> (string \<Rightarrow> string \<Rightarrow> unit result) \<Rightarrow> relay result \<times> udpResourceLimiter" where
  "newUDPRelay clientIP localIP associationLimiter natLimiter maxNAT listen =
     (let clientKey = udpClientKey clientIP in
      case acquire associationLimiter clientKey of
        (False, l) \<Rightarrow> (Inl (Sentinel ErrUDPAssociationLimit), l)
      | (True, l) \<Rightarrow>
          (let (network, bindAddr) = relayBindAddress localIP in
           case listen network bindAddr of
             Inl e \<Rightarrow> (Inl (Wrap ''socks5: udp relay listen'' e), release l clientKey)
           | Inr _ \<Rightarrow>
               (Inr \<lparr>r_table = [], r_heap = Map.empty, r_next = 0, r_inflight = {}, r_once = False,
                     r_done = False, r_sock = True,
                     r_maxNATEntries = orDefault maxNAT defaultMaxNATEntries,
                     r_clientIP = clientIP, r_clientKey = clientKey,
                     r_associationLimiter = l, r_natLimiter = natLimiter, r_associationHeld = True,
                     env_nat = held natLimiter, env_assoc = held associationLimiter,
                     routes_open = 0, conns_open = 0, to_target = [], to_client = []\<rparr>, l)))"

definition NewUDPRelay :: "net_IP \<Rightarrow> net_IP \<Rightarrow> udp_globals \<Rightarrow> (string \<Rightarrow> string \<Rightarrow> unit result)
    \<Rightarrow> relay result \<times> udp_globals" where
  "NewUDPRelay clientIP localIP g listen =
     (case udpConfig g of (disabled, associations, natl, maxNAT) \<Rightarrow>
        if disabled then (Inl (Sentinel ErrUDPDisabled), g)
        else case newUDPRelay clientIP localIP associations natl maxNAT listen of
            (r, l) \<Rightarrow> (r, g\<lparr>udpAssociationLimiter := l\<rparr>))"

section \<open>The relay as a transition system\<close>

type_synonym config = "relay \<times> task multiset"

text \<open>
  What a step may be told: \<open>range\<close> visits each table entry once, and \<open>ReadFrom\<close> fills the
  part of the pooled buffer behind the reserved header space.
\<close>

definition choice_ok :: "'c choice \<Rightarrow> relay \<Rightarrow> bool" where
  "choice_ok ch s \<longleftrightarrow> mset (ch_order ch) = mset (r_table s) \<and>
     (case ch_event ch of
        RevErr _ \<Rightarrow> True
      | RevData _ data _ \<Rightarrow>
          length (ch_buf ch) = udpMaxPacketSize + udpMaxHeaderLen \<and> length data \<le> udpMaxPacketSize)"

inductive relay_step :: "config \<Rightarrow> config \<Rightarrow> bool" where
  Receive: "handlePacket (r_clientIP s) addr buf = Some f \<Longrightarrow>
     relay_step (s, M) (s, add_mset (Dialing D_Start f) M)"
| CallClose: "relay_step (s, M) (s, add_mset (Closing C_Start) M)"
| Run: "task_step (ch :: unit choice) t s = (s', ts, fin) \<Longrightarrow>
     choice_ok ch s \<Longrightarrow>
     relay_step (s, add_mset t M) (s', mset ts + image_mset (resolve fin) M)"
| OtherNatAcquire: "acquire (r_natLimiter s) c = (True, l) \<Longrightarrow>
     relay_step (s, M) (s\<lparr>r_natLimiter := l, env_nat := (env_nat s)(c := env_nat s c + 1)\<rparr>, M)"
| OtherNatRelease: "0 < env_nat s c \<Longrightarrow>
     relay_step (s, M) (s\<lparr>r_natLimiter := release (r_natLimiter s) c,
                          env_nat := (env_nat s)(c := env_nat s c - 1)\<rparr>, M)"
| OtherAssocAcquire: "acquire (r_associationLimiter s) c = (True, l) \<Longrightarrow>
     relay_step (s, M) (s\<lparr>r_associationLimiter := l, env_assoc := (env_assoc s)(c := env_assoc s c + 1)\<rparr>, M)"
| OtherAssocRelease: "0 < env_assoc s c \<Longrightarrow>
     relay_step (s, M) (s\<lparr>r_associationLimiter := release (r_associationLimiter s) c,
                          env_assoc := (env_assoc s)(c := env_assoc s c - 1)\<rparr>, M)"

inductive relay_reachable :: "relay \<Rightarrow> config \<Rightarrow> bool" for s0 where
  Init: "relay_reachable s0 (s0, {#})"
| Step: "relay_reachable s0 c \<Longrightarrow> relay_step c c' \<Longrightarrow> relay_reachable s0 c'"

end
