(* ===== verification/UdpRelayInv.thy ===== *)
theory UdpRelayInv
  imports UdpRelay
begin

text \<open>
  Invariants of the relay of \<open>UdpRelay\<close>: a ledger of NAT slots, routes and sockets against
  the entries and goroutines that own them; the NAT table's bound and its agreement with
  \<open>dialGroup\<close>; and who closes each open entry, up to the end of \<open>Close\<close>.
\<close>

section \<open>The ledger\<close>

text \<open>What a goroutine holds that no entry accounts for yet.\<close>

fun task_token :: "task \<Rightarrow> int" where
  "task_token (Dialing D_Dial f) = 1"
| "task_token _ = 0"

fun task_route :: "task \<Rightarrow> int" where
  "task_route (Dialing D_Limit f) = 1"
| "task_route (Dialing D_Dial f) = 1"
| "task_route _ = 0"

definition live :: "relay \<Rightarrow> int" where
  "live s = int (card {eid. open_entry s eid})"

definition heap_wf :: "relay \<Rightarrow> bool" where
  "heap_wf s \<longleftrightarrow> (\<forall>eid. r_next s \<le> eid \<longrightarrow> r_heap s eid = None)"

text \<open>
  \<open>ledger s a b\<close>: beyond the open entries and what the other relays hold, \<open>a\<close> NAT slots of
  the client and \<open>b\<close> routes are out; sockets are out for the open entries only.
\<close>

definition ledger :: "relay \<Rightarrow> int \<Rightarrow> int \<Rightarrow> bool" where
  "ledger s a b \<longleftrightarrow>
     heap_wf s \<and> limiter_inv (r_natLimiter s) \<and>
     (\<forall>c. c \<noteq> r_clientKey s \<longrightarrow> held (r_natLimiter s) c = env_nat s c) \<and>
     int (held (r_natLimiter s) (r_clientKey s)) = int (env_nat s (r_clientKey s)) + live s + a \<and>
     routes_open s = live s + b \<and> conns_open s = live s"

lemma open_entry_upd [simp]:
  "open_entry (s\<lparr>r_table := t\<rparr>) = open_entry s" "open_entry (s\<lparr>r_inflight := i\<rparr>) = open_entry s"
  "open_entry (s\<lparr>r_natLimiter := l\<rparr>) = open_entry s" "open_entry (s\<lparr>routes_open := n\<rparr>) = open_entry s"
  "open_entry (s\<lparr>conns_open := n\<rparr>) = open_entry s" "open_entry (s\<lparr>r_done := d\<rparr>) = open_entry s"
  "open_entry (s\<lparr>r_once := d\<rparr>) = open_entry s" "open_entry (s\<lparr>r_sock := d\<rparr>) = open_entry s"
  "open_entry (s\<lparr>r_associationLimiter := l\<rparr>) = open_entry s"
  "open_entry (s\<lparr>r_associationHeld := d\<rparr>) = open_entry s"
  "open_entry (s\<lparr>to_target := tt\<rparr>) = open_entry s" "open_entry (s\<lparr>to_client := tc\<rparr>) = open_entry s"
  "open_entry (s\<lparr>env_nat := en\<rparr>) = open_entry s" "open_entry (s\<lparr>env_assoc := en\<rparr>) = open_entry s"
  by (simp_all add: open_entry_def fun_eq_iff)

lemma live_upd [simp]:
  "live (s\<lparr>r_table := t\<rparr>) = live s" "live (s\<lparr>r_inflight := i\<rparr>) = live s"
  "live (s\<lparr>r_natLimiter := l\<rparr>) = live s" "live (s\<lparr>routes_open := n\<rparr>) = live s"
  "live (s\<lparr>conns_open := n\<rparr>) = live s" "live (s\<lparr>r_done := d\<rparr>) = live s"
  "live (s\<lparr>r_once := d\<rparr>) = live s" "live (s\<lparr>r_sock := d\<rparr>) = live s"
  "live (s\<lparr>r_associationLimiter := l\<rparr>) = live s"
  "live (s\<lparr>r_associationHeld := d\<rparr>) = live s"
  "live (s\<lparr>to_target := tt\<rparr>) = live s" "live (s\<lparr>to_client := tc\<rparr>) = live s"
  "live (s\<lparr>env_nat := en\<rparr>) = live s" "live (s\<lparr>env_assoc := en\<rparr>) = live s"
  by (simp_all add: live_def)

lemma ledger_upd [simp]:
  "ledger (s\<lparr>r_table := t\<rparr>) a b = ledger s a b" "ledger (s\<lparr>r_inflight := i\<rparr>) a b = ledger s a b"
  "ledger (s\<lparr>r_done := d\<rparr>) a b = ledger s a b"
  "ledger (s\<lparr>r_once := d\<rparr>) a b = ledger s a b" "ledger (s\<lparr>r_sock := d\<rparr>) a b = ledger s a b"
  "ledger (s\<lparr>r_associationLimiter := l\<rparr>) a b = ledger s a b"
  "ledger (s\<lparr>r_associationHeld := d\<rparr>) a b = ledger s a b"
  "ledger (s\<lparr>to_target := tt\<rparr>) a b = ledger s a b" "ledger (s\<lparr>to_client := tc\<rparr>) a b = ledger s a b"
  "ledger (s\<lparr>env_assoc := en\<rparr>) a b = ledger s a b"
  "ledger (s\<lparr>routes_open := routes_open s + n\<rparr>) a b = ledger s a (b - n)"
  by (auto simp: ledger_def heap_wf_def)

lemma finite_open: "heap_wf s \<Longrightarrow> finite {eid. open_entry s eid}"
  by (rule finite_subset [of _ "{..< r_next s}"])
     (auto simp: heap_wf_def open_entry_def not_le [symmetric] split: option.splits)

lemma live_nonneg [simp]: "0 \<le> live s"
  by (simp add: live_def)

lemma open_entry_touch [simp]: "open_entry (touch eid now s) = open_entry s"
  by (auto simp: open_entry_def touch_def fun_eq_iff split: option.splits)

lemma touch_fields [simp]:
  "r_table (touch eid now s) = r_table s" "r_next (touch eid now s) = r_next s"
  "r_done (touch eid now s) = r_done s" "r_once (touch eid now s) = r_once s"
  "r_inflight (touch eid now s) = r_inflight s" "r_maxNATEntries (touch eid now s) = r_maxNATEntries s"
  "r_clientKey (touch eid now s) = r_clientKey s" "r_natLimiter (touch eid now s) = r_natLimiter s"
  "r_associationLimiter (touch eid now s) = r_associationLimiter s"
  "r_associationHeld (touch eid now s) = r_associationHeld s" "r_clientIP (touch eid now s) = r_clientIP s"
  "env_nat (touch eid now s) = env_nat s" "env_assoc (touch eid now s) = env_assoc s"
  "routes_open (touch eid now s) = routes_open s" "conns_open (touch eid now s) = conns_open s"
  "to_client (touch eid now s) = to_client s" "to_target (touch eid now s) = to_target s"
  "r_heap (touch eid now s) k = None \<longleftrightarrow> r_heap s k = None"
  by (simp_all add: touch_def)

lemma ledger_touch [simp]: "ledger (touch eid now s) a b = ledger s a b"
  by (simp add: ledger_def heap_wf_def live_def)

lemma natEntry_Close_fields [simp]:
  "r_table (natEntry_Close eid s) = r_table s" "r_next (natEntry_Close eid s) = r_next s"
  "r_done (natEntry_Close eid s) = r_done s" "r_once (natEntry_Close eid s) = r_once s"
  "r_inflight (natEntry_Close eid s) = r_inflight s"
  "r_maxNATEntries (natEntry_Close eid s) = r_maxNATEntries s"
  "r_clientKey (natEntry_Close eid s) = r_clientKey s" "r_clientIP (natEntry_Close eid s) = r_clientIP s"
  "r_associationLimiter (natEntry_Close eid s) = r_associationLimiter s"
  "r_associationHeld (natEntry_Close eid s) = r_associationHeld s"
  "env_nat (natEntry_Close eid s) = env_nat s" "env_assoc (natEntry_Close eid s) = env_assoc s"
  "to_client (natEntry_Close eid s) = to_client s" "to_target (natEntry_Close eid s) = to_target s"
  "r_heap (natEntry_Close eid s) k = None \<longleftrightarrow> r_heap s k = None"
  by (auto simp: natEntry_Close_def split: option.split)

lemma open_entry_Close [simp]:
  "open_entry (natEntry_Close eid s) = (open_entry s)(eid := False)"
  by (auto simp: open_entry_def natEntry_Close_def fun_eq_iff split: option.splits)

lemma live_Close:
  assumes "heap_wf s"
  shows "live (natEntry_Close eid s) = live s - (if open_entry s eid then 1 else 0)"
proof -
  have "{e. open_entry (natEntry_Close eid s) e} = {e. open_entry s e} - {eid}" by auto
  moreover have "int (card ({e. open_entry s e} - {eid})) =
      int (card {e. open_entry s e}) - (if open_entry s eid then 1 else 0)"
    using card_Suc_Diff1 [OF finite_open [OF assms], of eid] by (cases "open_entry s eid") auto
  ultimately show ?thesis by (simp only: live_def)
qed

lemma natEntry_Close_open:
  assumes "open_entry s eid"
  shows "r_natLimiter (natEntry_Close eid s) = release (r_natLimiter s) (r_clientKey s)"
    and "routes_open (natEntry_Close eid s) = routes_open s - 1"
    and "conns_open (natEntry_Close eid s) = conns_open s - 1"
  using assms by (auto simp: natEntry_Close_def open_entry_def split: option.splits)

lemma natEntry_Close_closed: "\<not> open_entry s eid \<Longrightarrow> natEntry_Close eid s = s"
  by (simp add: natEntry_Close_def open_entry_def split: option.splits)

lemma heap_wf_Close [simp]: "heap_wf (natEntry_Close eid s) = heap_wf s"
  by (simp add: heap_wf_def)

text \<open>Closing an entry, open or not, keeps the ledger.\<close>

lemma ledger_Close:
  assumes l: "ledger s a b" and a: "0 \<le> a"
  shows "ledger (natEntry_Close eid s) a b"
proof (cases "open_entry s eid")
  case False
  then show ?thesis using l by (simp add: natEntry_Close_closed)
next
  case True
  let ?c = "r_clientKey s" and ?l = "r_natLimiter s"
  have wf: "heap_wf s" using l by (simp add: ledger_def)
  have lv: "live (natEntry_Close eid s) = live s - 1" using live_Close [OF wf, of eid] True by simp
  have pos: "1 \<le> live s" using live_nonneg [of "natEntry_Close eid s"] lv by linarith
  note n = natEntry_Close_open [OF True]
  have inv: "limiter_inv ?l" using l by (simp add: ledger_def)
  have h: "int (held ?l ?c) = int (env_nat s ?c) + live s + a" using l by (simp add: ledger_def)
  have "int (held (release ?l ?c) ?c) = int (env_nat s ?c) + (live s - 1) + a"
    using lim.released [OF inv, of ?c] h pos a by auto
  then show ?thesis using l lim.released [OF inv, of ?c] by (simp add: ledger_def n lv)
qed

text \<open>A new entry takes over one NAT slot, one route and one socket.\<close>

lemma ledger_alloc:
  assumes l: "ledger s (1 + a) (1 + b)"
    and e: "alloc_entry conn target now (s\<lparr>conns_open := conns_open s + 1\<rparr>) = (eid, s')"
  shows "ledger s' a b"
proof -
  have wf: "heap_wf s" using l by (simp add: ledger_def)
  have s': "s' = s\<lparr>conns_open := conns_open s + 1, r_heap := (r_heap s)(r_next s \<mapsto>
      \<lparr>ent_conn = conn, ent_targetAddr = target, ent_lastSeen = now, ent_closed = False\<rparr>),
      r_next := r_next s + 1\<rparr>"
    using e by (auto simp: alloc_entry_def)
  have new: "r_next s \<notin> {e. open_entry s e}" using wf by (simp add: heap_wf_def open_entry_def)
  have "{e. open_entry s' e} = insert (r_next s) {e. open_entry s e}"
    by (auto simp: s' open_entry_def)
  then have "live s' = live s + 1" using finite_open [OF wf] new by (simp add: live_def)
  then show ?thesis using l by (simp add: ledger_def s' heap_wf_def)
qed

lemma ledger_acquire:
  assumes "ledger s a b" and "acquire (r_natLimiter s) (r_clientKey s) = (True, l)"
  shows "ledger (s\<lparr>r_natLimiter := l\<rparr>) (1 + a) b"
  using assms lim.granted [of "r_natLimiter s" "r_clientKey s" l] by (auto simp: ledger_def heap_wf_def)

lemma ledger_release:
  assumes "ledger s (1 + a) b" and "0 \<le> a"
  shows "ledger (s\<lparr>r_natLimiter := release (r_natLimiter s) (r_clientKey s)\<rparr>) a b"
proof -
  have inv: "limiter_inv (r_natLimiter s)" using assms(1) by (simp add: ledger_def)
  have "1 \<le> int (held (r_natLimiter s) (r_clientKey s))"
    using assms live_nonneg [of s] by (simp add: ledger_def)
  then show ?thesis using assms lim.released [OF inv, of "r_clientKey s"]
    by (auto simp: ledger_def heap_wf_def)
qed

lemma dialPacketTarget_Inr:
  "dialPacketTarget ans target = (Inr (conn, addr), closed) \<Longrightarrow> offered_conn ans = [conn] \<and> closed = []"
  by (auto simp: dialPacketTarget_def split: packet_dial.splits option.splits)

lemma dialPacketTarget_Inl:
  "dialPacketTarget ans target = (Inl e, closed) \<Longrightarrow> closed = offered_conn ans"
  by (auto simp: dialPacketTarget_def split: packet_dial.splits option.splits)

lemma flight_ends_iff:
  "flight_ends f res s sp = (s', ts, fin) \<longleftrightarrow>
     s' = s\<lparr>r_inflight := r_inflight s - {fl_key f}\<rparr> \<and>
     ts = sp @ (case res of None \<Rightarrow> [] | Some eid \<Rightarrow> [Sending eid f]) \<and> fin = Some (fl_key f, res)"
  by (auto simp: flight_ends_def)

definition tokens :: "task multiset \<Rightarrow> int" where
  "tokens M = (\<Sum>t \<in># M. task_token t)"

definition routes_held :: "task multiset \<Rightarrow> int" where
  "routes_held M = (\<Sum>t \<in># M. task_route t)"

lemma sum_tasks [simp]:
  "tokens {#} = 0" "tokens (add_mset t M) = task_token t + tokens M"
  "tokens (M + N) = tokens M + tokens N"
  "routes_held {#} = 0" "routes_held (add_mset t M) = task_route t + routes_held M"
  "routes_held (M + N) = routes_held M + routes_held N"
  by (simp_all add: tokens_def routes_held_def)

lemma tokens_nonneg [simp]: "0 \<le> tokens M"
proof (induction M)
  case (add t M)
  have "0 \<le> task_token t" by (cases t rule: task_token.cases) auto
  with add show ?case by simp
qed simp

lemma resolve_task [simp]: "task_token (resolve fin t) = task_token t" "task_route (resolve fin t) = task_route t"
  by (cases "(fin, t)" rule: resolve.cases; auto split: option.split)+

lemma resolve_sums [simp]: "tokens (image_mset (resolve fin) M) = tokens M"
  "routes_held (image_mset (resolve fin) M) = routes_held M"
  by (simp_all add: tokens_def routes_held_def image_mset.compositionality comp_def)

lemma ledger_getOrCreateNAT:
  assumes l: "ledger s (task_token (Dialing pc f) + a) (task_route (Dialing pc f) + b)" and a: "0 \<le> a"
    and st: "getOrCreateNAT_step ch pc f s = (s', ts, fin)"
  shows "ledger s' (tokens (mset ts) + a) (routes_held (mset ts) + b)"
proof (cases pc)
  case D_Limit
  obtain ok lm where q: "acquire (r_natLimiter s) (r_clientKey s) = (ok, lm)" by force
  show ?thesis
  proof (cases ok)
    case True
    then show ?thesis using st l q ledger_acquire [of s a "1 + b" lm] by (auto simp: D_Limit)
  next
    case False
    then have "lm = r_natLimiter s" using lim.refused q by simp
    then show ?thesis using st l q False by (auto simp: D_Limit flight_ends_iff ledger_def heap_wf_def)
  qed
next
  case D_Dial
  obtain res closed where d: "dialPacketTarget (ch_dial ch) (fl_target f) = (res, closed)" by force
  show ?thesis
  proof (cases res)
    case (Inl e)
    then have c: "closed = offered_conn (ch_dial ch)" using d dialPacketTarget_Inl by simp
    show ?thesis using st l a d Inl c ledger_release [of s a "1 + b"]
      by (auto simp: D_Dial flight_ends_iff ledger_def heap_wf_def)
  next
    case (Inr x)
    obtain conn addr where x: "x = (conn, addr)" by force
    then have c: "offered_conn (ch_dial ch) = [conn]" "closed = []" using d Inr dialPacketTarget_Inr by auto
    obtain eid s2 where al: "alloc_entry conn addr (ch_now ch) (s\<lparr>conns_open := conns_open s + 1\<rparr>) = (eid, s2)"
      by force
    show ?thesis using st l d Inr x c al ledger_alloc [OF _ al, of a b] by (auto simp: D_Dial)
  qed
qed (use l a st in \<open>auto simp: flight_ends_iff ledger_Close split: if_splits option.splits sum.splits prod.splits\<close>)

lemma ledger_task_step:
  assumes l: "ledger s (task_token t + a) (task_route t + b)" and a: "0 \<le> a"
    and st: "task_step ch t s = (s', ts, fin)"
  shows "ledger s' (tokens (mset ts) + a) (routes_held (mset ts) + b)"
proof (cases t)
  case (Dialing pc f)
  then show ?thesis using ledger_getOrCreateNAT l a st by simp
next
  case (Reversing pc eid f)
  then show ?thesis using l a st
    by (cases pc) (auto simp: ledger_Close Let_def split: rev_event.splits if_splits option.splits)
next
  case (Closing pc)
  then show ?thesis using l a st
    by (cases "(pc, s)" rule: relay_Close_step.cases)
       (auto simp: ledger_Close natTable_Drain_def split: if_splits)
qed (use l st in \<open>auto simp: handlePacket_write_def split: option.splits if_splits\<close>)

text \<open>The steps of the other relays move only what those hold.\<close>

lemma ledger_other_acquire:
  assumes "ledger s a b" and "acquire (r_natLimiter s) c = (True, l)"
  shows "ledger (s\<lparr>r_natLimiter := l, env_nat := (env_nat s)(c := env_nat s c + 1)\<rparr>) a b"
  using assms lim.granted [of "r_natLimiter s" c l] by (auto simp: ledger_def heap_wf_def)

lemma ledger_other_release:
  assumes l: "ledger s a b" and p: "0 < env_nat s c" and a: "0 \<le> a"
  shows "ledger (s\<lparr>r_natLimiter := release (r_natLimiter s) c, env_nat := (env_nat s)(c := env_nat s c - 1)\<rparr>) a b"
proof -
  have "limiter_inv (r_natLimiter s)" using l by (simp add: ledger_def)
  note r = lim.released [OF this, of c]
  have "1 \<le> int (held (r_natLimiter s) c)"
  proof (cases "c = r_clientKey s")
    case True
    then have "int (held (r_natLimiter s) c) = int (env_nat s c) + live s + a"
      using l by (simp add: ledger_def)
    then show ?thesis using p a live_nonneg [of s] by linarith
  qed (use l p in \<open>auto simp: ledger_def\<close>)
  then show ?thesis using l p r by (auto simp: ledger_def heap_wf_def of_nat_diff)
qed

definition ledger_inv :: "config \<Rightarrow> bool" where
  "ledger_inv c \<longleftrightarrow> ledger (fst c) (tokens (snd c)) (routes_held (snd c))"

inductive_cases relay_stepE: "relay_step c c'"

lemma ledger_inv_step: "relay_step c c' \<Longrightarrow> ledger_inv c \<Longrightarrow> ledger_inv c'"
proof (induction rule: relay_step.induct)
  case (Run ch t s s' ts fin M)
  then show ?case
    using ledger_task_step [of s t "tokens M" "routes_held M" ch s' ts fin] by (simp add: ledger_inv_def)
next
  case (OtherNatAcquire s c l M)
  then show ?case using ledger_other_acquire unfolding ledger_inv_def fst_conv snd_conv by blast
next
  case (OtherNatRelease s c M)
  then show ?case using ledger_other_release tokens_nonneg unfolding ledger_inv_def fst_conv snd_conv by blast
qed (auto simp: ledger_inv_def)

section \<open>The association slot\<close>

definition assoc_inv :: "relay \<Rightarrow> bool" where
  "assoc_inv s \<longleftrightarrow>
     limiter_inv (r_associationLimiter s) \<and>
     held (r_associationLimiter s) =
       (\<lambda>c. env_assoc s c + (if c = r_clientKey s \<and> r_associationHeld s then 1 else 0))"

lemma assoc_same:
  "r_associationLimiter s' = r_associationLimiter s \<Longrightarrow> r_associationHeld s' = r_associationHeld s \<Longrightarrow>
   env_assoc s' = env_assoc s \<Longrightarrow> r_clientKey s' = r_clientKey s \<Longrightarrow> assoc_inv s' = assoc_inv s"
  by (simp add: assoc_inv_def)

lemma getOrCreateNAT_assoc_fields:
  assumes "getOrCreateNAT_step ch pc f s = (s', ts, fin)"
  shows "r_associationLimiter s' = r_associationLimiter s" and "r_associationHeld s' = r_associationHeld s"
    and "env_assoc s' = env_assoc s" and "env_nat s' = env_nat s" and "r_clientKey s' = r_clientKey s"
    and "r_clientIP s' = r_clientIP s" and "r_once s' = r_once s" and "r_done s' = r_done s"
    and "r_maxNATEntries s' = r_maxNATEntries s" and "to_client s' = to_client s"
  using assms
  by (cases pc; auto simp: flight_ends_iff alloc_entry_def Let_def
        split: if_splits option.splits sum.splits prod.splits bool.splits)+

lemma assoc_inv_task_step:
  assumes "assoc_inv s" and st: "task_step ch t s = (s', ts, fin)"
  shows "assoc_inv s'"
proof (cases t)
  case (Dialing pc f)
  with st have "getOrCreateNAT_step ch pc f s = (s', ts, fin)" by simp
  from getOrCreateNAT_assoc_fields [OF this] show ?thesis using assms(1) by (simp add: assoc_inv_def)
next
  case (Reversing pc eid f)
  then have "r_associationLimiter s' = r_associationLimiter s \<and> r_associationHeld s' = r_associationHeld s \<and>
      env_assoc s' = env_assoc s \<and> r_clientKey s' = r_clientKey s"
    using st by (cases pc) (auto simp: Let_def split: rev_event.splits if_splits option.splits)
  then show ?thesis using assms(1) by (simp add: assoc_inv_def)
next
  case (Closing pc)
  show ?thesis
  proof (cases "pc = C_Release")
    case True
    have "limiter_inv (r_associationLimiter s)" using assms(1) by (simp add: assoc_inv_def)
    then show ?thesis using True Closing st assms(1) lim.released [of "r_associationLimiter s" "r_clientKey s"]
      by (auto simp: assoc_inv_def split: if_splits)
  next
    case False
    then have "r_associationLimiter s' = r_associationLimiter s \<and> r_associationHeld s' = r_associationHeld s \<and>
      env_assoc s' = env_assoc s \<and> r_clientKey s' = r_clientKey s"
      using st Closing by (cases "(pc, s)" rule: relay_Close_step.cases)
        (auto simp: natTable_Drain_def split: if_splits)
    then show ?thesis using assms(1) by (simp add: assoc_inv_def)
  qed
qed (use assms in \<open>auto simp: handlePacket_write_def assoc_inv_def split: option.splits if_splits\<close>)

lemma assoc_inv_step: "relay_step c c' \<Longrightarrow> assoc_inv (fst c) \<Longrightarrow> assoc_inv (fst c')"
proof (induction rule: relay_step.induct)
  case (Run ch t s s' ts fin M)
  then show ?case using assoc_inv_task_step by simp
next
  case (OtherAssocAcquire s c l M)
  then show ?case using lim.granted [of "r_associationLimiter s" c l]
    by (auto simp: assoc_inv_def fun_eq_iff)
next
  case (OtherAssocRelease s c M)
  then show ?case using lim.released [of "r_associationLimiter s" c]
    by (auto simp: assoc_inv_def fun_eq_iff)
qed (simp_all add: assoc_inv_def)

section \<open>The NAT table\<close>

lemma map_of_delete [simp]: "map_of (natTable_delete key t) = (map_of t)(key := None)"
  by (induction t) (auto simp: natTable_delete_def)

lemma set_delete [simp]: "set (natTable_delete key t) = {ke \<in> set t. fst ke \<noteq> key}"
  by (auto simp: natTable_delete_def)

lemma distinct_delete [simp]: "distinct (map fst t) \<Longrightarrow> distinct (map fst (natTable_delete key t))"
  by (simp add: natTable_delete_def distinct_map_filter)

lemma length_delete: "length (natTable_delete key t) \<le> length t"
  by (simp add: natTable_delete_def)

lemma length_delete_less: "key \<in> fst ` set t \<Longrightarrow> length (natTable_delete key t) < length t"
  by (auto simp: natTable_delete_def intro: length_filter_less)

lemma oldest_loop_Some:
  "oldest_loop seen (Some b) order \<noteq> None \<and>
   (\<forall>r. oldest_loop seen (Some b) order = Some r \<longrightarrow>
      r \<in> insert b (set order) \<and> (\<forall>x \<in> insert b (set order). seen (snd r) \<le> seen (snd x)))"
proof (induction order arbitrary: b)
  case (Cons c order)
  show ?case using Cons [of c] Cons [of b] by (auto intro: order_trans)
qed auto

text \<open>The victim of an eviction is an entry of the table that was used least recently.\<close>

lemma oldest_loop_victim:
  assumes "mset order = mset t" and "t \<noteq> []"
  obtains k e where "oldest_loop seen None order = Some (k, e)" and "(k, e) \<in> set t"
    and "\<forall>x \<in> set t. seen e \<le> seen (snd x)"
proof -
  have st: "set order = set t" using assms(1) by (rule mset_eq_setD)
  obtain c cs where o: "order = c # cs" using assms by (cases order) auto
  obtain k e where r: "oldest_loop seen (Some c) cs = Some (k, e)"
    using oldest_loop_Some [of seen c cs] by auto
  then have m: "(k, e) \<in> set t" "\<forall>x \<in> set t. seen e \<le> seen (snd x)"
    using oldest_loop_Some [of seen c cs] o unfolding st [symmetric] by auto
  have "oldest_loop seen None order = Some (k, e)" using r o by simp
  then show thesis using m by (rule that)
qed

lemma map_of_mem: "distinct (map fst t) \<Longrightarrow> map_of t k = Some e \<longleftrightarrow> (k, e) \<in> set t"
  by (auto intro: map_of_is_SomeI map_of_SomeD)

text \<open>All that an installation does.\<close>

lemma natTable_Install_cases:
  assumes "mset order = mset t" and "0 < limit" and "distinct (map fst t)"
  obtains (Present) current where "map_of t key = Some current"
      "natTable_Install seen order key e limit t = ((current, None, False), t)"
  | (Room) "map_of t key = None" "int (length t) < limit"
      "natTable_Install seen order key e limit t = ((e, None, True), (key, e) # t)"
  | (Evict) k old where "map_of t key = None" "limit \<le> int (length t)" "(k, old) \<in> set t"
      "\<forall>x \<in> set t. seen old \<le> seen (snd x)"
      "natTable_Install seen order key e limit t = ((e, Some old, True), (key, e) # natTable_delete k t)"
proof (cases "map_of t key")
  case (Some c)
  then show thesis using Present by (simp add: natTable_Install_def)
next
  case None
  show thesis
  proof (cases "int (length t) < limit")
    case True
    then show thesis using Room None by (simp add: natTable_Install_def)
  next
    case False
    then have "t \<noteq> []" using assms(2) by auto
    from oldest_loop_victim [OF assms(1) this, of seen] obtain k old
      where v: "oldest_loop seen None order = Some (k, old)" "(k, old) \<in> set t"
        "\<forall>x \<in> set t. seen old \<le> seen (snd x)" by metis
    then show thesis using Evict [of k old] None False assms(2) by (simp add: natTable_Install_def)
  qed
qed

definition nat_limit :: "relay \<Rightarrow> int" where
  "nat_limit s = orDefault (r_maxNATEntries s) defaultMaxNATEntries"

lemma nat_limit_pos [simp]: "0 < nat_limit s"
  by (simp add: nat_limit_def orDefault_def)

definition nat_table_ok :: "int \<Rightarrow> natTable \<Rightarrow> bool" where
  "nat_table_ok limit t \<longleftrightarrow> distinct (map fst t) \<and> int (length t) \<le> limit"

lemma nat_table_ok_delete: "nat_table_ok limit t \<Longrightarrow> nat_table_ok limit (natTable_delete key t)"
  using length_delete [of key t] by (auto simp: nat_table_ok_def)

lemma nat_table_ok_DeleteIf: "nat_table_ok limit t \<Longrightarrow> nat_table_ok limit (snd (natTable_DeleteIf key e t))"
  by (auto simp: natTable_DeleteIf_def nat_table_ok_delete)

lemma nat_table_ok_Install:
  assumes "nat_table_ok limit t" and "mset order = mset t" and "0 < limit"
    and i: "natTable_Install seen order key e limit t = (r, t')"
  shows "nat_table_ok limit t'"
proof -
  have d: "distinct (map fst t)" using assms(1) by (simp add: nat_table_ok_def)
  show ?thesis
  proof (cases rule: natTable_Install_cases [OF assms(2,3) d, of key seen e])
    case (1 c)
    then show ?thesis using assms(1) i by simp
  next
    case 2
    then show ?thesis using i d by (auto simp: nat_table_ok_def map_of_eq_None_iff)
  next
    case (3 k old)
    then have "length (natTable_delete k t) < length t" by (intro length_delete_less) force
    then show ?thesis using 3 i d assms(1)
      by (auto simp: nat_table_ok_def map_of_eq_None_iff)
  qed
qed

section \<open>Who closes an entry\<close>

text \<open>
  Goroutines by what they do with an entry: those that will close it whatever happens, those
  that have just dialed it, those that watch over it while it is in the table, and those that
  will take it out of the table if the relay is shutting down.
\<close>

fun will_close :: "nat \<Rightarrow> task \<Rightarrow> bool" where
  "will_close eid (Dialing (D_Evict e old) f) \<longleftrightarrow> old = Some eid"
| "will_close eid (Dialing (D_Dup e actual) f) \<longleftrightarrow> e = eid"
| "will_close eid (Dialing (D_Delete e) f) \<longleftrightarrow> e = eid"
| "will_close eid (Dialing (D_Close e) f) \<longleftrightarrow> e = eid"
| "will_close eid (Reversing R_Close e f) \<longleftrightarrow> e = eid"
| "will_close eid (Closing (C_Entries es)) \<longleftrightarrow> eid \<in> set es"
| "will_close eid _ \<longleftrightarrow> False"

fun dialed :: "nat \<Rightarrow> task \<Rightarrow> bool" where
  "dialed eid (Dialing (D_Install e) f) \<longleftrightarrow> e = eid"
| "dialed eid _ \<longleftrightarrow> False"

fun guards :: "nat \<Rightarrow> task \<Rightarrow> bool" where
  "guards eid (Dialing (D_Evict e old) f) \<longleftrightarrow> e = eid"
| "guards eid (Dialing (D_Recheck e) f) \<longleftrightarrow> e = eid"
| "guards eid (Reversing R_Loop e f) \<longleftrightarrow> e = eid"
| "guards eid _ \<longleftrightarrow> False"

fun settles :: "string \<times> nat \<Rightarrow> task \<Rightarrow> bool" where
  "settles ke (Dialing (D_Evict e old) f) \<longleftrightarrow> ke = (fl_key f, e)"
| "settles ke (Dialing (D_Recheck e) f) \<longleftrightarrow> ke = (fl_key f, e)"
| "settles ke (Dialing (D_Delete e) f) \<longleftrightarrow> ke = (fl_key f, e)"
| "settles ke _ \<longleftrightarrow> False"

fun before_drain :: "task \<Rightarrow> bool" where
  "before_drain (Closing C_Sock) \<longleftrightarrow> True"
| "before_drain (Closing C_Drain) \<longleftrightarrow> True"
| "before_drain _ \<longleftrightarrow> False"

fun in_Close :: "task \<Rightarrow> bool" where
  "in_Close (Closing C_Start) \<longleftrightarrow> False"
| "in_Close (Closing pc) \<longleftrightarrow> True"
| "in_Close _ \<longleftrightarrow> False"

definition some_task :: "(task \<Rightarrow> bool) \<Rightarrow> task multiset \<Rightarrow> bool" where
  "some_task P M \<longleftrightarrow> (\<exists>t \<in># M. P t)"

lemma some_task_simps [simp]:
  "some_task P {#} \<longleftrightarrow> False"
  "some_task P (add_mset t M) \<longleftrightarrow> P t \<or> some_task P M"
  "some_task P (M + N) \<longleftrightarrow> some_task P M \<or> some_task P N"
  by (auto simp: some_task_def)

lemma resolve_eq:
  "resolve fin t = t \<or> (\<exists>f. t = Waiting f \<and> (resolve fin t = Exited \<or> (\<exists>e. resolve fin t = Sending e f)))"
  by (cases "(fin, t)" rule: resolve.cases) (auto split: option.split)

lemma resolve_preds [simp]:
  "will_close eid (resolve fin t) = will_close eid t" "dialed eid (resolve fin t) = dialed eid t"
  "guards eid (resolve fin t) = guards eid t" "settles ke (resolve fin t) = settles ke t"
  "before_drain (resolve fin t) = before_drain t" "in_Close (resolve fin t) = in_Close t"
  using resolve_eq [of fin t] by auto

lemma some_task_resolve [simp]:
  "some_task (will_close eid) (image_mset (resolve fin) M) = some_task (will_close eid) M"
  "some_task (dialed eid) (image_mset (resolve fin) M) = some_task (dialed eid) M"
  "some_task (guards eid) (image_mset (resolve fin) M) = some_task (guards eid) M"
  "some_task (settles ke) (image_mset (resolve fin) M) = some_task (settles ke) M"
  "some_task before_drain (image_mset (resolve fin) M) = some_task before_drain M"
  "some_task in_Close (image_mset (resolve fin) M) = some_task in_Close M"
  by (simp_all add: some_task_def)

definition owned :: "natTable \<Rightarrow> task multiset \<Rightarrow> nat \<Rightarrow> bool" where
  "owned t M eid \<longleftrightarrow> some_task (will_close eid) M \<or> some_task (dialed eid) M \<or>
     eid \<in> snd ` set t \<and> some_task (guards eid) M"

definition settled :: "relay \<Rightarrow> task multiset \<Rightarrow> bool" where
  "settled s M \<longleftrightarrow>
     (r_done s \<and> \<not> some_task before_drain M \<longrightarrow> (\<forall>ke \<in> set (r_table s). some_task (settles ke) M))"

definition own_inv :: "relay \<Rightarrow> task multiset \<Rightarrow> bool" where
  "own_inv s M \<longleftrightarrow>
     nat_table_ok (nat_limit s) (r_table s) \<and> heap_wf s \<and>
     (\<forall>eid. open_entry s eid \<longrightarrow> owned (r_table s) M eid) \<and> settled s M \<and>
     (r_done s \<longrightarrow> r_once s) \<and> (r_done s \<longrightarrow> some_task in_Close M \<or> \<not> r_associationHeld s)"

text \<open>\<open>DeleteIf\<close> takes out the pair it was asked for and nothing else.\<close>

lemma set_DeleteIf:
  assumes "distinct (map fst t)"
  shows "set (snd (natTable_DeleteIf key e t)) = set t - {(key, e)}"
  using assms by (auto simp: natTable_DeleteIf_def map_of_mem eq_key_imp_eq_value)

lemma nat_limit_cong: "r_maxNATEntries s' = r_maxNATEntries s \<Longrightarrow> nat_limit s' = nat_limit s"
  by (simp add: nat_limit_def)

lemma alloc_entry_effect:
  assumes "alloc_entry conn target now s = (eid, s')"
  shows "r_table s' = r_table s" "r_done s' = r_done s" "r_once s' = r_once s"
    "r_associationHeld s' = r_associationHeld s" "nat_limit s' = nat_limit s"
    "heap_wf s \<Longrightarrow> heap_wf s'" "open_entry s' = (open_entry s)(eid := True)"
  using assms by (auto simp: alloc_entry_def nat_limit_def heap_wf_def open_entry_def fun_eq_iff)

text \<open>Entry numbers in use are allocated, and a reverse relay deletes after closing.\<close>

fun task_ok :: "relay \<Rightarrow> task \<Rightarrow> bool" where
  "task_ok s (Dialing (D_Install e) f) \<longleftrightarrow> e < r_next s"
| "task_ok s (Dialing (D_Evict e old) f) \<longleftrightarrow> e < r_next s"
| "task_ok s (Dialing (D_Recheck e) f) \<longleftrightarrow> e < r_next s"
| "task_ok s (Reversing R_Delete e f) \<longleftrightarrow> e < r_next s \<and> \<not> open_entry s e"
| "task_ok s (Reversing pc e f) \<longleftrightarrow> e < r_next s"
| "task_ok s _ \<longleftrightarrow> True"

definition grows :: "relay \<Rightarrow> relay \<Rightarrow> bool" where
  "grows s s' \<longleftrightarrow> r_next s \<le> r_next s' \<and> (\<forall>e < r_next s. open_entry s' e \<longrightarrow> open_entry s e)"

lemma task_ok_grows: "task_ok s t \<Longrightarrow> grows s s' \<Longrightarrow> task_ok s' t"
  by (cases "(s, t)" rule: task_ok.cases) (auto simp: grows_def)

lemma task_ok_resolve: "task_ok s t \<Longrightarrow> task_ok s (resolve fin t)"
  using resolve_eq [of fin t] by auto

lemma grows_Close [simp]: "grows s (natEntry_Close eid s)"
  by (simp add: grows_def)

lemma task_ok_step:
  assumes "task_step ch t s = (s', ts, fin)" and "task_ok s t"
  shows "grows s s' \<and> (\<forall>u \<in> set ts. task_ok s' u)"
proof (cases t)
  case (Dialing pc f)
  show ?thesis
  proof (cases "pc = D_Dial")
    case True
    then show ?thesis using assms Dialing
      by (auto simp: flight_ends_iff grows_def alloc_entry_def open_entry_def Let_def
          split: if_splits option.splits sum.splits prod.splits)
  next
    case False
    then show ?thesis using assms Dialing
      by (cases pc) (auto simp: flight_ends_iff grows_def
          split: if_splits option.splits sum.splits prod.splits bool.splits)
  qed
next
  case (Reversing pc eid f)
  then show ?thesis using assms
    by (cases pc) (auto simp: grows_def Let_def split: rev_event.splits if_splits option.splits)
next
  case (Closing pc)
  then show ?thesis using assms
    by (cases "(pc, s)" rule: relay_Close_step.cases)
       (auto simp: natTable_Drain_def grows_def split: if_splits)
qed (use assms in \<open>auto simp: handlePacket_write_def grows_def split: option.splits if_splits\<close>)

text \<open>A step that leaves the table and the flags alone and hands over what its goroutine owed.\<close>

lemma own_inv_handover:
  assumes "own_inv s (add_mset t M)"
    and "r_table s' = r_table s" "r_done s' = r_done s" "r_once s' = r_once s"
      "r_associationHeld s' = r_associationHeld s" "nat_limit s' = nat_limit s" "heap_wf s'"
    and o: "\<And>eid. open_entry s' eid \<Longrightarrow> open_entry s eid \<or> some_task (dialed eid) (mset ts)"
    and c: "\<And>eid. will_close eid t \<Longrightarrow> open_entry s' eid \<Longrightarrow> some_task (will_close eid) (mset ts)"
    and d: "\<And>eid. dialed eid t \<Longrightarrow> some_task (dialed eid) (mset ts) \<or> some_task (will_close eid) (mset ts)"
    and g: "\<And>eid. guards eid t \<Longrightarrow> open_entry s' eid \<Longrightarrow>
        some_task (guards eid) (mset ts) \<or> some_task (will_close eid) (mset ts)"
    and st: "\<And>ke. settles ke t \<Longrightarrow> r_done s \<Longrightarrow> some_task (settles ke) (mset ts)"
    and b: "before_drain t \<Longrightarrow> some_task before_drain (mset ts)"
    and i: "in_Close t \<Longrightarrow> some_task in_Close (mset ts)"
  shows "own_inv s' (mset ts + image_mset (resolve fin) M)"
proof -
  have "owned (r_table s') (mset ts + image_mset (resolve fin) M) eid" if "open_entry s' eid" for eid
  proof -
    have "open_entry s eid \<Longrightarrow> owned (r_table s) (add_mset t M) eid" using assms(1) by (simp add: own_inv_def)
    then show ?thesis
      using assms(2) that o [OF that] c [OF _ that] d [of eid] g [OF _ that]
      unfolding owned_def by simp blast
  qed
  moreover have "settled s' (mset ts + image_mset (resolve fin) M)"
    using assms(1-3) st b by (auto simp: own_inv_def settled_def)
  ultimately show ?thesis using assms(1-7) i by (auto simp: own_inv_def)
qed

text \<open>The steps that do change the table or the flags.\<close>

lemma own_inv_remove:
  assumes inv: "own_inv s (add_mset t M)"
    and s': "s' = s\<lparr>r_table := snd (natTable_DeleteIf key e (r_table s))\<rparr>"
    and e: "open_entry s e \<Longrightarrow> some_task (will_close e) (mset ts)"
    and t: "\<And>eid. will_close eid t \<Longrightarrow> eid = e" "\<And>eid. \<not> dialed eid t" "\<And>eid. \<not> guards eid t"
      "\<And>ke. settles ke t \<Longrightarrow> ke = (key, e)" "\<not> before_drain t" "\<not> in_Close t"
  shows "own_inv s' (mset ts + image_mset (resolve fin) M)"
proof -
  have ok: "nat_table_ok (nat_limit s) (r_table s)" using inv by (simp add: own_inv_def)
  then have st: "set (r_table s') = set (r_table s) - {(key, e)}"
    using s' by (simp add: set_DeleteIf nat_table_ok_def)
  have "owned (r_table s') (mset ts + image_mset (resolve fin) M) eid" if "open_entry s' eid" for eid
  proof (cases "eid = e")
    case True
    then show ?thesis using e that s' by (simp add: owned_def)
  next
    case False
    have "owned (r_table s) (add_mset t M) eid" using inv that s' by (simp add: own_inv_def)
    moreover have "eid \<in> snd ` set (r_table s) \<Longrightarrow> eid \<in> snd ` set (r_table s')"
      using False st by force
    ultimately show ?thesis using False t(1,2,3) unfolding owned_def by auto
  qed
  moreover have "settled s' (mset ts + image_mset (resolve fin) M)"
    using inv t(4,5) st s' by (auto simp: own_inv_def settled_def)
  moreover have "nat_table_ok (nat_limit s') (r_table s')"
    using ok s' nat_table_ok_DeleteIf by (simp add: nat_limit_def)
  ultimately show ?thesis using inv s' t(6) by (simp add: own_inv_def heap_wf_def)
qed

lemma own_inv_install:
  assumes inv: "own_inv s (add_mset (Dialing (D_Install e) f) M)"
    and ord: "mset order = mset (r_table s)"
    and i: "natTable_Install (last_seen s) order (fl_key f) e (nat_limit s) (r_table s) = ((e, ev, True), t')"
    and t': "set t' = insert (fl_key f, e) {ke \<in> set (r_table s). ke \<noteq> kv}"
    and kv: "\<And>k v. kv = (k, v) \<Longrightarrow> ev = Some v \<or> kv \<notin> set (r_table s)"
  shows "own_inv (s\<lparr>r_table := t'\<rparr>) (add_mset (Dialing (D_Evict e ev) f) M)"
proof -
  let ?s = "s\<lparr>r_table := t'\<rparr>" and ?M = "add_mset (Dialing (D_Evict e ev) f) M"
  have ok: "nat_table_ok (nat_limit s) (r_table s)" using inv by (simp add: own_inv_def)
  have "owned t' ?M eid" if "open_entry s eid" for eid
  proof -
    have o: "owned (r_table s) (add_mset (Dialing (D_Install e) f) M) eid"
      using inv that by (simp add: own_inv_def)
    show ?thesis
    proof (cases "eid = e \<or> ev = Some eid")
      case True
      then show ?thesis using t' by (force simp: owned_def)
    next
      case False
      have "eid \<in> snd ` set t'" if m: "eid \<in> snd ` set (r_table s)"
      proof -
        obtain k where k: "(k, eid) \<in> set (r_table s)" using m by auto
        then have "kv \<noteq> (k, eid)" using kv [of k eid] False by auto
        then have "(k, eid) \<in> set t'" using k t' by auto
        then show ?thesis by (metis image_eqI snd_conv)
      qed
      then show ?thesis using o False by (auto simp: owned_def)
    qed
  qed
  moreover have "settled ?s ?M" using inv t' by (auto simp: own_inv_def settled_def)
  moreover have "nat_table_ok (nat_limit ?s) t'"
    using nat_table_ok_Install [OF ok ord nat_limit_pos i] by (simp add: nat_limit_def)
  ultimately show ?thesis using inv by (simp add: own_inv_def heap_wf_def)
qed

lemma own_inv_D_Install:
  assumes inv: "own_inv s (add_mset (Dialing (D_Install e) f) M)"
    and ord: "mset (ch_order ch) = mset (r_table s)"
    and st: "getOrCreateNAT_step ch (D_Install e) f s = (s', ts, fin)"
  shows "own_inv s' (mset ts + image_mset (resolve fin) M)"
proof -
  let ?I = "natTable_Install (last_seen s) (ch_order ch) (fl_key f) e (nat_limit s) (r_table s)"
  have ok: "distinct (map fst (r_table s))" using inv by (simp add: own_inv_def nat_table_ok_def)
  have res: "image_mset (resolve None) M = M" by (induction M) auto
  show ?thesis
  proof (cases rule: natTable_Install_cases [OF ord nat_limit_pos [of s] ok, of "fl_key f" "last_seen s" e])
    case (1 c)
    then have "s' = s\<lparr>r_table := r_table s\<rparr>" "ts = [Dialing (D_Dup e c) f]"
      using st by (auto simp: nat_limit_def)
    then show ?thesis using inv by (intro own_inv_handover [OF inv]) (auto simp: own_inv_def)
  next
    case 2
    let ?t = "(fl_key f, e) # r_table s"
    have "own_inv (s\<lparr>r_table := ?t\<rparr>) (add_mset (Dialing (D_Evict e None) f) M)"
      using 2 by (intro own_inv_install [OF inv ord 2(3), of "(fl_key f, e)"])
        (auto simp: map_of_eq_None_iff rev_image_eqI)
    then show ?thesis using st 2(3) res by (auto simp: nat_limit_def)
  next
    case (3 k old)
    let ?t = "(fl_key f, e) # natTable_delete k (r_table s)"
    have "set (natTable_delete k (r_table s)) = {ke \<in> set (r_table s). ke \<noteq> (k, old)}"
      using 3(3) ok by (auto dest: eq_key_imp_eq_value)
    then have "own_inv (s\<lparr>r_table := ?t\<rparr>) (add_mset (Dialing (D_Evict e (Some old)) f) M)"
      using 3 by (intro own_inv_install [OF inv ord 3(5), of "(k, old)"]) auto
    then show ?thesis using st 3(5) res by (auto simp: nat_limit_def)
  qed
qed

lemma own_inv_dialing:
  assumes inv: "own_inv s (add_mset (Dialing pc f) M)"
    and ord: "mset (ch_order ch) = mset (r_table s)"
    and st: "getOrCreateNAT_step ch pc f s = (s', ts, fin)"
  shows "own_inv s' (mset ts + image_mset (resolve fin) M)"
proof -
  have wf: "heap_wf s" using inv by (simp add: own_inv_def)
  consider (dial) "pc = D_Dial" | (install) e where "pc = D_Install e" | (delete) e where "pc = D_Delete e"
    | (other) "pc \<noteq> D_Dial" "\<forall>e. pc \<noteq> D_Install e" "\<forall>e. pc \<noteq> D_Delete e" by blast
  then show ?thesis
  proof cases
    case install
    then show ?thesis using own_inv_D_Install inv ord st by blast
  next
    case (delete e)
    then have "s' = s\<lparr>r_table := snd (natTable_DeleteIf (fl_key f) e (r_table s))\<rparr>"
      "ts = [Dialing (D_Close e) f]" using st by auto
    then show ?thesis using delete by (intro own_inv_remove [OF inv]) auto
  next
    case dial
    obtain res closed where d: "dialPacketTarget (ch_dial ch) (fl_target f) = (res, closed)" by force
    let ?s1 = "s\<lparr>conns_open := conns_open s + int (length (offered_conn (ch_dial ch))) - int (length closed)\<rparr>"
    show ?thesis
    proof (cases res)
      case (Inl e)
      then show ?thesis using st d dial wf
        by (intro own_inv_handover [OF inv])
           (auto simp: flight_ends_iff Let_def nat_limit_def heap_wf_def)
    next
      case (Inr x)
      obtain conn addr where x: "x = (conn, addr)" by force
      obtain eid s2 where al: "alloc_entry conn addr (ch_now ch) ?s1 = (eid, s2)" by force
      have s': "s' = s2" "ts = [Dialing (D_Install eid) f]" using st d Inr x al dial by (auto simp: Let_def)
      note eff = alloc_entry_effect [OF al]
      show ?thesis using eff dial wf
        unfolding s' by (intro own_inv_handover [OF inv]) (auto simp: nat_limit_def heap_wf_def)
    qed
  next
    case other
    then show ?thesis using st wf
      by (cases pc; intro own_inv_handover [OF inv])
         (auto simp: flight_ends_iff nat_limit_def heap_wf_def
            split: if_splits option.splits sum.splits prod.splits bool.splits)
  qed
qed

lemma own_inv_reversing:
  assumes inv: "own_inv s (add_mset (Reversing pc e f) M)" and ok: "task_ok s (Reversing pc e f)"
    and st: "reverseRelay_step ch pc e f s = (s', ts)"
  shows "own_inv s' (mset ts + image_mset (resolve None) M)"
proof -
  have wf: "heap_wf s" using inv by (simp add: own_inv_def)
  show ?thesis
  proof (cases pc)
    case R_Delete
    then have "s' = s\<lparr>r_table := snd (natTable_DeleteIf (fl_key f) e (r_table s))\<rparr>" "ts = []"
      using st by auto
    then show ?thesis using R_Delete ok by (intro own_inv_remove [OF inv]) auto
  next
    case R_Loop
    then show ?thesis using st wf
      by (intro own_inv_handover [OF inv])
         (auto simp: Let_def nat_limit_def heap_wf_def split: rev_event.splits if_splits option.splits)
  next
    case R_Close
    then show ?thesis using st wf
      by (intro own_inv_handover [OF inv]) (auto simp: nat_limit_def heap_wf_def split: if_splits)
  qed
qed

lemma own_inv_drain:
  assumes inv: "own_inv s (add_mset (Closing C_Drain) M)"
  shows "own_inv (s\<lparr>r_table := []\<rparr>) (add_mset (Closing (C_Entries (map snd (r_table s)))) M)"
  using inv by (auto simp: own_inv_def owned_def settled_def nat_table_ok_def heap_wf_def nat_limit_def)

lemma resolve_None [simp]: "image_mset (resolve None) M = M"
  by (induction M) auto

lemma own_inv_closing:
  assumes inv: "own_inv s (add_mset (Closing pc) M)" and st: "relay_Close_step pc s = (s', ts)"
  shows "own_inv s' (mset ts + image_mset (resolve None) M)"
proof -
  have wf: "heap_wf s" using inv by (simp add: own_inv_def)
  show ?thesis
  proof (cases pc)
    case C_Start
    then show ?thesis using inv st
      by (auto simp: own_inv_def owned_def settled_def heap_wf_def nat_limit_def split: if_splits)
  next
    case C_Drain
    then show ?thesis using own_inv_drain [of s M] inv st by (auto simp: natTable_Drain_def)
  next
    case C_Release
    then show ?thesis using inv st
      by (auto simp: own_inv_def owned_def settled_def heap_wf_def nat_limit_def split: if_splits)
  next
    case C_Sock
    then show ?thesis using st wf
      by (intro own_inv_handover [OF inv]) (auto simp: nat_limit_def heap_wf_def)
  next
    case (C_Entries es)
    then show ?thesis using st wf
      by (cases es; intro own_inv_handover [OF inv])
         (auto simp: nat_limit_def heap_wf_def split: if_splits)
  qed
qed

lemma own_inv_task_step:
  assumes inv: "own_inv s (add_mset t M)" and ok: "task_ok s t"
    and ord: "mset (ch_order ch) = mset (r_table s)" and st: "task_step ch t s = (s', ts, fin)"
  shows "own_inv s' (mset ts + image_mset (resolve fin) M)"
proof (cases t)
  case (Dialing pc f)
  then show ?thesis using own_inv_dialing inv ord st by (metis task_step.simps(1))
next
  case (Reversing pc e f)
  then show ?thesis using own_inv_reversing [of s pc e f M ch s' ts] inv ok st by (auto split: prod.splits)
next
  case (Closing pc)
  then show ?thesis using own_inv_closing [of s pc M s' ts] inv st by (auto split: prod.splits)
next
  case (Sending e f)
  have "heap_wf s" using inv by (simp add: own_inv_def)
  then show ?thesis using st Sending
    by (intro own_inv_handover [OF inv])
       (auto simp: handlePacket_write_def nat_limit_def heap_wf_def split: option.splits if_splits)
qed (use inv st in \<open>auto simp: own_inv_def owned_def settled_def\<close>)

section \<open>One call per key\<close>

text \<open>Each key in flight has exactly one goroutine inside \<open>dialGroup.Do\<close>.\<close>

fun flight_of :: "string \<Rightarrow> task \<Rightarrow> nat" where
  "flight_of k (Dialing D_Start f) = 0"
| "flight_of k (Dialing D_Find f) = 0"
| "flight_of k (Dialing D_Join f) = 0"
| "flight_of k (Dialing pc f) = (if fl_key f = k then 1 else 0)"
| "flight_of k _ = 0"

fun dialing_phase :: "string \<Rightarrow> task \<Rightarrow> bool" where
  "dialing_phase k (Dialing D_Route f) \<longleftrightarrow> fl_key f = k"
| "dialing_phase k (Dialing D_Limit f) \<longleftrightarrow> fl_key f = k"
| "dialing_phase k (Dialing D_Dial f) \<longleftrightarrow> fl_key f = k"
| "dialing_phase k (Dialing (D_Install e) f) \<longleftrightarrow> fl_key f = k"
| "dialing_phase k _ \<longleftrightarrow> False"

fun is_dup :: "task \<Rightarrow> bool" where
  "is_dup (Dialing (D_Dup e a) f) \<longleftrightarrow> True"
| "is_dup _ \<longleftrightarrow> False"

definition flights :: "string \<Rightarrow> task multiset \<Rightarrow> nat" where
  "flights k M = (\<Sum>t \<in># M. flight_of k t)"

lemma flights_simps [simp]:
  "flights k {#} = 0" "flights k (add_mset t M) = flight_of k t + flights k M"
  "flights k (M + N) = flights k M + flights k N"
  by (simp_all add: flights_def)

lemma flight_of_resolve [simp]: "flight_of k (resolve fin t) = flight_of k t"
  "dialing_phase k (resolve fin t) = dialing_phase k t" "is_dup (resolve fin t) = is_dup t"
  using resolve_eq [of fin t] by auto

lemma flights_resolve [simp]: "flights k (image_mset (resolve fin) M) = flights k M"
  "some_task (dialing_phase k) (image_mset (resolve fin) M) = some_task (dialing_phase k) M"
  "some_task is_dup (image_mset (resolve fin) M) = some_task is_dup M"
  by (simp_all add: flights_def image_mset.compositionality comp_def some_task_def)

lemma dialing_phase_flight: "some_task (dialing_phase k) M \<Longrightarrow> 0 < flights k M"
proof (induction M)
  case (add t M)
  have "dialing_phase k t \<Longrightarrow> flight_of k t = 1"
    by (cases "(k, t)" rule: dialing_phase.cases) auto
  with add show ?case by auto
qed simp

definition flight_inv :: "relay \<Rightarrow> task multiset \<Rightarrow> bool" where
  "flight_inv s M \<longleftrightarrow>
     (\<forall>k. flights k M = (if k \<in> r_inflight s then 1 else 0)) \<and>
     (\<forall>k. some_task (dialing_phase k) M \<longrightarrow> map_of (r_table s) k = None) \<and> \<not> some_task is_dup M"

lemma flight_inv_keep:
  assumes inv: "flight_inv s (add_mset t M)"
    and tab: "\<And>k. map_of (r_table s) k = None \<Longrightarrow> map_of (r_table s') k = None"
    and fl: "\<And>k. flights k (mset ts) + (if k \<in> r_inflight s then 1 else 0) =
                 flight_of k t + (if k \<in> r_inflight s' then 1 else 0)"
    and ph: "\<And>k. some_task (dialing_phase k) (mset ts) \<Longrightarrow> dialing_phase k t \<or> map_of (r_table s') k = None"
    and dup: "\<not> some_task is_dup (mset ts)"
  shows "flight_inv s' (mset ts + image_mset (resolve fin) M)"
proof -
  have "flights k (mset ts) + flights k M = (if k \<in> r_inflight s' then 1 else 0)" for k
  proof -
    have "flight_of k t + flights k M = (if k \<in> r_inflight s then 1 else 0)"
      using inv by (simp add: flight_inv_def)
    then show ?thesis using fl [of k] by (simp split: if_splits)
  qed
  moreover have "map_of (r_table s') k = None" if "some_task (dialing_phase k) (mset ts + M)" for k
    using that inv tab [of k] ph [of k] by (auto simp: flight_inv_def)
  ultimately show ?thesis using inv dup by (auto simp: flight_inv_def)
qed

lemma map_of_DeleteIf_None:
  "map_of t k = None \<Longrightarrow> map_of (snd (natTable_DeleteIf key e t)) k = None"
  by (simp add: natTable_DeleteIf_def)

lemma flight_inv_install:
  assumes inv: "flight_inv s (add_mset (Dialing (D_Install e) f) M)"
    and ok: "distinct (map fst (r_table s))" and ord: "mset (ch_order ch) = mset (r_table s)"
    and st: "getOrCreateNAT_step ch (D_Install e) f s = (s', ts, fin)"
  shows "flight_inv s' (mset ts + image_mset (resolve fin) M)"
proof -
  have none: "map_of (r_table s) (fl_key f) = None" using inv by (auto simp: flight_inv_def)
  have other: "\<not> some_task (dialing_phase (fl_key f)) M"
    using inv dialing_phase_flight [of "fl_key f" M] by (auto simp: flight_inv_def split: if_splits)
  obtain ev where s': "s' = s\<lparr>r_table := r_table s'\<rparr>" "ts = [Dialing (D_Evict e ev) f]" "fin = None"
    and tab: "\<And>k. k \<noteq> fl_key f \<Longrightarrow> map_of (r_table s) k = None \<Longrightarrow> map_of (r_table s') k = None"
  proof (cases rule: natTable_Install_cases [OF ord nat_limit_pos [of s] ok, of "fl_key f" "last_seen s" e])
    case (1 c)
    then show thesis using none by simp
  next
    case 2
    then show thesis using st by (intro that [of None]) (auto simp: nat_limit_def)
  next
    case (3 k old)
    then show thesis using st by (intro that [of "Some old"]) (auto simp: nat_limit_def)
  qed
  have infl: "r_inflight s' = r_inflight s" using s'(1) by (metis relay.simps(4) relay.surjective relay.update_convs(1))
  have "map_of (r_table s') k = None" if "some_task (dialing_phase k) M" for k
    using that other inv tab [of k] by (cases "k = fl_key f") (auto simp: flight_inv_def)
  moreover have "flights k (mset ts) = flight_of k (Dialing (D_Install e) f)" for k using s'(2) by simp
  ultimately show ?thesis using inv infl s'(2,3) by (auto simp: flight_inv_def)
qed

lemma flight_inv_dialing:
  assumes inv: "flight_inv s (add_mset (Dialing pc f) M)"
    and ok: "distinct (map fst (r_table s))" and ord: "mset (ch_order ch) = mset (r_table s)"
    and st: "getOrCreateNAT_step ch pc f s = (s', ts, fin)"
  shows "flight_inv s' (mset ts + image_mset (resolve fin) M)"
proof -
  have self: "flights k (add_mset (Dialing pc f) M) = (if k \<in> r_inflight s then 1 else 0)" for k
    using inv by (simp add: flight_inv_def)
  have mine: "fl_key f \<in> r_inflight s" if "flight_of (fl_key f) (Dialing pc f) = 1"
    using self [of "fl_key f"] that by (auto split: if_splits)
  have nodup: "\<forall>e a. pc \<noteq> D_Dup e a" using inv by (auto simp: flight_inv_def)
  show ?thesis
  proof (cases "\<exists>e. pc = D_Install e")
    case True
    then show ?thesis using flight_inv_install inv ok ord st by blast
  next
    case False
    then show ?thesis using st mine nodup
      by (cases pc; intro flight_inv_keep [OF inv])
         (auto simp: flight_ends_iff map_of_DeleteIf_None natTable_Load_def alloc_entry_def Let_def
            split: if_splits option.splits sum.splits prod.splits bool.splits)
  qed
qed

lemma flight_inv_task_step:
  assumes inv: "flight_inv s (add_mset t M)"
    and ok: "distinct (map fst (r_table s))" and ord: "mset (ch_order ch) = mset (r_table s)"
    and st: "task_step ch t s = (s', ts, fin)"
  shows "flight_inv s' (mset ts + image_mset (resolve fin) M)"
proof (cases t)
  case (Dialing pc f)
  then show ?thesis using flight_inv_dialing inv ok ord st by (metis task_step.simps(1))
next
  case (Reversing pc e f)
  then show ?thesis using st
    by (cases pc; intro flight_inv_keep [OF inv])
       (auto simp: map_of_DeleteIf_None Let_def split: rev_event.splits if_splits option.splits)
next
  case (Closing pc)
  then show ?thesis using st
    by (cases "(pc, s)" rule: relay_Close_step.cases; intro flight_inv_keep [OF inv])
       (auto simp: natTable_Drain_def split: if_splits)
next
  case (Sending e f)
  then show ?thesis using st
    by (intro flight_inv_keep [OF inv])
       (auto simp: handlePacket_write_def split: option.splits if_splits)
next
  case (Waiting f)
  then show ?thesis using st by (intro flight_inv_keep [OF inv]) auto
next
  case Exited
  then show ?thesis using st by (intro flight_inv_keep [OF inv]) auto
qed

section \<open>The invariant of a relay\<close>

definition relay_inv :: "config \<Rightarrow> bool" where
  "relay_inv c \<longleftrightarrow> ledger_inv c \<and> assoc_inv (fst c) \<and> own_inv (fst c) (snd c) \<and>
     flight_inv (fst c) (snd c) \<and> (\<forall>t \<in># snd c. task_ok (fst c) t)"

lemma relay_inv_run:
  assumes st: "task_step ch t s = (s', ts, fin)" and inv: "relay_inv (s, add_mset t M)"
    and buf: "choice_ok ch s"
  shows "own_inv s' (mset ts + image_mset (resolve fin) M) \<and>
    flight_inv s' (mset ts + image_mset (resolve fin) M) \<and>
    (\<forall>u \<in># mset ts + image_mset (resolve fin) M. task_ok s' u)"
proof -
  have own: "own_inv s (add_mset t M)" and fl: "flight_inv s (add_mset t M)"
    and ok: "task_ok s t" "\<forall>u \<in># M. task_ok s u"
    and ord: "mset (ch_order ch) = mset (r_table s)"
    using inv buf by (auto simp: relay_inv_def choice_ok_def)
  have d: "distinct (map fst (r_table s))" using own by (simp add: own_inv_def nat_table_ok_def)
  have "task_ok s' (resolve fin u)" if "u \<in># M" for u
    using that ok(2) task_ok_step [OF st ok(1)] task_ok_grows task_ok_resolve by blast
  then show ?thesis
    using own_inv_task_step [OF own ok(1) ord st] flight_inv_task_step [OF fl d ord st]
      task_ok_step [OF st ok(1)] by auto
qed

lemma own_inv_env:
  "own_inv (s\<lparr>r_natLimiter := l, env_nat := en\<rparr>) M = own_inv s M"
  "own_inv (s\<lparr>r_associationLimiter := l, env_assoc := en\<rparr>) M = own_inv s M"
  "task_ok (s\<lparr>r_natLimiter := l, env_nat := en\<rparr>) t = task_ok s t"
  "task_ok (s\<lparr>r_associationLimiter := l, env_assoc := en\<rparr>) t = task_ok s t"
  by (cases "(s, t)" rule: task_ok.cases;
      simp add: own_inv_def heap_wf_def nat_limit_def settled_def owned_def)+

lemma relay_inv_step: "relay_step c c' \<Longrightarrow> relay_inv c \<Longrightarrow> relay_inv c'"
proof -
  assume st: "relay_step c c'" and inv: "relay_inv c"
  have "ledger_inv c' \<and> assoc_inv (fst c')"
    using st inv ledger_inv_step assoc_inv_step by (simp add: relay_inv_def)
  moreover have "own_inv (fst c') (snd c') \<and> flight_inv (fst c') (snd c') \<and>
      (\<forall>t \<in># snd c'. task_ok (fst c') t)"
    using st
  proof cases
    case (Receive s addr buf f M)
    then show ?thesis using inv
      by (auto simp: relay_inv_def own_inv_def owned_def settled_def flight_inv_def)
  next
    case (CallClose s M)
    then show ?thesis using inv
      by (auto simp: relay_inv_def own_inv_def owned_def settled_def flight_inv_def)
  next
    case (Run ch t s s' ts fin M)
    have "relay_inv (s, add_mset t M)" using inv Run(1) by simp
    from relay_inv_run [OF Run(3) this Run(4)] show ?thesis unfolding Run(2) fst_conv snd_conv .
  qed (use inv in \<open>auto simp: relay_inv_def own_inv_env flight_inv_def\<close>)
  ultimately show ?thesis by (simp add: relay_inv_def)
qed

lemma relay_inv_init:
  assumes "newUDPRelay clientIP localIP al nl maxNAT listen = (Inr s0, l)"
    and "limiter_inv al" and "limiter_inv nl"
  shows "relay_inv (s0, {#})"
proof -
  have a: "acquire al (udpClientKey clientIP) = (True, l)"
    and s0: "r_table s0 = []" "r_heap s0 = Map.empty" "r_inflight s0 = {}" "r_done s0 = False"
      "r_clientKey s0 = udpClientKey clientIP" "r_associationLimiter s0 = l" "r_natLimiter s0 = nl"
      "r_associationHeld s0" "env_nat s0 = held nl" "env_assoc s0 = held al" "routes_open s0 = 0"
      "conns_open s0 = 0"
    using assms(1) by (auto simp: newUDPRelay_def Let_def split: prod.splits bool.splits sum.splits)
  have none: "open_entry s0 e = False" for e using s0 by (simp add: open_entry_def)
  have "ledger_inv (s0, {#})" using s0 assms(3) none by (simp add: ledger_inv_def ledger_def heap_wf_def live_def)
  moreover have "assoc_inv s0"
    using lim.granted [OF assms(2) a] s0 by (auto simp: assoc_inv_def fun_eq_iff)
  moreover have "own_inv s0 {#}"
    using s0 none by (simp add: own_inv_def nat_table_ok_def heap_wf_def settled_def order_less_imp_le)
  ultimately show ?thesis using s0 by (simp add: relay_inv_def flight_inv_def)
qed

lemma relay_inv_reachable: "relay_reachable s0 c \<Longrightarrow> relay_inv (s0, {#}) \<Longrightarrow> relay_inv c"
  by (induction rule: relay_reachable.induct) (auto intro: relay_inv_step)

lemma live_0: "heap_wf s \<Longrightarrow> (\<forall>e. \<not> open_entry s e) \<Longrightarrow> live s = 0"
  by (simp add: live_def)

lemma idle_tasks:
  assumes "\<forall>t \<in># M. (\<exists>f. t = Waiting f) \<or> (\<exists>e f. t = Sending e f) \<or> t = Exited"
  shows "\<not> some_task (will_close e) M" "\<not> some_task (dialed e) M" "\<not> some_task (guards e) M"
    "\<not> some_task (settles ke) M" "\<not> some_task before_drain M" "\<not> some_task in_Close M"
    "tokens M = 0" "routes_held M = 0"
  using assms by (fastforce simp: some_task_def tokens_def routes_held_def intro!: sum_mset.neutral)+

text \<open>Every step keeps the limits of both limiters; the counts of any clients are part of the total.\<close>

definition limits_of :: "relay \<Rightarrow> int list" where
  "limits_of s = [maxTotal (r_natLimiter s), maxPerClient (r_natLimiter s),
     maxTotal (r_associationLimiter s), maxPerClient (r_associationLimiter s)]"

lemma limits_Close [simp]: "limits_of (natEntry_Close eid s) = limits_of s"
  by (simp add: limits_of_def natEntry_Close_def split: option.split)

lemma limits_touch [simp]: "limits_of (touch eid now s) = limits_of s"
  by (simp add: limits_of_def touch_def)

lemma limits_upd [simp]:
  "limits_of (s\<lparr>r_table := t\<rparr>) = limits_of s" "limits_of (s\<lparr>r_inflight := i\<rparr>) = limits_of s"
  "limits_of (s\<lparr>routes_open := n\<rparr>) = limits_of s" "limits_of (s\<lparr>conns_open := n\<rparr>) = limits_of s"
  "limits_of (s\<lparr>r_once := a, r_done := b\<rparr>) = limits_of s" "limits_of (s\<lparr>r_sock := a\<rparr>) = limits_of s"
  "limits_of (s\<lparr>to_client := x\<rparr>) = limits_of s" "limits_of (s\<lparr>to_target := y\<rparr>) = limits_of s"
  "limits_of (s\<lparr>r_associationLimiter := release (r_associationLimiter s) k, r_associationHeld := b\<rparr>) = limits_of s"
  "limits_of (s\<lparr>r_natLimiter := release (r_natLimiter s) k, routes_open := n\<rparr>) = limits_of s"
  "limits_of (s\<lparr>r_heap := h, r_next := m\<rparr>) = limits_of s"
  by (simp_all add: limits_of_def)

lemma limits_acquired:
  "acquire (r_natLimiter s) c = (b, l) \<Longrightarrow> limits_of (s\<lparr>r_natLimiter := l\<rparr>) = limits_of s"
  "acquire (r_natLimiter s) c = (b, l) \<Longrightarrow> limits_of (s\<lparr>r_natLimiter := l, routes_open := n\<rparr>) = limits_of s"
  by (simp_all add: limits_of_def acquire_config)

lemma limits_task_step:
  assumes "task_step ch t s = (s', ts, fin)"
  shows "limits_of s' = limits_of s"
proof (cases t)
  case (Dialing pc f)
  have rel: "limits_of (s1\<lparr>conns_open := n, r_natLimiter := release (r_natLimiter s1) k\<rparr>) = limits_of s1"
    "limits_of (s1\<lparr>r_natLimiter := release (r_natLimiter s1) k\<rparr>) = limits_of s1"
    for s1 n k by (simp_all add: limits_of_def)
  have alloc: "limits_of (s1\<lparr>conns_open := n, r_heap := h, r_next := m\<rparr>) = limits_of s1" for s1 n h m
    by (simp add: limits_of_def)
  show ?thesis using assms Dialing
    by (cases pc) (auto simp: flight_ends_iff alloc_entry_def Let_def limits_acquired rel alloc
        split: if_splits option.splits sum.splits prod.splits bool.splits)
next
  case (Reversing pc e f)
  then show ?thesis using assms
    by (cases pc) (auto simp: Let_def split: rev_event.splits if_splits option.splits)
next
  case (Closing pc)
  then show ?thesis using assms
    by (cases "(pc, s)" rule: relay_Close_step.cases) (auto simp: natTable_Drain_def split: if_splits)
next
  case (Sending e f)
  then show ?thesis using assms by (auto simp: handlePacket_write_def split: option.splits if_splits)
qed (use assms in auto)

lemma limits_relay_step: "relay_step c c' \<Longrightarrow> limits_of (fst c') = limits_of (fst c)"
proof (induction rule: relay_step.induct)
  case (Run ch t s s' ts fin M)
  then show ?case using limits_task_step by simp
next
  case (OtherNatAcquire s c l M)
  then show ?case using acquire_config by (fastforce simp: limits_of_def)
next
  case (OtherAssocAcquire s c l M)
  then show ?case using acquire_config by (fastforce simp: limits_of_def)
qed (simp_all add: limits_of_def)

lemma relay_limits_kept:
  assumes "newUDPRelay clientIP localIP al nl maxNAT listen = (Inr s0, l)" and "relay_reachable s0 (s, M)"
  shows "maxTotal (r_natLimiter s) = maxTotal nl \<and> maxPerClient (r_natLimiter s) = maxPerClient nl \<and>
    maxTotal (r_associationLimiter s) = maxTotal al \<and> maxPerClient (r_associationLimiter s) = maxPerClient al"
proof -
  have "limits_of (fst c) = limits_of s0" if "relay_reachable s0 c" for c
    using that by (induction rule: relay_reachable.induct) (simp_all add: limits_relay_step)
  from this [OF assms(2)] have k: "limits_of s = limits_of s0" by simp
  have a: "acquire al (udpClientKey clientIP) = (True, l)" "r_natLimiter s0 = nl" "r_associationLimiter s0 = l"
    using assms(1) by (auto simp: newUDPRelay_def Let_def split: prod.splits bool.splits sum.splits)
  show ?thesis using k a(2,3) acquire_config [OF a(1)] by (simp add: limits_of_def)
qed

lemma counts_within_total:
  assumes "limiter_inv l" and "finite C"
  shows "(\<Sum>c \<in> C. client_count l c) \<le> lim_total l"
proof -
  let ?A = "C \<union> dom (byClient l)"
  have fin: "finite ?A" using assms by (simp add: limiter_inv_def)
  have "(\<Sum>c \<in> C. client_count l c) \<le> (\<Sum>c \<in> ?A. client_count l c)"
    using fin client_count_nonneg [OF assms(1)] by (intro sum_mono2) auto
  then show ?thesis using total_over [OF assms(1) fin] by simp
qed

section \<open>Concrete schedules\<close>

text \<open>Runs of a relay under a given schedule: which goroutine steps, and what it is told.\<close>

fun run_tasks :: "(nat \<times> unit choice) list \<Rightarrow> relay \<times> task list \<Rightarrow> relay \<times> task list" where
  "run_tasks [] c = c"
| "run_tasks ((i, ch) # sched) (s, ts) =
     (if i < length ts then
        (case task_step (ch\<lparr>ch_order := r_table s\<rparr>) (ts ! i) s of
           (s', new, fin) \<Rightarrow> run_tasks sched (s', new @ map (resolve fin) (take i ts @ drop (Suc i) ts)))
      else (s, ts))"

lemma mset_pick: "i < length ts \<Longrightarrow> mset ts = add_mset (ts ! i) (mset (take i ts @ drop (Suc i) ts))"
  by (metis Cons_nth_drop_Suc append_take_drop_id mset.simps(2) mset_append union_mset_add_mset_right)

lemma run_tasks_reachable:
  assumes "relay_reachable s0 (s, mset ts)"
    and "\<forall>(i, ch) \<in> set sched. \<exists>e. ch_event ch = RevErr e"
  shows "relay_reachable s0 (fst (run_tasks sched (s, ts)), mset (snd (run_tasks sched (s, ts))))"
  using assms
proof (induction sched arbitrary: s ts)
  case (Cons x sched)
  obtain i ch where x: "x = (i, ch)" by force
  show ?case
  proof (cases "i < length ts")
    case True
    obtain s' new fin where st: "task_step (ch\<lparr>ch_order := r_table s\<rparr>) (ts ! i) s = (s', new, fin)"
      by (cases "task_step (ch\<lparr>ch_order := r_table s\<rparr>) (ts ! i) s") auto
    have "choice_ok (ch\<lparr>ch_order := r_table s\<rparr>) s" using Cons.prems(2) x by (auto simp: choice_ok_def)
    from Step [OF Cons.prems(1)[unfolded mset_pick [OF True]] Run [OF st this]]
    have "relay_reachable s0 (s', mset (new @ map (resolve fin) (take i ts @ drop (Suc i) ts)))"
      by (simp add: image_mset_union)
    then show ?thesis using Cons.IH Cons.prems(2) True st x by simp
  qed (use Cons.prems x in simp)
qed simp

definition ex_client :: net_Addr where
  "ex_client = UDPAddr \<lparr>ua_IP = [127, 0, 0, 1], ua_Port = 40, ua_Zone = []\<rparr>"

definition ex_flow :: flow where
  "ex_flow = \<lparr>fl_client = ex_client, fl_target = ''9.9.9.9:53'', fl_payload = [7]\<rparr>"

definition ex_relay :: relay where
  "ex_relay = (case newUDPRelay [127, 0, 0, 1] [127, 0, 0, 1] (newUDPResourceLimiter 2 1)
     (newUDPResourceLimiter 4 2) 1 (\<lambda>_ _. Inr ()) of (Inr s, _) \<Rightarrow> s)"

definition ex_choice :: "unit choice" where
  "ex_choice = \<lparr>ch_route = (\<lambda>_. Inr Direct),
     ch_dial = TargetDialer (Some 3) (Some (UDPAddr \<lparr>ua_IP = [9, 9, 9, 9], ua_Port = 53, ua_Zone = []\<rparr>)) None,
     ch_now = 5, ch_order = [], ch_write = None, ch_event = RevErr ConnClosed, ch_buf = []\<rparr>"

lemma ex_relay_new:
  "\<exists>l. newUDPRelay [127, 0, 0, 1] [127, 0, 0, 1] (newUDPResourceLimiter 2 1)
     (newUDPResourceLimiter 4 2) 1 (\<lambda>_ _. Inr ()) = (Inr ex_relay, l)"
  by (simp add: newUDPRelay_def ex_relay_def acquire_def newUDPResourceLimiter_def client_count_def
      Let_def split: prod.split)

lemma ex_received: "relay_reachable ex_relay (ex_relay, mset [Dialing D_Start ex_flow])"
proof -
  have "r_clientIP ex_relay = [127, 0, 0, 1]" by code_simp
  moreover have "handlePacket [127, 0, 0, 1] ex_client [0, 0, 0, 1, 9, 9, 9, 9, 0, 53, 7] = Some ex_flow"
    by code_simp
  ultimately have "relay_step (ex_relay, {#}) (ex_relay, {#Dialing D_Start ex_flow#})"
    using Receive by metis
  then show ?thesis using Init Step by (metis mset.simps mset_single_iff_right)
qed

text \<open>The example's goroutines run one after the other, \<open>n\<close> steps of the first one.\<close>

abbreviation ex_run :: "nat \<Rightarrow> relay \<times> task list \<Rightarrow> relay \<times> task list" where
  "ex_run n \<equiv> run_tasks (replicate n (0, ex_choice))"

lemma ex_run_reachable:
  assumes "relay_reachable ex_relay (s, mset ts)"
  shows "relay_reachable ex_relay (fst (ex_run n (s, ts)), mset (snd (ex_run n (s, ts))))"
  using assms by (intro run_tasks_reachable) (auto simp: ex_choice_def)

definition ex_dialed :: "relay \<times> task list" where
  "ex_dialed = ex_run 7 (ex_relay, [Dialing D_Start ex_flow])"

definition ex_flowing :: "relay \<times> task list" where
  "ex_flowing = ex_run 10 (ex_relay, [Dialing D_Start ex_flow])"

text \<open>\<open>Close\<close> starts now and runs to its end before anything else moves.\<close>

definition close_now :: "nat \<Rightarrow> relay \<times> task list \<Rightarrow> relay \<times> task list" where
  "close_now n c = ex_run n (fst c, Closing C_Start # snd c)"

lemma ex_reachable:
  "relay_reachable ex_relay (fst ex_dialed, mset (snd ex_dialed))"
  "relay_reachable ex_relay (fst ex_flowing, mset (snd ex_flowing))"
  unfolding ex_dialed_def ex_flowing_def by (rule ex_run_reachable [OF ex_received])+

lemma close_now_reachable:
  assumes "relay_reachable ex_relay (fst c, mset (snd c))"
  shows "relay_reachable ex_relay (fst (close_now n c), mset (snd (close_now n c)))"
  unfolding close_now_def
  using Step [OF assms CallClose] by (intro ex_run_reachable) simp

text \<open>A closed relay whose goroutines have ended has released everything.\<close>

lemma relay_idle_released:
  assumes "newUDPRelay clientIP localIP al nl maxNAT listen = (Inr s0, l)"
    and "limiter_inv al" and "limiter_inv nl"
    and "relay_reachable s0 (s, M)" and "r_done s"
    and "\<forall>t \<in># M. (\<exists>f. t = Waiting f) \<or> (\<exists>e f. t = Sending e f) \<or> t = Exited"
  shows "(\<forall>e. \<not> open_entry s e) \<and> r_table s = [] \<and> conns_open s = 0 \<and> routes_open s = 0 \<and>
    held (r_natLimiter s) = env_nat s \<and> held (r_associationLimiter s) = env_assoc s"
proof -
  have inv: "relay_inv (s, M)" using relay_inv_reachable relay_inv_init assms(1-4) by blast
  note idle = idle_tasks [OF assms(6)]
  have own: "own_inv s M" using inv by (simp add: relay_inv_def)
  have none: "\<forall>e. \<not> open_entry s e" using own idle(1-3) by (auto simp: own_inv_def owned_def)
  have "settled s M" using own by (simp add: own_inv_def)
  then have tab: "r_table s = []"
    using idle(4,5) assms(5) by (cases "r_table s") (auto simp: settled_def)
  have "live s = 0" using own none by (intro live_0) (auto simp: own_inv_def)
  then have led: "conns_open s = 0" "routes_open s = 0" "held (r_natLimiter s) = env_nat s"
    using inv idle(7,8) by (auto simp: relay_inv_def ledger_inv_def ledger_def fun_eq_iff) metis
  have "\<not> r_associationHeld s" using own assms(5) idle(6) by (auto simp: own_inv_def)
  then have "held (r_associationLimiter s) = env_assoc s"
    using inv by (auto simp: relay_inv_def assoc_inv_def fun_eq_iff)
  with none tab led show ?thesis by simp
qed

section \<open>Properties\<close>

text \<open>C1: The relay's ledger, and no leak after shutdown, whatever the interleaving. In every
  reachable state of a relay that was created: there is one open socket per open entry, one open
  route per open entry and per dial between its route and its entry, and in the NAT limiter the
  count of every client is what the other relays hold plus, for this relay's client, one slot
  per open entry and per dial that has its slot; in the association limiter it is what the
  others hold plus this relay's own slot until \<open>Close\<close> gives it back. Once \<open>Close\<close> has been
  called and no goroutine is left that dials, relays back or closes, every entry has been
  closed, the table is empty, no outbound socket and no route is left open, and in both
  limiters every client's count is exactly what the other relays hold.\<close>

theorem relay_no_leak:
  assumes "newUDPRelay clientIP localIP al nl maxNAT listen = (Inr s0, l)"
    and "limiter_inv al" and "limiter_inv nl"
    and "relay_reachable s0 (s, M)"
  shows "conns_open s = int (card {e. open_entry s e}) \<and>
    routes_open s = int (card {e. open_entry s e}) + routes_held M \<and>
    (\<forall>c. client_count (r_natLimiter s) c =
       int (env_nat s c) + (if c = r_clientKey s then int (card {e. open_entry s e}) + tokens M else 0)) \<and>
    (\<forall>c. client_count (r_associationLimiter s) c =
       int (env_assoc s c) + (if c = r_clientKey s \<and> r_associationHeld s then 1 else 0)) \<and>
    (r_done s \<and> (\<forall>t \<in># M. (\<exists>f. t = Waiting f) \<or> (\<exists>e f. t = Sending e f) \<or> t = Exited) \<longrightarrow>
       (\<forall>e. \<not> open_entry s e) \<and> r_table s = [] \<and> conns_open s = 0 \<and> routes_open s = 0 \<and>
       held (r_natLimiter s) = env_nat s \<and> held (r_associationLimiter s) = env_assoc s)"
proof -
  have "relay_inv (s, M)" using relay_inv_reachable relay_inv_init assms by blast
  then have led: "ledger s (tokens M) (routes_held M)" and as: "assoc_inv s"
    by (simp_all add: relay_inv_def ledger_inv_def)
  then have inv: "limiter_inv (r_natLimiter s)" "limiter_inv (r_associationLimiter s)"
    by (simp_all add: ledger_def assoc_inv_def)
  have nat: "client_count (r_natLimiter s) c =
       int (env_nat s c) + (if c = r_clientKey s then int (card {e. open_entry s e}) + tokens M else 0)" for c
    using led client_count_nonneg [OF inv(1), of c] by (cases "c = r_clientKey s") (auto simp: ledger_def live_def held_def)
  have assoc: "client_count (r_associationLimiter s) c =
       int (env_assoc s c) + (if c = r_clientKey s \<and> r_associationHeld s then 1 else 0)" for c
  proof -
    have "held (r_associationLimiter s) c = env_assoc s c + (if c = r_clientKey s \<and> r_associationHeld s then 1 else 0)"
      using as by (simp add: assoc_inv_def)
    moreover have "client_count (r_associationLimiter s) c = int (held (r_associationLimiter s) c)"
      using client_count_nonneg [OF inv(2), of c] by (simp add: held_def)
    ultimately show ?thesis by simp
  qed
  have "conns_open s = int (card {e. open_entry s e})"
    "routes_open s = int (card {e. open_entry s e}) + routes_held M"
    using led by (simp_all add: ledger_def live_def)
  with nat assoc relay_idle_released [OF assms] show ?thesis by blast
qed

theorem relay_no_leak_witness:
  "\<exists>s M. relay_reachable ex_relay (s, M) \<and> r_next s = 1 \<and> (\<forall>e. \<not> open_entry s e) \<and> r_table s = [] \<and>
     conns_open s = 0 \<and> routes_open s = 0 \<and>
     held (r_natLimiter s) = env_nat s \<and> held (r_associationLimiter s) = env_assoc s"
proof -
  let ?c = "close_now 9 ex_flowing"
  obtain l where new: "newUDPRelay [127, 0, 0, 1] [127, 0, 0, 1] (newUDPResourceLimiter 2 1)
     (newUDPResourceLimiter 4 2) 1 (\<lambda>_ _. Inr ()) = (Inr ex_relay, l)" using ex_relay_new by blast
  have r: "relay_reachable ex_relay (fst ?c, mset (snd ?c))" by (rule close_now_reachable [OF ex_reachable(2)])
  have c: "r_done (fst ?c)" "snd ?c = [Sending 0 ex_flow]" "r_next (fst ?c) = 1" by code_simp+
  show ?thesis
    using relay_no_leak [OF new new_limiter_inv new_limiter_inv r] r c
    by (intro exI [of _ "fst ?c"] exI [of _ "mset (snd ?c)"]) simp
qed

text \<open>The shutdown race is closed. Once \<open>Close\<close> has run to its end, each entry that is
  still open belongs to a goroutine on its way to closing it: one that evicts it, one inside
  the dial path that has yet to re-check \<open>done\<close> (and then will see it closed), or a reverse
  relay that is past its loop. No open entry is left to a reverse loop that waits for the
  network.\<close>

theorem relay_close_race:
  assumes "newUDPRelay clientIP localIP al nl maxNAT listen = (Inr s0, l)"
    and "limiter_inv al" and "limiter_inv nl"
    and "relay_reachable s0 (s, M)" and "r_done s"
    and "\<forall>pc. Closing pc \<in># M \<longrightarrow> pc = C_Start" and "open_entry s e"
  shows "\<exists>t \<in># M. will_close e t \<or> dialed e t \<or>
    (\<exists>f old. t = Dialing (D_Evict e old) f) \<or> (\<exists>f. t = Dialing (D_Recheck e) f)"
proof -
  have inv: "own_inv s M"
    using relay_inv_reachable relay_inv_init assms(1-4) by (fastforce simp: relay_inv_def)
  have nb: "\<not> some_task before_drain M"
    using assms(6) by (auto simp: some_task_def elim!: before_drain.elims(2))
  consider "some_task (will_close e) M" | "some_task (dialed e) M" | "e \<in> snd ` set (r_table s)"
    using inv assms(7) by (auto simp: own_inv_def owned_def)
  then show ?thesis
  proof cases
    case 3
    then obtain k where "(k, e) \<in> set (r_table s)" by auto
    then have "some_task (settles (k, e)) M" using inv nb assms(5) by (auto simp: own_inv_def settled_def)
    then obtain t where "t \<in># M" "settles (k, e) t" by (auto simp: some_task_def)
    then show ?thesis by (intro bexI [of _ t]) (auto elim!: settles.elims(2))
  qed (auto simp: some_task_def)
qed

theorem relay_close_race_witness:
  "\<exists>s M. relay_reachable ex_relay (s, M) \<and> r_done s \<and> open_entry s 0 \<and>
     (\<exists>t \<in># M. will_close 0 t \<or> dialed 0 t \<or>
        (\<exists>f old. t = Dialing (D_Evict 0 old) f) \<or> (\<exists>f. t = Dialing (D_Recheck 0) f))"
proof -
  let ?c = "close_now 5 ex_dialed"
  obtain l where new: "newUDPRelay [127, 0, 0, 1] [127, 0, 0, 1] (newUDPResourceLimiter 2 1)
     (newUDPResourceLimiter 4 2) 1 (\<lambda>_ _. Inr ()) = (Inr ex_relay, l)" using ex_relay_new by blast
  have r: "relay_reachable ex_relay (fst ?c, mset (snd ?c))" by (rule close_now_reachable [OF ex_reachable(1)])
  have c: "r_done (fst ?c)" "snd ?c = [Dialing (D_Install 0) ex_flow]" "open_entry (fst ?c) 0" by code_simp+
  have "\<forall>pc. Closing pc \<in># mset (snd ?c) \<longrightarrow> pc = C_Start" using c(2) by simp
  from relay_close_race [OF new new_limiter_inv new_limiter_inv r c(1) this c(3)] r c(1,3)
  show ?thesis by blast
qed

text \<open>C3: Resource bounds of a running relay. In every reachable state the NAT table has at
  most the configured number of flows, one per key; the number of open sockets is the number of
  open entries; the entries that are open and the dials in progress together stay within the
  per-client and the process-wide NAT limit. And however the relays of the process share them,
  both limiters stay within their maxima: the total of all clients within the process-wide one
  and the count of every client within the per-client one, with the limits set at the start.\<close>

theorem relay_bounds:
  assumes "newUDPRelay clientIP localIP al nl maxNAT listen = (Inr s0, l)"
    and "limiter_inv al" and "limiter_inv nl"
    and "relay_reachable s0 (s, M)"
  shows "int (length (r_table s)) \<le> nat_limit s \<and> distinct (map fst (r_table s)) \<and>
    conns_open s = live s \<and>
    (0 < maxPerClient nl \<longrightarrow> live s + tokens M \<le> maxPerClient nl \<and>
       (\<forall>c. client_count (r_natLimiter s) c \<le> maxPerClient nl)) \<and>
    (0 < maxTotal nl \<longrightarrow> live s + tokens M \<le> maxTotal nl \<and> lim_total (r_natLimiter s) \<le> maxTotal nl \<and>
       (\<forall>C. finite C \<longrightarrow> (\<Sum>c \<in> C. client_count (r_natLimiter s) c) \<le> maxTotal nl)) \<and>
    (0 < maxPerClient al \<longrightarrow> (\<forall>c. client_count (r_associationLimiter s) c \<le> maxPerClient al)) \<and>
    (0 < maxTotal al \<longrightarrow> lim_total (r_associationLimiter s) \<le> maxTotal al \<and>
       (\<forall>C. finite C \<longrightarrow> (\<Sum>c \<in> C. client_count (r_associationLimiter s) c) \<le> maxTotal al))"
proof -
  have inv: "relay_inv (s, M)" using relay_inv_reachable relay_inv_init assms by blast
  then have led: "ledger s (tokens M) (routes_held M)" and lim: "limiter_inv (r_natLimiter s)"
    and alim: "limiter_inv (r_associationLimiter s)"
    by (auto simp: relay_inv_def ledger_inv_def ledger_def assoc_inv_def)
  have cfg: "maxTotal (r_natLimiter s) = maxTotal nl" "maxPerClient (r_natLimiter s) = maxPerClient nl"
    "maxTotal (r_associationLimiter s) = maxTotal al" "maxPerClient (r_associationLimiter s) = maxPerClient al"
    using relay_limits_kept [OF assms(1,4)] by simp_all
  let ?c = "client_count (r_natLimiter s) (r_clientKey s)"
  have "live s + tokens M \<le> int (held (r_natLimiter s) (r_clientKey s))"
    using led by (simp add: ledger_def)
  also have "\<dots> = ?c" using client_count_nonneg [OF lim] by (simp add: held_def)
  finally have le: "live s + tokens M \<le> ?c" .
  then have tot: "live s + tokens M \<le> lim_total (r_natLimiter s)"
    using total_ge_count [OF lim] by (rule order_trans)
  have "nat_table_ok (nat_limit s) (r_table s)" "conns_open s = live s"
    using inv led by (simp_all add: relay_inv_def own_inv_def ledger_def)
  moreover have "0 < maxPerClient nl \<Longrightarrow> live s + tokens M \<le> maxPerClient nl \<and>
       (\<forall>c. client_count (r_natLimiter s) c \<le> maxPerClient nl)"
    using le limiter_limits(2) [OF lim] cfg(2) order_trans by metis
  moreover have "0 < maxTotal nl \<Longrightarrow> live s + tokens M \<le> maxTotal nl \<and> lim_total (r_natLimiter s) \<le> maxTotal nl \<and>
       (\<forall>C. finite C \<longrightarrow> (\<Sum>c \<in> C. client_count (r_natLimiter s) c) \<le> maxTotal nl)"
    using tot limiter_limits(1) [OF lim] cfg(1) counts_within_total [OF lim] order_trans by metis
  moreover have "0 < maxPerClient al \<Longrightarrow> \<forall>c. client_count (r_associationLimiter s) c \<le> maxPerClient al"
    using limiter_limits(2) [OF alim] cfg(4) by simp
  moreover have "0 < maxTotal al \<Longrightarrow> lim_total (r_associationLimiter s) \<le> maxTotal al \<and>
       (\<forall>C. finite C \<longrightarrow> (\<Sum>c \<in> C. client_count (r_associationLimiter s) c) \<le> maxTotal al)"
    using limiter_limits(1) [OF alim] cfg(3) counts_within_total [OF alim] order_trans by metis
  ultimately show ?thesis by (simp add: nat_table_ok_def)
qed

theorem relay_bounds_witness:
  "\<exists>s M. relay_reachable ex_relay (s, M) \<and> length (r_table s) = 1 \<and> conns_open s = live s \<and>
     live s + tokens M \<le> 2"
proof -
  let ?c = "ex_flowing"
  obtain l where new: "newUDPRelay [127, 0, 0, 1] [127, 0, 0, 1] (newUDPResourceLimiter 2 1)
     (newUDPResourceLimiter 4 2) 1 (\<lambda>_ _. Inr ()) = (Inr ex_relay, l)" using ex_relay_new by blast
  have c: "length (r_table (fst ?c)) = 1" "maxPerClient (newUDPResourceLimiter 4 2) = 2" by code_simp+
  show ?thesis
    using relay_bounds [OF new new_limiter_inv new_limiter_inv ex_reachable(2)] ex_reachable(2) c
    by (intro exI [of _ "fst ?c"] exI [of _ "mset (snd ?c)"]) simp
qed

text \<open>One dial per flow. In every reachable state at most one goroutine is dialing for a
  key, it is the one \<open>dialGroup\<close> records, and while it does the table has no entry for the
  key; so the branch of \<open>getOrCreateNAT\<close> for a lost installation race is never taken.\<close>

theorem relay_single_dial:
  assumes "newUDPRelay clientIP localIP al nl maxNAT listen = (Inr s0, l)"
    and "limiter_inv al" and "limiter_inv nl"
    and "relay_reachable s0 (s, M)"
  shows "flights k M = (if k \<in> r_inflight s then 1 else 0) \<and>
    (Dialing (D_Install e) f \<in># M \<longrightarrow> natTable_Load (fl_key f) (r_table s) = None) \<and>
    Dialing (D_Dup e a) f \<notin># M"
proof -
  have "flight_inv s M"
    using relay_inv_reachable relay_inv_init assms by (fastforce simp: relay_inv_def)
  moreover have "Dialing (D_Dup e a) f \<in># M \<Longrightarrow> some_task is_dup M"
    by (auto simp: some_task_def intro: bexI [of _ "Dialing (D_Dup e a) f"])
  moreover have "Dialing (D_Install e) f \<in># M \<Longrightarrow> some_task (dialing_phase (fl_key f)) M"
    by (auto simp: some_task_def intro: bexI [of _ "Dialing (D_Install e) f"])
  ultimately show ?thesis by (auto simp: flight_inv_def natTable_Load_def)
qed

theorem relay_single_dial_witness:
  "\<exists>s M. relay_reachable ex_relay (s, M) \<and> Dialing (D_Install 0) ex_flow \<in># M \<and>
     natTable_Load (fl_key ex_flow) (r_table s) = None"
proof -
  let ?c = "ex_dialed"
  obtain l where new: "newUDPRelay [127, 0, 0, 1] [127, 0, 0, 1] (newUDPResourceLimiter 2 1)
     (newUDPResourceLimiter 4 2) 1 (\<lambda>_ _. Inr ()) = (Inr ex_relay, l)" using ex_relay_new by blast
  have c: "snd ?c = [Dialing (D_Install 0) ex_flow]" by code_simp
  have m: "Dialing (D_Install 0) ex_flow \<in># mset (snd ?c)" using c by simp
  then have "natTable_Load (fl_key ex_flow) (r_table (fst ?c)) = None"
    using relay_single_dial [OF new new_limiter_inv new_limiter_inv ex_reachable(1), of undefined 0 ex_flow]
    by blast
  with m ex_reachable(1) show ?thesis by blast
qed

end
