(* ===== verification/UdpRelayStop.thy ===== *)
theory UdpRelayStop
  imports UdpRelayInv
begin

text \<open>
  Shutdown of a UDP relay (\<open>internal/socks/udp.go\<close>): once \<open>done\<close> is closed, the goroutines of
  \<open>getOrCreateNAT\<close>, \<open>reverseRelay\<close>, \<open>handlePacket\<close> and \<open>Close\<close> all end. A caller of \<open>dialGroup.Do\<close>
  that waits for another one's dial moves only when that dial ends, and a reverse loop moves
  only when its socket has been closed, which makes its read fail.
\<close>

section \<open>Callers that wait\<close>

text \<open>Whoever waits in \<open>dialGroup.Do\<close> waits for a call that is in flight.\<close>

definition wait_inv :: "config \<Rightarrow> bool" where
  "wait_inv c \<longleftrightarrow> (\<forall>f. Waiting f \<in># snd c \<longrightarrow> fl_key f \<in> r_inflight (fst c))"

lemma natEntry_Close_inflight [simp]: "r_inflight (natEntry_Close e s) = r_inflight s"
  by (simp add: natEntry_Close_def split: option.split)

lemma touch_inflight [simp]: "r_inflight (touch e now s) = r_inflight s"
  by (simp add: touch_def)

lemma getOrCreateNAT_inflight:
  assumes "getOrCreateNAT_step ch pc f s = (s', ts, fin)"
  shows "(fin = None \<and> r_inflight s \<subseteq> r_inflight s' \<or>
          (\<exists>res. fin = Some (fl_key f, res)) \<and> r_inflight s' = r_inflight s - {fl_key f} \<and> (\<forall>g. Waiting g \<notin> set ts)) \<and>
    (\<forall>g. Waiting g \<in> set ts \<longrightarrow> fl_key g \<in> r_inflight s')"
  using assms
  by (cases pc) (auto simp: flight_ends_iff alloc_entry_def Let_def
      split: if_splits option.splits sum.splits prod.splits bool.splits)

lemma reverseRelay_inflight:
  "reverseRelay_step ch pc e f s = (s', ts) \<Longrightarrow> r_inflight s' = r_inflight s \<and> (\<forall>g. Waiting g \<notin> set ts)"
  by (cases pc) (auto simp: Let_def split: rev_event.splits if_splits option.splits)

lemma relay_Close_inflight:
  "relay_Close_step pc s = (s', ts) \<Longrightarrow> r_inflight s' = r_inflight s \<and> (\<forall>g. Waiting g \<notin> set ts)"
  by (cases "(pc, s)" rule: relay_Close_step.cases) (auto simp: Let_def natTable_Drain_def split: if_splits)

lemma handlePacket_write_inflight [simp]: "r_inflight (handlePacket_write ch e f s) = r_inflight s"
  by (simp add: handlePacket_write_def split: option.split)

lemma resolve_Waiting: "resolve fin t = Waiting g \<Longrightarrow> t = Waiting g \<and> (\<forall>res. fin \<noteq> Some (fl_key g, res))"
  by (cases "(fin, t)" rule: resolve.cases) (auto split: if_splits option.splits)

lemma wait_inv_run:
  assumes inv: "wait_inv (s, add_mset t M)" and st: "task_step ch t s = (s', ts, fin)"
  shows "wait_inv (s', mset ts + image_mset (resolve fin) M)"
proof -
  have old: "fl_key g \<in> r_inflight s" if "Waiting g \<in># M" for g using inv that by (simp add: wait_inv_def)
  have step: "(fin = None \<and> r_inflight s \<subseteq> r_inflight s' \<or>
      (\<exists>k res. fin = Some (k, res) \<and> r_inflight s' = r_inflight s - {k})) \<and> (\<forall>g. Waiting g \<in> set ts \<longrightarrow> fl_key g \<in> r_inflight s')"
  proof (cases t)
    case (Dialing pc f)
    then show ?thesis using st getOrCreateNAT_inflight [of ch pc f s s' ts fin] by auto
  next
    case (Waiting f)
    then show ?thesis using st inv by (auto simp: wait_inv_def)
  next
    case (Sending e f)
    then show ?thesis using st by auto
  next
    case (Reversing pc e f)
    then show ?thesis using st reverseRelay_inflight [of ch pc e f s] by (auto split: prod.splits)
  next
    case (Closing pc)
    then show ?thesis using st relay_Close_inflight [of pc s] by (auto split: prod.splits)
  next
    case Exited
    then show ?thesis using st by auto
  qed
  have "fl_key g \<in> r_inflight s'" if "Waiting g \<in># mset ts + image_mset (resolve fin) M" for g
  proof (cases "Waiting g \<in> set ts")
    case False
    with that obtain u where "u \<in># M" "resolve fin u = Waiting g" by (auto simp: eq_commute)
    with resolve_Waiting old have "fl_key g \<in> r_inflight s" "\<forall>res. fin \<noteq> Some (fl_key g, res)" by blast+
    with step show ?thesis by auto
  qed (use step in blast)
  then show ?thesis by (simp add: wait_inv_def)
qed

lemma wait_inv_step: "relay_step c c' \<Longrightarrow> wait_inv c \<Longrightarrow> wait_inv c'"
proof (induction rule: relay_step.induct)
  case (Run ch t s s' ts fin M)
  then show ?case by (blast intro: wait_inv_run)
qed (auto simp: wait_inv_def)

lemma wait_inv_init: "wait_inv (s, {#})"
  by (simp add: wait_inv_def)

lemma wait_inv_reachable: "relay_reachable s0 c \<Longrightarrow> wait_inv c"
  by (induction rule: relay_reachable.induct) (blast intro: wait_inv_init wait_inv_step)+

section \<open>Steps of a relay that stops\<close>

definition can_run :: "'c choice \<Rightarrow> relay \<Rightarrow> task \<Rightarrow> bool" where
  "can_run ch s t =
     (case t of
        Waiting _ \<Rightarrow> False
      | Reversing R_Loop eid _ \<Rightarrow> \<not> open_entry s eid \<and> (case ch_event ch of RevErr _ \<Rightarrow> True | _ \<Rightarrow> False)
      | _ \<Rightarrow> True)"

inductive relay_stop_step :: "config \<Rightarrow> config \<Rightarrow> bool" where
  Stop_run: "task_step (ch :: unit choice) t s = (s', ts, fin) \<Longrightarrow> choice_ok ch s \<Longrightarrow> can_run ch s t \<Longrightarrow>
    relay_stop_step (s, add_mset t M) (s', mset ts + image_mset (resolve fin) M)"

lemma relay_stop_is_step: "relay_stop_step c c' \<Longrightarrow> relay_step c c'"
  by (induction rule: relay_stop_step.induct) (rule Run)

fun dial_work :: "dial_pc \<Rightarrow> nat" where
  "dial_work D_Start = 15" | "dial_work D_Find = 14" | "dial_work D_Join = 13" | "dial_work D_Load = 12"
| "dial_work D_Route = 11" | "dial_work D_Limit = 10" | "dial_work D_Dial = 9" | "dial_work (D_Install e) = 8"
| "dial_work (D_Evict e old) = 6" | "dial_work (D_Dup e a) = 6" | "dial_work (D_Recheck e) = 5"
| "dial_work (D_Delete e) = 4" | "dial_work (D_Close e) = 3"

fun rev_work :: "rev_pc \<Rightarrow> nat" where "rev_work R_Loop = 3" | "rev_work R_Close = 2" | "rev_work R_Delete = 1"

fun close_work :: "close_pc \<Rightarrow> nat" where
  "close_work C_Start = 6" | "close_work C_Sock = 5" | "close_work C_Drain = 4"
| "close_work (C_Entries es) = 2 + length es" | "close_work C_Release = 1"

fun task_work :: "task \<Rightarrow> nat" where
  "task_work (Dialing pc f) = dial_work pc" | "task_work (Waiting f) = 2" | "task_work (Sending e f) = 1"
| "task_work (Reversing pc e f) = rev_work pc" | "task_work (Closing pc) = close_work pc" | "task_work Exited = 1"

definition relay_work :: "config \<Rightarrow> nat" where
  "relay_work c = length (r_table (fst c)) + (\<Sum>t \<in># snd c. task_work t)"

lemma natEntry_Close_table [simp]: "r_table (natEntry_Close e s) = r_table s"
  by (simp add: natEntry_Close_def split: option.split)

lemma touch_table [simp]: "r_table (touch e now s) = r_table s"
  by (simp add: touch_def)

lemma length_DeleteIf: "length (snd (natTable_DeleteIf k e t)) \<le> length t"
  using length_delete by (simp add: natTable_DeleteIf_def)

lemma length_Install: "length (snd (natTable_Install seen order k e lim t)) \<le> Suc (length t)"
  using length_delete le_Suc_eq by (auto simp: natTable_Install_def split: option.split prod.split)

lemma length_Install':
  "natTable_Install seen order k e lim t = (x, t') \<Longrightarrow> length t' \<le> Suc (length t)"
  using length_Install [of seen order k e lim t] by simp

lemma resolve_work: "task_work (resolve fin t) \<le> task_work t"
  using resolve_eq [of fin t] by auto

lemma resolve_work_sum: "(\<Sum>t \<in># image_mset (resolve fin) M. task_work t) \<le> (\<Sum>t \<in># M. task_work t)"
proof (induction M)
  case (add t M)
  then show ?case using resolve_work [of fin t] by simp
qed simp

lemma getOrCreateNAT_work:
  assumes "getOrCreateNAT_step ch pc f s = (s', ts, fin)" and "r_done s"
  shows "length (r_table s') + sum_list (map task_work ts) < length (r_table s) + dial_work pc"
proof (cases pc)
  case (D_Install e)
  with assms(1) obtain x t' where "natTable_Install (last_seen s) (ch_order ch) (fl_key f) e
      (orDefault (r_maxNATEntries s) defaultMaxNATEntries) (r_table s) = (x, t')" "r_table s' = t'"
      "\<exists>pc'. ts = [Dialing pc' f] \<and> dial_work pc' = 6"
    by (auto simp: Let_def split: prod.splits if_splits)
  with length_Install' D_Install show ?thesis by fastforce
next
  case (D_Delete e)
  with assms length_DeleteIf [of "fl_key f" e "r_table s"] show ?thesis by auto
next
  case (D_Dial)
  with assms show ?thesis
    by (auto simp: flight_ends_iff alloc_entry_def Let_def split: sum.splits prod.splits)
qed (use assms in \<open>auto simp: flight_ends_iff split: if_splits option.splits sum.splits prod.splits bool.splits\<close>)

lemma reverseRelay_work:
  assumes "reverseRelay_step ch pc e f s = (s', ts)" and "r_done s" and "can_run ch s (Reversing pc e f)"
  shows "length (r_table s') + sum_list (map task_work ts) < length (r_table s) + rev_work pc"
  using assms length_DeleteIf [of "fl_key f" e "r_table s"]
  by (cases pc) (auto simp: Let_def can_run_def split: rev_event.splits)

lemma relay_Close_work:
  assumes "relay_Close_step pc s = (s', ts)" and "r_done s" and "r_once s"
  shows "length (r_table s') + sum_list (map task_work ts) < length (r_table s) + close_work pc"
  using assms by (cases "(pc, s)" rule: relay_Close_step.cases) (auto simp: Let_def natTable_Drain_def split: if_splits)

lemma handlePacket_write_table [simp]: "r_table (handlePacket_write ch e f s) = r_table s"
  by (simp add: handlePacket_write_def split: option.split)

lemma task_step_work:
  assumes st: "task_step ch t s = (s', ts, fin)" and "r_done s" and "r_once s" and run: "can_run ch s t"
  shows "length (r_table s') + sum_list (map task_work ts) < length (r_table s) + task_work t"
proof (cases t)
  case (Dialing pc f)
  then show ?thesis using st getOrCreateNAT_work assms(2) by auto
next
  case (Reversing pc e f)
  then show ?thesis using st reverseRelay_work [of ch pc e f s] assms(2) run by (auto split: prod.splits)
next
  case (Closing pc)
  then show ?thesis using st relay_Close_work assms(2,3) by (auto split: prod.splits)
qed (use st run in \<open>auto simp: can_run_def\<close>)

lemma relay_stop_work:
  "relay_stop_step c c' \<Longrightarrow> r_done (fst c) \<Longrightarrow> r_once (fst c) \<Longrightarrow> relay_work c' < relay_work c"
proof (induction rule: relay_stop_step.induct)
  case (Stop_run ch t s s' ts fin M)
  have "(\<Sum>t \<in># mset ts. task_work t) = sum_list (map task_work ts)"
    by (simp add: sum_mset_sum_list flip: mset_map)
  with task_step_work [OF Stop_run(1)] Stop_run resolve_work_sum [of fin M] show ?case by (simp add: relay_work_def)
qed

section \<open>Progress\<close>

definition relay_stopping :: "config \<Rightarrow> bool" where
  "relay_stopping c \<longleftrightarrow> relay_inv c \<and> wait_inv c \<and> r_done (fst c)"

lemma some_choice: "\<exists>ch :: unit choice. choice_ok ch s \<and> (\<exists>e. ch_event ch = RevErr e)"
proof -
  have "choice_ok \<lparr>ch_route = undefined, ch_dial = undefined, ch_now = 0, ch_order = r_table s, ch_write = None,
      ch_event = RevErr ConnClosed, ch_buf = []\<rparr> s" by (simp add: choice_ok_def)
  then show ?thesis by (metis choice.select_convs(6))
qed

lemma runnable:
  assumes "t \<in># M" and "\<forall>f. t \<noteq> Waiting f" and "\<forall>e f. t = Reversing R_Loop e f \<longrightarrow> \<not> open_entry s e"
  shows "\<exists>c'. relay_stop_step (s, M) c'"
proof -
  obtain ch :: "unit choice" where ch: "choice_ok ch s" "\<exists>e. ch_event ch = RevErr e" using some_choice by blast
  obtain M' where M: "M = add_mset t M'" using assms(1) by (blast dest: multi_member_split)
  obtain s' ts fin where st: "task_step ch t s = (s', ts, fin)" by (cases "task_step ch t s")
  have "can_run ch s t" using assms(2,3) ch(2) by (cases t) (auto simp: can_run_def split: rev_pc.split)
  from Stop_run [OF st ch(1) this] M show ?thesis by blast
qed

lemma relay_stop_progress:
  assumes inv: "relay_stopping (s, M)" and "M \<noteq> {#}"
  shows "\<exists>c'. relay_stop_step (s, M) c'"
proof (rule ccontr)
  assume none: "\<nexists>c'. relay_stop_step (s, M) c'"
  have stuck: "(\<exists>f. t = Waiting f) \<or> (\<exists>e f. t = Reversing R_Loop e f \<and> open_entry s e)" if "t \<in># M" for t
    using runnable [OF that] none by blast
  have own: "own_inv s M" and fl: "flight_inv s M" and d: "r_done s" and w: "wait_inv (s, M)"
    using inv by (auto simp: relay_stopping_def relay_inv_def)
  have no: "\<not> some_task P M" if "\<And>f. \<not> P (Waiting f)" "\<And>e f. \<not> P (Reversing R_Loop e f)" for P
    using stuck that by (auto simp: some_task_def)
  have "\<not> open_entry s e" for e
  proof
    assume "open_entry s e"
    then have "e \<in> snd ` set (r_table s)" using own no [of "will_close e"] no [of "dialed e"] by (auto simp: own_inv_def owned_def)
    then obtain k where "(k, e) \<in> set (r_table s)" by auto
    moreover have "\<not> some_task before_drain M" by (rule no) simp_all
    ultimately have "some_task (settles (k, e)) M" using own d by (auto simp: own_inv_def settled_def)
    then show False using no [of "settles (k, e)"] by simp
  qed
  with stuck have wait: "\<exists>f. t = Waiting f" if "t \<in># M" for t using that by blast
  from assms(2) obtain t where "t \<in># M" by blast
  with wait obtain f where "Waiting f \<in># M" by blast
  then have "flights (fl_key f) M = 1" using w fl by (auto simp: wait_inv_def flight_inv_def)
  moreover have "flights (fl_key f) M = 0" unfolding flights_def
    using wait by (intro sum_mset.neutral) fastforce
  ultimately show False by simp
qed

lemma task_step_done:
  assumes st: "task_step ch t s = (s', ts, fin)" and "r_done s"
  shows "r_done s'"
proof (cases t)
  case (Dialing pc f)
  then show ?thesis using st getOrCreateNAT_assoc_fields(8) [of ch pc f s s' ts fin] assms(2) by simp
next
  case (Sending e f)
  then show ?thesis using st assms(2) by (auto simp: handlePacket_write_def split: option.splits)
next
  case (Reversing pc e f)
  then show ?thesis using st assms(2)
    by (cases pc) (auto simp: Let_def split: prod.splits rev_event.splits if_splits option.splits)
next
  case (Closing pc)
  then show ?thesis using st assms(2)
    by (cases "(pc, s)" rule: relay_Close_step.cases) (auto simp: Let_def natTable_Drain_def split: prod.splits if_splits)
qed (use st assms(2) in auto)

interpretation relay_shutdown: draining relay_stop_step relay_stopping "\<lambda>c. snd c = {#}" relay_work
proof
  show "relay_stopping c \<Longrightarrow> relay_stop_step c c' \<Longrightarrow> relay_stopping c'" for c c'
  proof -
    assume s: "relay_stopping c" and st: "relay_stop_step c c'"
    have "r_done (fst c')" using st s
      by (induction rule: relay_stop_step.induct) (auto simp: relay_stopping_def dest: task_step_done)
    with s show "relay_stopping c'"
      using relay_inv_step [OF relay_stop_is_step [OF st]] wait_inv_step [OF relay_stop_is_step [OF st]]
      by (simp add: relay_stopping_def)
  qed
  show "relay_stopping c \<Longrightarrow> relay_stop_step c c' \<Longrightarrow> relay_work c' < relay_work c" for c c'
    using relay_stop_work by (auto simp: relay_stopping_def relay_inv_def own_inv_def)
  show "relay_stopping c \<Longrightarrow> snd c \<noteq> {#} \<Longrightarrow> \<exists>c'. relay_stop_step c c'" for c
    using relay_stop_progress [of "fst c" "snd c"] by simp
qed

section \<open>Property\<close>

lemma relay_stays_done: "relay_stop_step\<^sup>*\<^sup>* c c' \<Longrightarrow> r_done (fst c) \<Longrightarrow> r_done (fst c')"
  by (induction rule: rtranclp_induct) (auto elim!: relay_stop_step.cases dest: task_step_done)

lemma relay_stops_reachable: "relay_stop_step\<^sup>*\<^sup>* c c' \<Longrightarrow> relay_reachable s0 c \<Longrightarrow> relay_reachable s0 c'"
  by (induction rule: rtranclp_induct) (auto intro: Step relay_stop_is_step)

text \<open>
  C2: Closing a UDP relay terminates and releases everything. From every reachable state of a
  relay whose \<open>done\<close> channel is closed, whatever dials, relays, evictions and closes are under
  way and in whatever order they run on, the number of steps is bounded by a measure of the
  work under way; a schedule that cannot be continued has ended every goroutine, none can
  deadlock on another's dial or on its socket, and at that end the table is empty, every
  socket and route is closed and both limiters have all slots of this relay back.
\<close>

theorem relay_stops:
  assumes "newUDPRelay clientIP localIP al nl maxNAT listen = (Inr s0, l)" and "limiter_inv al" and "limiter_inv nl"
    and "relay_reachable s0 (s, M)" and "r_done s" and "(relay_stop_step ^^ n) (s, M) c'"
  shows "n \<le> relay_work (s, M) \<and> (snd c' = {#} \<or> (\<exists>c''. relay_stop_step c' c'')) \<and>
    (\<exists>s''. relay_stop_step\<^sup>*\<^sup>* c' (s'', {#}) \<and> r_table s'' = [] \<and> conns_open s'' = 0 \<and> routes_open s'' = 0 \<and>
       held (r_natLimiter s'') = env_nat s'' \<and> held (r_associationLimiter s'') = env_assoc s'')"
proof -
  have "relay_inv (s, M)" using relay_inv_reachable relay_inv_init assms(1-4) by blast
  then have c: "relay_stopping (s, M)" using wait_inv_reachable [OF assms(4)] assms(5) by (simp add: relay_stopping_def)
  note d = relay_shutdown.drains [OF this order_refl assms(6)]
  then obtain s'' where s'': "relay_stop_step\<^sup>*\<^sup>* c' (s'', {#})" by (metis prod.collapse)
  have all: "relay_stop_step\<^sup>*\<^sup>* (s, M) (s'', {#})" using s'' relpowp_imp_rtranclp [OF assms(6)] by simp
  have "r_done s''" using relay_stays_done [OF all] assms(5) by simp
  from relay_idle_released [OF assms(1-3) relay_stops_reachable [OF all assms(4)] this]
  show ?thesis using d s'' by auto
qed

theorem relay_stops_witness:
  "\<exists>s. relay_stop_step\<^sup>*\<^sup>* (fst (close_now 5 ex_dialed), mset (snd (close_now 5 ex_dialed))) (s, {#}) \<and> conns_open s = 0 \<and> r_table s = []"
proof -
  let ?c = "close_now 5 ex_dialed"
  obtain l where new: "newUDPRelay [127, 0, 0, 1] [127, 0, 0, 1] (newUDPResourceLimiter 2 1)
     (newUDPResourceLimiter 4 2) 1 (\<lambda>_ _. Inr ()) = (Inr ex_relay, l)" using ex_relay_new by blast
  have r: "relay_reachable ex_relay (fst ?c, mset (snd ?c))" by (rule close_now_reachable [OF ex_reachable(1)])
  have d: "r_done (fst ?c)" by code_simp
  from relay_stops [OF new new_limiter_inv new_limiter_inv r d, of 0 "(fst ?c, mset (snd ?c))"] show ?thesis by auto
qed

end
