(* ===== verification/UdpRelayFlow.thy ===== *)
theory UdpRelayFlow
  imports UdpRelayInv
begin

text \<open>
  Whom the relay of \<open>UdpRelay\<close> serves: every datagram it writes, in either direction, belongs to
  a flow that began with a datagram of the associated client, goes through the entry dialed for
  that flow, and on the way back comes from the entry's own target.
\<close>

section \<open>Flows and the entries made for them\<close>












section \<open>Preservation\<close>

























section \<open>Property\<close>



end
