(* ===== verification/SocksServer.thy ===== *)
theory SocksServer
  imports UdpRelay
begin

text \<open>
  \<open>internal/socks/socks.go\<close> and the command handlers of \<open>request.go\<close>: one client
  connection from its version byte to the end of its command, over the process-wide routing
  state and UDP settings. What an egress does with a CONNECT (the local address it reports and
  the bytes it relays) and what the operating system answers to a UDP bind are arguments.
\<close>

section \<open>The world of a connection\<close>

record world =
  w_router :: router_state
  w_udp :: udp_globals

text \<open>
  A run of \<open>route.Proxy\<close>: what is received from \<open>localAddr\<close> (\<open>None\<close> when the channel is
  closed without a value), the chunks it writes to the client, and how many of them it has
  written by the time the goroutine that answers the client writes its reply. The two
  goroutines synchronise on \<open>localAddr\<close> only.
\<close>

record proxy_run =
  px_local :: "string option"
  px_chunks :: "bytes list"
  px_early :: nat

text \<open>What ends a UDP association: the control connection, the server, or the relay itself.\<close>

datatype associate_end = ControlClosed | ServerDone | RelayReturned "goerror option"

record 'c server_env =
  se_sha :: "bytes \<Rightarrow> bytes"
  se_credentials :: StaticCredentials
  se_route :: route_env
  se_newClient :: "'c result"
  se_proxy :: "'c transport \<Rightarrow> string \<Rightarrow> proxy_run"
  se_listen :: "string \<Rightarrow> string \<Rightarrow> unit result"
  se_bound :: udpaddr \<comment> \<open>the relay socket's own address\<close>
  se_local :: net_IP \<comment> \<open>local side of the control connection, nil when it is not TCP\<close>
  se_remote :: "(net_IP \<times> int) option" \<comment> \<open>remote side, when it is TCP\<close>
  se_end :: associate_end

type_synonym 'a srv = "world \<Rightarrow> conn \<Rightarrow> 'a result \<times> world \<times> conn"

definition lift_io :: "'a io \<Rightarrow> 'a srv" where
  "lift_io m w c = (case m c of (r, c') \<Rightarrow> (r, w, c'))"

definition srv_return :: "'a \<Rightarrow> 'a srv" where "srv_return x w c = (Inr x, w, c)"
definition srv_fail :: "goerror \<Rightarrow> 'a srv" where "srv_fail e w c = (Inl e, w, c)"

definition srv_bind :: "'a srv \<Rightarrow> ('a \<Rightarrow> 'b srv) \<Rightarrow> 'b srv" where
  "srv_bind m f w c = (case m w c of (Inl e, w', c') \<Rightarrow> (Inl e, w', c') | (Inr x, w', c') \<Rightarrow> f x w' c')"

definition srv_map_err :: "(goerror \<Rightarrow> goerror) \<Rightarrow> 'a srv \<Rightarrow> 'a srv" where
  "srv_map_err g m w c = (case m w c of (r, w', c') \<Rightarrow> (map_sum g (\<lambda>x. x) r, w', c'))"

definition reply_or_fail :: "byte \<Rightarrow> AddrSpec option \<Rightarrow> unit srv" where
  "reply_or_fail code addr = lift_io (io_map_err (\<lambda>_. Errorf ''failed to send reply'') (sendReply code addr))"

text \<open>Bytes the egress relays to the client; a failing write ends the copy.\<close>

fun relay_chunks :: "bytes list \<Rightarrow> conn \<Rightarrow> conn" where
  "relay_chunks [] c = c"
| "relay_chunks (b # bs) c = (case Write b c of (Inl _, c') \<Rightarrow> c' | (Inr _, c') \<Rightarrow> relay_chunks bs c')"

section \<open>Commands (request.go)\<close>

definition connect_host :: "AddrSpec \<Rightarrow> string" where
  "connect_host d = (if as_FQDN d = [] then IP_String (as_IP d) else as_FQDN d)"

text \<open>
  The goroutine that answers a CONNECT: the reply it decides to send, if any, and whether it
  ends with an error.
\<close>

definition connect_reply :: "string option \<Rightarrow> (byte \<times> AddrSpec option) option" where
  "connect_reply local =
     (case local of
        None \<Rightarrow> Some (networkUnreachable, None)
      | Some l \<Rightarrow>
          if l = [] then Some (networkUnreachable, None)
          else case SplitHostPort l of
              Inl e \<Rightarrow> None
            | Inr (ip, port) \<Rightarrow>
                Some (successReply, Some \<lparr>as_FQDN = [],
                   as_IP = (case net_ParseIP ip of None \<Rightarrow> [] | Some b \<Rightarrow> b), as_Port = port\<rparr>))"

definition handleConnect :: "'c server_env \<Rightarrow> Request \<Rightarrow> unit srv" where
  "handleConnect env req w c =
     (let host = connect_host (DestAddr req) in
      case GetRoute (se_route env) (se_newClient env) host (w_router w) of
        (Inl e, rs) \<Rightarrow> reply_or_fail ruleFailure None (w\<lparr>w_router := rs\<rparr>) c
      | (Inr route, rs) \<Rightarrow>
          let addr = net_JoinHostPort host (Itoa (unat (as_Port (DestAddr req))));
              px = se_proxy env route addr;
              c1 = relay_chunks (take (px_early px) (px_chunks px)) c;
              c2 = (case connect_reply (px_local px) of
                      None \<Rightarrow> c1
                    | Some (code, bind) \<Rightarrow> snd (sendReply code bind c1));
              c3 = relay_chunks (drop (px_early px) (px_chunks px)) c2
          in (Inr (), w\<lparr>w_router := rs\<rparr>, c3))"

definition handleBind :: "unit srv" where
  "handleBind = reply_or_fail commandNotSupported None"

text \<open>
  \<open>relay.Close\<close> on a relay of the process: the relay holds pointers to the shared limiters, so it
  works on their present counts and leaves its changes there.
\<close>

definition close_relay :: "relay \<Rightarrow> world \<Rightarrow> relay \<times> world" where
  "close_relay relay w =
     (let relay' = relay_Close (relay\<lparr>r_associationLimiter := udpAssociationLimiter (w_udp w),
                                      r_natLimiter := udpNATLimiter (w_udp w)\<rparr>)
      in (relay', w\<lparr>w_udp := (w_udp w)\<lparr>udpAssociationLimiter := r_associationLimiter relay',
                                       udpNATLimiter := r_natLimiter relay'\<rparr>\<rparr>))"

text \<open>
  The end of \<open>relay.Run\<close> is its deferred \<open>Close\<close>. The \<open>select\<close> of \<open>handleAssociate\<close>: on the end of
  the control connection or of the server the handler closes the relay and then waits for \<open>Run\<close>
  to return; otherwise \<open>Run\<close> has returned by itself. What the goroutines of the relay do in
  between is the step relation of \<open>UdpRelay\<close>; apart from \<open>Close\<close> they do not touch the slot.
\<close>

definition Run_returns :: "relay \<Rightarrow> world \<Rightarrow> relay \<times> world" where
  "Run_returns relay w = close_relay relay w"

definition run_association :: "associate_end \<Rightarrow> relay \<Rightarrow> world \<Rightarrow> world" where
  "run_association how relay w =
     (case how of
        ControlClosed \<Rightarrow> (case close_relay relay w of (relay1, w1) \<Rightarrow> snd (Run_returns relay1 w1))
      | ServerDone \<Rightarrow> (case close_relay relay w of (relay1, w1) \<Rightarrow> snd (Run_returns relay1 w1))
      | RelayReturned err \<Rightarrow> snd (Run_returns relay w))"

definition associate_bind :: "udpaddr \<Rightarrow> net_IP \<Rightarrow> AddrSpec" where
  "associate_bind relayAddr localIP =
     \<lparr>as_FQDN = [],
      as_IP = (if IP_IsUnspecified (ua_IP relayAddr) \<and> localIP \<noteq> [] then localIP else ua_IP relayAddr),
      as_Port = word_of_int (ua_Port relayAddr)\<rparr>"

definition handleAssociate :: "'c server_env \<Rightarrow> Request \<Rightarrow> unit srv" where
  "handleAssociate env req w c =
     (let clientIP = (case RemoteAddr req of None \<Rightarrow> [] | Some a \<Rightarrow> as_IP a); localIP = se_local env in
      if udpDisabled (w_udp w) \<or> \<not> AnyRouteSupportsUDP (w_router w)
      then reply_or_fail commandNotSupported None w c
      else case NewUDPRelay clientIP localIP (w_udp w) (se_listen env) of
          (Inl e, g) \<Rightarrow>
            srv_bind (reply_or_fail (if errors_Is e ErrUDPDisabled then commandNotSupported else serverFailure) None)
              (\<lambda>_. srv_fail (Wrap ''socks5: udp associate'' e)) (w\<lparr>w_udp := g\<rparr>) c
        | (Inr relay, g) \<Rightarrow>
            let bind = associate_bind (se_bound env) localIP; w1 = w\<lparr>w_udp := g\<rparr>
            in if as_IP bind = [] \<or> IP_IsUnspecified (as_IP bind) then
                 srv_bind (reply_or_fail serverFailure None)
                   (\<lambda>_. srv_fail (Errorf ''socks5: udp associate: relay bound to an unusable address''))
                   (snd (close_relay relay w1)) c
               else case reply_or_fail successReply (Some bind) w1 c of
                   (Inl e, w2, c') \<Rightarrow> (Inl e, snd (close_relay relay w2), c')
                 | (Inr _, w2, c') \<Rightarrow> (Inr (), run_association (se_end env) relay w2, c'))"

definition handleRequest :: "'c server_env \<Rightarrow> Request \<Rightarrow> unit srv" where
  "handleRequest env req =
     (if Command req = ConnectCommand then handleConnect env req
      else if Command req = BindCommand then handleBind
      else if Command req = AssociateCommand then handleAssociate env req
      else srv_bind (reply_or_fail commandNotSupported None) (\<lambda>_. srv_fail (Errorf ''unsupported command'')))"

section \<open>A connection (socks.go)\<close>

definition read_request :: "Request srv" where
  "read_request w c =
     (case NewRequest c of
        (Inr req, c') \<Rightarrow> (Inr req, w, c')
      | (Inl e, c') \<Rightarrow>
          if errors_Is e ErrUnrecognizedAddrType then
            (case sendReply addrTypeNotSupported None c' of
               (Inl e2, c2) \<Rightarrow> (Inl (Wrap ''send reply'' e2), w, c2)
             | (Inr _, c2) \<Rightarrow> (Inl (Wrap ''read request'' e), w, c2))
          else (Inl (Wrap ''read request'' e), w, c'))"

definition with_remote :: "(net_IP \<times> int) option \<Rightarrow> Request \<Rightarrow> Request result" where
  "with_remote remote req =
     (case remote of
        None \<Rightarrow> Inr req
      | Some (ip, port) \<Rightarrow>
          if port < 0 \<or> 65535 < port then Inl (Wrap ''invalid port'' (Sentinel ErrIllegalRequest))
          else Inr (req\<lparr>RemoteAddr := Some \<lparr>as_FQDN = [], as_IP = ip, as_Port = word_of_int port\<rparr>\<rparr>))"

definition ServeConn :: "'c server_env \<Rightarrow> unit srv" where
  "ServeConn env =
     srv_bind (lift_io (io_map_err (Wrap ''read version'') (ReadFull 1))) (\<lambda>version.
     if version ! 0 \<noteq> socks5Version then srv_fail (Errorf ''unsupported version'')
     else
     srv_bind (lift_io (io_map_err (Wrap ''authenticate'') (authenticate (se_sha env) (se_credentials env)))) (\<lambda>ctx.
     srv_bind read_request (\<lambda>req.
     case with_remote (se_remote env) (req\<lparr>req_AuthContext := Some ctx\<rparr>) of
       Inl e \<Rightarrow> srv_fail e
     | Inr req' \<Rightarrow> srv_map_err (Wrap ''handle request'') (handleRequest env req'))))"

section \<open>Replies\<close>

lemma sendReply_ok:
  assumes "reply_message code addr = Inr msg" and "wfail c = (\<lambda>_. None)"
  shows "sendReply code addr c = (Inr (), c\<lparr>outs := outs c @ [msg], wcount := Suc (wcount c)\<rparr>)"
  using assms by (simp add: sendReply_def Write_def)

lemma reply_or_fail_ok:
  assumes "reply_message code addr = Inr msg" and "wfail c = (\<lambda>_. None)"
  shows "reply_or_fail code addr w c = (Inr (), w, c\<lparr>outs := outs c @ [msg], wcount := Suc (wcount c)\<rparr>)"
  using sendReply_ok [OF assms] by (simp add: reply_or_fail_def lift_io_def io_map_err_def)

lemma reply_message_None: "\<exists>msg. reply_message code None = Inr msg"
  by (simp add: reply_message_def Let_def)

lemma reply_message_IP: "length (as_IP a) \<in> {4, 16} \<Longrightarrow> \<exists>msg. reply_message code (Some a) = Inr msg"
  by (auto simp: reply_message_def IP_To16_def Let_def split: option.split)

lemma relay_chunks_ok:
  "wfail c = (\<lambda>_. None) \<Longrightarrow> outs (relay_chunks bs c) = outs c @ bs \<and> wfail (relay_chunks bs c) = (\<lambda>_. None)"
  by (induction bs arbitrary: c) (auto simp: Write_def)

text \<open>The replies as RFC 1928 has them: a refusal, and a grant that names an IP address.\<close>

definition refusal :: "byte \<Rightarrow> bytes" where
  "refusal code = [5, code, 0, 1, 0, 0, 0, 0, 0, 0]"

definition grant :: "net_IP \<Rightarrow> u16 \<Rightarrow> bytes" where
  "grant ip port =
     [5, 0, 0] @ (case IP_To4 ip of Some v4 \<Rightarrow> 1 # v4 | None \<Rightarrow> 4 # ip) @ [hi_byte port, lo_byte port]"

lemma hi_lo_zero: "hi_byte 0 = 0" "lo_byte 0 = 0"
  by code_simp+

lemma reply_message_refusal: "reply_message code None = Inr (refusal code)"
  by (simp add: reply_message_def refusal_def Let_def hi_lo_zero)

lemma reply_message_grant:
  assumes "length (as_IP a) \<in> {4, 16}"
  shows "reply_message successReply (Some a) = Inr (grant (as_IP a) (as_Port a))"
  using assms by (auto simp: reply_message_def grant_def Let_def IP_To4_def IP_To16_def)

lemma refused:
  assumes "reply_or_fail code None w c = (r, w', c')" and "wfail c = (\<lambda>_. None)"
  shows "r = Inr () \<and> w' = w \<and> outs c' = outs c @ [refusal code]"
  using assms reply_or_fail_ok [OF reply_message_refusal assms(2)] by auto

lemma refused_then_fail:
  assumes "srv_bind (reply_or_fail code None) (\<lambda>_. srv_fail e) w c = (r, w', c')" and "wfail c = (\<lambda>_. None)"
  shows "r = Inl e \<and> w' = w \<and> outs c' = outs c @ [refusal code]"
  using assms reply_or_fail_ok [OF reply_message_refusal assms(2), of code w]
  by (auto simp: srv_bind_def srv_fail_def)

text \<open>
  The reply a CONNECT is due for what its egress announced: none for an address that is not a
  plain IP literal and a port.
\<close>

definition connect_replies :: "string option \<Rightarrow> bytes list" where
  "connect_replies local =
     (case local of
        None \<Rightarrow> [refusal networkUnreachable]
      | Some l \<Rightarrow>
          if l = [] then [refusal networkUnreachable]
          else case SplitHostPort l of
              Inl _ \<Rightarrow> []
            | Inr (ip, port) \<Rightarrow> (case net_ParseIP ip of None \<Rightarrow> [] | Some b \<Rightarrow> [grant b port]))"

lemma connect_reply_sent:
  assumes "wfail c = (\<lambda>_. None)"
    and c'_def: "c' = (case connect_reply l of None \<Rightarrow> c | Some (code, bind) \<Rightarrow> snd (sendReply code bind c))"
  shows "outs c' = outs c @ connect_replies l \<and> wfail c' = (\<lambda>_. None)"
proof -
  consider "l = None \<or> l = Some []" | s e where "l = Some s" "s \<noteq> []" "SplitHostPort s = Inl e"
    | s ip port where "l = Some s" "s \<noteq> []" "SplitHostPort s = Inr (ip, port)" "net_ParseIP ip = None"
    | s ip port b where "l = Some s" "s \<noteq> []" "SplitHostPort s = Inr (ip, port)" "net_ParseIP ip = Some b"
    by (metis option.exhaust sum.exhaust surj_pair)
  then show ?thesis
  proof cases
    case 1
    then show ?thesis using sendReply_ok [OF reply_message_refusal assms(1)] assms(1)
      by (auto simp: c'_def connect_reply_def connect_replies_def)
  next
    case 2
    then show ?thesis using assms(1) by (simp add: c'_def connect_reply_def connect_replies_def)
  next
    case 3
    have "reply_message successReply (Some \<lparr>as_FQDN = [], as_IP = [], as_Port = port\<rparr>) =
        Inl (Errorf ''failed to format address'')" by (simp add: reply_message_def Let_def)
    with 3 show ?thesis using assms(1)
      by (simp add: c'_def connect_reply_def connect_replies_def sendReply_def io_fail_def)
  next
    case 4
    let ?a = "\<lparr>as_FQDN = [], as_IP = b, as_Port = port\<rparr>"
    have "reply_message successReply (Some ?a) = Inr (grant b port)"
      using reply_message_grant [of ?a] net_ParseIP_length [OF 4(4)] by simp
    with 4 show ?thesis using sendReply_ok [of successReply "Some ?a" "grant b port" c] assms(1)
      by (simp add: c'_def connect_reply_def connect_replies_def)
  qed
qed

lemma handleConnect_outcome:
  assumes "handleConnect env req w c = (r, w', c')" and w: "wfail c = (\<lambda>_. None)"
  shows "r = Inr () \<and>
    (case GetRoute (se_route env) (se_newClient env) (connect_host (DestAddr req)) (w_router w) of
       (Inl e, rs) \<Rightarrow> w' = w\<lparr>w_router := rs\<rparr> \<and> outs c' = outs c @ [refusal ruleFailure]
     | (Inr route, rs) \<Rightarrow> w' = w\<lparr>w_router := rs\<rparr> \<and>
        (\<exists>px. px = se_proxy env route (net_JoinHostPort (connect_host (DestAddr req)) (Itoa (unat (as_Port (DestAddr req))))) \<and>
          outs c' = outs c @ take (px_early px) (px_chunks px) @ connect_replies (px_local px) @
            drop (px_early px) (px_chunks px)))"
proof -
  obtain res rs where g: "GetRoute (se_route env) (se_newClient env) (connect_host (DestAddr req)) (w_router w) = (res, rs)"
    by force
  show ?thesis
  proof (cases res)
    case (Inl e)
    then have "reply_or_fail ruleFailure None (w\<lparr>w_router := rs\<rparr>) c = (r, w', c')"
      using assms(1) g by (simp add: handleConnect_def Let_def)
    from refused [OF this w] show ?thesis using g Inl by simp
  next
    case (Inr route)
    let ?px = "se_proxy env route (net_JoinHostPort (connect_host (DestAddr req)) (Itoa (unat (as_Port (DestAddr req)))))"
    let ?early = "take (px_early ?px) (px_chunks ?px)" and ?late = "drop (px_early ?px) (px_chunks ?px)"
    let ?c1 = "relay_chunks ?early c"
    let ?c2 = "case connect_reply (px_local ?px) of None \<Rightarrow> ?c1 | Some (code, bind) \<Rightarrow> snd (sendReply code bind ?c1)"
    have c1: "outs ?c1 = outs c @ ?early" "wfail ?c1 = (\<lambda>_. None)" using relay_chunks_ok [OF w] by auto
    have c2: "outs ?c2 = outs c @ ?early @ connect_replies (px_local ?px)" "wfail ?c2 = (\<lambda>_. None)"
      using connect_reply_sent [OF c1(2) refl, of "px_local ?px"] c1(1) by simp_all
    have c': "r = Inr ()" "w' = w\<lparr>w_router := rs\<rparr>" "c' = relay_chunks ?late ?c2"
      using assms(1) g Inr by (simp_all add: handleConnect_def Let_def)
    have "outs c' = outs c @ ?early @ connect_replies (px_local ?px) @ ?late"
      using relay_chunks_ok [OF c2(2), of ?late] c2(1) unfolding c'(3) by simp
    then show ?thesis using g Inr c'(1,2) by simp
  qed
qed

text \<open>What the operating system reports: addresses of four or sixteen bytes.\<close>

definition sane_env :: "'c server_env \<Rightarrow> bool" where
  "sane_env env \<longleftrightarrow> length (ua_IP (se_bound env)) \<in> {4, 16} \<and> length (se_local env) \<in> {0, 4, 16}"



text \<open>The paths through \<open>handleAssociate\<close>.\<close>

lemma handleAssociate_cases:
  assumes h: "handleAssociate env req w c = (r, w', c')"
  defines "ip \<equiv> case RemoteAddr req of None \<Rightarrow> [] | Some a \<Rightarrow> as_IP a" and "bind \<equiv> associate_bind (se_bound env) (se_local env)"
  obtains (off) "udpDisabled (w_udp w) \<or> \<not> AnyRouteSupportsUDP (w_router w)"
      "reply_or_fail commandNotSupported None w c = (r, w', c')"
    | (no_relay) e g where "\<not> (udpDisabled (w_udp w) \<or> \<not> AnyRouteSupportsUDP (w_router w))"
      "NewUDPRelay ip (se_local env) (w_udp w) (se_listen env) = (Inl e, g)"
      "srv_bind (reply_or_fail (if errors_Is e ErrUDPDisabled then commandNotSupported else serverFailure) None)
         (\<lambda>_. srv_fail (Wrap ''socks5: udp associate'' e)) (w\<lparr>w_udp := g\<rparr>) c = (r, w', c')"
    | (unusable) relay g where "\<not> (udpDisabled (w_udp w) \<or> \<not> AnyRouteSupportsUDP (w_router w))"
      "NewUDPRelay ip (se_local env) (w_udp w) (se_listen env) = (Inr relay, g)"
      "as_IP bind = [] \<or> IP_IsUnspecified (as_IP bind)"
      "srv_bind (reply_or_fail serverFailure None)
         (\<lambda>_. srv_fail (Errorf ''socks5: udp associate: relay bound to an unusable address''))
         (snd (close_relay relay (w\<lparr>w_udp := g\<rparr>))) c = (r, w', c')"
    | (unanswered) relay g e w2 where "\<not> (udpDisabled (w_udp w) \<or> \<not> AnyRouteSupportsUDP (w_router w))"
      "NewUDPRelay ip (se_local env) (w_udp w) (se_listen env) = (Inr relay, g)"
      "\<not> (as_IP bind = [] \<or> IP_IsUnspecified (as_IP bind))"
      "reply_or_fail successReply (Some bind) (w\<lparr>w_udp := g\<rparr>) c = (Inl e, w2, c')"
      "r = Inl e" "w' = snd (close_relay relay w2)"
    | (runs) relay g w2 where "\<not> (udpDisabled (w_udp w) \<or> \<not> AnyRouteSupportsUDP (w_router w))"
      "NewUDPRelay ip (se_local env) (w_udp w) (se_listen env) = (Inr relay, g)"
      "\<not> (as_IP bind = [] \<or> IP_IsUnspecified (as_IP bind))"
      "reply_or_fail successReply (Some bind) (w\<lparr>w_udp := g\<rparr>) c = (Inr (), w2, c')"
      "r = Inr ()" "w' = run_association (se_end env) relay w2"
proof (cases "udpDisabled (w_udp w) \<or> \<not> AnyRouteSupportsUDP (w_router w)")
  case True
  show thesis by (rule off [OF True]) (use h True in \<open>simp only: handleAssociate_def Let_def if_True\<close>)
next
  case False
  obtain res g where n: "NewUDPRelay ip (se_local env) (w_udp w) (se_listen env) = (res, g)" by force
  note run = h [unfolded handleAssociate_def Let_def, folded ip_def bind_def]
  show thesis
  proof (cases res)
    case (Inl e)
    show thesis by (rule no_relay [OF False n [unfolded Inl]]) (use run False n Inl in auto)
  next
    case (Inr relay)
    show thesis
    proof (cases "as_IP bind = [] \<or> IP_IsUnspecified (as_IP bind)")
      case True
      show thesis by (rule unusable [OF False n [unfolded Inr] True]) (use run False n Inr True in auto)
    next
      case usable: False
      obtain s w2 c2 where s: "reply_or_fail successReply (Some bind) (w\<lparr>w_udp := g\<rparr>) c = (s, w2, c2)"
        by (cases "reply_or_fail successReply (Some bind) (w\<lparr>w_udp := g\<rparr>) c")
      show thesis
      proof (cases s)
        case (Inl e)
        with run False n Inr usable s have "r = Inl e" "w' = snd (close_relay relay w2)" "c' = c2" by auto
        then show thesis using unanswered [OF False n [unfolded Inr] usable] s Inl by simp
      next
        case (Inr u)
        with run False n \<open>res = Inr relay\<close> usable s
        have "r = Inr ()" "w' = run_association (se_end env) relay w2" "c' = c2" by auto
        then show thesis using runs [OF False n [unfolded \<open>res = Inr relay\<close>] usable] s Inr by simp
      qed
    qed
  qed
qed

text \<open>What the client of a UDP ASSOCIATE is told.\<close>

lemma handleAssociate_outcome:
  assumes h: "handleAssociate env req w c = (r, w', c')" and wf: "wfail c = (\<lambda>_. None)" and "sane_env env"
  shows "if udpDisabled (w_udp w) \<or> \<not> AnyRouteSupportsUDP (w_router w)
     then r = Inr () \<and> outs c' = outs c @ [refusal commandNotSupported]
     else case fst (NewUDPRelay (case RemoteAddr req of None \<Rightarrow> [] | Some a \<Rightarrow> as_IP a) (se_local env) (w_udp w) (se_listen env)) of
         Inl e \<Rightarrow> r = Inl (Wrap ''socks5: udp associate'' e) \<and>
           outs c' = outs c @ [refusal (if errors_Is e ErrUDPDisabled then commandNotSupported else serverFailure)]
       | Inr relay \<Rightarrow>
           (\<exists>ip. ip = (if IP_IsUnspecified (ua_IP (se_bound env)) \<and> se_local env \<noteq> []
                       then se_local env else ua_IP (se_bound env)) \<and>
             (if IP_IsUnspecified ip then (\<exists>e. r = Inl e) \<and> outs c' = outs c @ [refusal serverFailure]
              else r = Inr () \<and> outs c' = outs c @ [grant ip (word_of_int (ua_Port (se_bound env)))]))"
proof -
  define ip where "ip = (if IP_IsUnspecified (ua_IP (se_bound env)) \<and> se_local env \<noteq> [] then se_local env else ua_IP (se_bound env))"
  let ?bind = "associate_bind (se_bound env) (se_local env)"
  have ip: "as_IP ?bind = ip" "as_Port ?bind = word_of_int (ua_Port (se_bound env))"
    by (simp_all add: associate_bind_def ip_def)
  have len: "length (as_IP ?bind) \<in> {4, 16}"
    using assms(3) by (auto simp: sane_env_def associate_bind_def)
  then have nonnil: "as_IP ?bind \<noteq> []" by auto
  note granted = reply_or_fail_ok [OF reply_message_grant [OF len] wf]
  from h show ?thesis
  proof (cases rule: handleAssociate_cases)
    case off
    with refused [OF off(2) wf] show ?thesis by simp
  next
    case (no_relay e g)
    with refused_then_fail [OF no_relay(3) wf] show ?thesis by auto
  next
    case (unusable relay g)
    with refused_then_fail [OF unusable(4) wf] nonnil ip show ?thesis unfolding ip_def [symmetric] by auto
  next
    case (unanswered relay g e w2)
    with granted show ?thesis by simp
  next
    case (runs relay g w2)
    with granted [of "w\<lparr>w_udp := g\<rparr>"] nonnil ip show ?thesis unfolding ip_def [symmetric] by auto
  qed
qed








section \<open>Properties\<close>

text \<open>C13: A client that has not authenticated gets nothing. With credentials configured, if a
  connection has any effect beyond the two-byte negotiation messages (it ends without an
  error, it changes the routing or UDP state, or the server writes a longer message), then the
  client's first bytes were the version, a method list with username/password, and a user and
  password that the credential store accepts.\<close>

theorem no_service_without_auth:
  assumes "se_credentials env \<noteq> []" and run: "ServeConn env w c = (r, w', c')"
    and "r = Inr () \<or> w' \<noteq> w \<or> (\<exists>m \<in> set (drop (length (outs c)) (outs c')). length m \<noteq> 2)"
  shows "\<exists>methods user pass n ulen plen rest.
    inp c = [5, n] @ methods @ [1, ulen] @ user @ [plen] @ pass @ rest \<and>
    UserPassAuth \<in> set methods \<and> Valid (se_sha env) (se_credentials env) user pass"
proof -
  obtain rv c1 where v: "ReadFull 1 c = (rv, c1)" by force
  have o1: "outs c1 = outs c" using v by (auto simp: ReadFull_def split: if_splits)
  let ?auth = "authenticate (se_sha env) (se_credentials env)"
  obtain ra c2 where a: "?auth c1 = (ra, c2)" by force
  obtain ws where ws: "outs c2 = outs c1 @ ws" "\<forall>b \<in> set ws. length b = 2"
    using authenticate_short_writes a unfolding short_writes_def by blast
  show ?thesis
  proof (cases "\<exists>ver ctx. rv = Inr ver \<and> ver ! 0 = socks5Version \<and> ra = Inr ctx")
    case True
    then obtain ver ctx where t: "rv = Inr ver" "ver ! 0 = 5" "ra = Inr ctx" by auto
    have "length ver = 1" "inp c = ver @ inp c1" using ReadFull_Inr [of 1 c ver c1] v t(1) by auto
    then have i: "inp c = 5 # inp c1" using t(2) by (cases ver) auto
    show ?thesis using authenticate_Inr [OF assms(1) a[unfolded t(3)]] i by force
  next
    case False
    then have "w' = w \<and> (\<exists>e. r = Inl e) \<and> (outs c' = outs c \<or> outs c' = outs c2)"
      using run v a o1
      by (auto simp: ServeConn_def srv_bind_def lift_io_def io_map_err_def srv_fail_def
          split: sum.splits if_splits)
    then have False using assms(3) ws o1 by auto
    then show ?thesis ..
  qed
qed

theorem no_service_without_auth_witness:
  "\<exists>env :: unit server_env. \<exists>w c r w' c'. se_credentials env \<noteq> [] \<and> ServeConn env w c = (r, w', c') \<and>
     (\<exists>m \<in> set (drop (length (outs c)) (outs c')). length m \<noteq> 2) \<and>
     (\<exists>user pass. Valid (se_sha env) (se_credentials env) user pass)"
proof -
  define env :: "unit server_env" where
    "env = \<lparr>se_sha = id, se_credentials = [(''u'', ''p'')], se_route = plain_env, se_newClient = Inr (),
       se_proxy = (\<lambda>_ _. \<lparr>px_local = None, px_chunks = [], px_early = 0\<rparr>), se_listen = (\<lambda>_ _. Inr ()),
       se_bound = \<lparr>ua_IP = [127, 0, 0, 1], ua_Port = 9, ua_Zone = []\<rparr>, se_local = [], se_remote = None, se_end = ControlClosed\<rparr>"
  define w where "w = \<lparr>w_router = init_router, w_udp = init_udp_globals\<rparr>"
  define c where "c = conn_of [5, 1, 2, 1, 1, 117, 1, 112, 5, 2, 0, 1, 1, 2, 3, 4, 0, 80]"
  obtain r w' c' where run: "ServeConn env w c = (r, w', c')" using prod_cases3 by blast
  have "list_ex (\<lambda>m. length m \<noteq> 2) (drop (length (outs c)) (outs (snd (snd (ServeConn env w c)))))"
    unfolding env_def w_def c_def by code_simp
  then have big: "\<exists>m \<in> set (drop (length (outs c)) (outs c')). length m \<noteq> 2"
    using run by (simp add: list_ex_iff)
  have "se_credentials env \<noteq> []" by (simp add: env_def)
  from no_service_without_auth [OF this run] big this run show ?thesis by metis
qed

text \<open>C29: What every request is answered with, byte for byte. On a working control connection, and
  with an operating system that reports proper addresses: BIND, an unknown command and a
  refused or failed UDP ASSOCIATE get one refusal, with the code of the reason; a UDP ASSOCIATE
  that succeeds gets one grant that names the relay's address, and succeeds only when UDP is
  enabled and some route can carry it; a CONNECT without a route gets one refusal; and a CONNECT
  with a route gets the bytes of its egress and among them exactly one reply, a grant that names
  the announced local address or, when the egress closes without announcing one, a refusal.
  Only an announced address that is not a plain IP literal and a port gets no reply.\<close>

theorem command_answered_once:
  assumes "handleRequest env req w c = (r, w', c')" and "wfail c = (\<lambda>_. None)" and "sane_env env"
  shows "(Command req = ConnectCommand \<longrightarrow> r = Inr () \<and>
      (case fst (GetRoute (se_route env) (se_newClient env) (connect_host (DestAddr req)) (w_router w)) of
         Inl e \<Rightarrow> outs c' = outs c @ [refusal ruleFailure]
       | Inr route \<Rightarrow>
          (\<exists>px. px = se_proxy env route (net_JoinHostPort (connect_host (DestAddr req)) (Itoa (unat (as_Port (DestAddr req))))) \<and>
            outs c' = outs c @ take (px_early px) (px_chunks px) @
              (case px_local px of
                 None \<Rightarrow> [refusal networkUnreachable]
               | Some l \<Rightarrow>
                   if l = [] then [refusal networkUnreachable]
                   else case SplitHostPort l of
                       Inl _ \<Rightarrow> []
                     | Inr (ip, port) \<Rightarrow> (case net_ParseIP ip of None \<Rightarrow> [] | Some b \<Rightarrow> [grant b port])) @
              drop (px_early px) (px_chunks px)))) \<and>
    (Command req = BindCommand \<longrightarrow> r = Inr () \<and> outs c' = outs c @ [refusal commandNotSupported]) \<and>
    (Command req = AssociateCommand \<longrightarrow>
      (if udpDisabled (w_udp w) \<or> \<not> AnyRouteSupportsUDP (w_router w)
       then r = Inr () \<and> outs c' = outs c @ [refusal commandNotSupported]
       else case fst (NewUDPRelay (case RemoteAddr req of None \<Rightarrow> [] | Some a \<Rightarrow> as_IP a)
                        (se_local env) (w_udp w) (se_listen env)) of
           Inl e \<Rightarrow> r = Inl (Wrap ''socks5: udp associate'' e) \<and>
             outs c' = outs c @ [refusal (if errors_Is e ErrUDPDisabled then commandNotSupported else serverFailure)]
         | Inr relay \<Rightarrow>
             (\<exists>ip. ip = (if IP_IsUnspecified (ua_IP (se_bound env)) \<and> se_local env \<noteq> []
                         then se_local env else ua_IP (se_bound env)) \<and>
               (if IP_IsUnspecified ip then (\<exists>e. r = Inl e) \<and> outs c' = outs c @ [refusal serverFailure]
                else r = Inr () \<and> outs c' = outs c @ [grant ip (word_of_int (ua_Port (se_bound env)))])))) \<and>
    (Command req \<notin> {ConnectCommand, BindCommand, AssociateCommand} \<longrightarrow>
       r = Inl (Errorf ''unsupported command'') \<and> outs c' = outs c @ [refusal commandNotSupported])"
proof -
  consider "Command req = 1" | "Command req = 2" | "Command req = 3" | "Command req \<notin> {1, 2, 3}" by blast
  then show ?thesis
  proof cases
    case 1
    then have "handleConnect env req w c = (r, w', c')" using assms(1) by (simp add: handleRequest_def)
    from handleConnect_outcome [OF this assms(2)] show ?thesis using 1
      by (auto simp: connect_replies_def split: prod.splits sum.splits)
  next
    case 2
    then have "reply_or_fail commandNotSupported None w c = (r, w', c')"
      using assms(1) by (simp add: handleRequest_def handleBind_def)
    from refused [OF this assms(2)] show ?thesis using 2 by simp
  next
    case 3
    then have "handleAssociate env req w c = (r, w', c')" using assms(1) by (simp add: handleRequest_def)
    from handleAssociate_outcome [OF this assms(2,3)] show ?thesis using 3 by simp
  next
    case 4
    then have "srv_bind (reply_or_fail commandNotSupported None)
        (\<lambda>_. srv_fail (Errorf ''unsupported command'')) w c = (r, w', c')"
      using assms(1) by (simp add: handleRequest_def)
    from refused_then_fail [OF this assms(2)] show ?thesis using 4 by simp
  qed
qed

definition ex_env :: "unit server_env" where
  "ex_env = \<lparr>se_sha = id, se_credentials = [], se_route = plain_env, se_newClient = Inr (),
     se_proxy = (\<lambda>_ _. \<lparr>px_local = None, px_chunks = [], px_early = 0\<rparr>), se_listen = (\<lambda>_ _. Inr ()),
     se_bound = \<lparr>ua_IP = [127, 0, 0, 1], ua_Port = 9, ua_Zone = []\<rparr>, se_local = [], se_remote = None, se_end = ControlClosed\<rparr>"

definition ex_request :: "byte \<Rightarrow> Request" where
  "ex_request cmd = \<lparr>Version = 5, Command = cmd, req_AuthContext = None, RemoteAddr = None,
     DestAddr = \<lparr>as_FQDN = [], as_IP = [1, 2, 3, 4], as_Port = 80\<rparr>\<rparr>"

theorem command_answered_once_witness:
  "\<exists>r w' c'. handleRequest ex_env (ex_request 9)
       \<lparr>w_router = init_router, w_udp = init_udp_globals\<rparr> (conn_of []) = (r, w', c') \<and>
     outs c' = [[5, 7, 0, 1, 0, 0, 0, 0, 0, 0]] \<and> r \<noteq> Inr ()"
proof -
  let ?w = "\<lparr>w_router = init_router, w_udp = init_udp_globals\<rparr>"
  obtain r w' c' where run: "handleRequest ex_env (ex_request 9) ?w (conn_of []) = (r, w', c')"
    using prod_cases3 by blast
  have s: "sane_env ex_env" by (simp add: sane_env_def ex_env_def)
  have f: "wfail (conn_of []) = (\<lambda>_. None)" by (simp add: conn_of_def)
  show ?thesis
    using command_answered_once [OF run f s] run by (simp add: ex_request_def refusal_def conn_of_def)
qed



text \<open>The limits of the CONNECT reply. When the egress reports a local address whose host
  is not a plain IP literal (one with an IPv6 zone, say), the goroutine that answers the client
  fails before writing anything: the client sees the relayed bytes and never a reply. And as
  the two goroutines synchronise on the local address only, bytes of the egress may be written
  before the reply.\<close>

theorem connect_reply_missing:
  assumes "GetRoute (se_route env) (se_newClient env) (connect_host (DestAddr req)) (w_router w) = (Inr route, rs)"
    and "px_local (se_proxy env route (net_JoinHostPort (connect_host (DestAddr req))
           (Itoa (unat (as_Port (DestAddr req)))))) = Some l"
    and "l \<noteq> []" and "SplitHostPort l = Inr (ip, port)" and "net_ParseIP ip = None"
    and "wfail c = (\<lambda>_. None)"
  shows "\<exists>w' c'. handleConnect env req w c = (Inr (), w', c') \<and>
    outs c' = outs c @ px_chunks (se_proxy env route (net_JoinHostPort (connect_host (DestAddr req))
           (Itoa (unat (as_Port (DestAddr req))))))"
proof -
  let ?px = "se_proxy env route (net_JoinHostPort (connect_host (DestAddr req)) (Itoa (unat (as_Port (DestAddr req)))))"
  let ?c1 = "relay_chunks (take (px_early ?px) (px_chunks ?px)) c"
  have r: "connect_reply (px_local ?px) = Some (successReply, Some \<lparr>as_FQDN = [], as_IP = [], as_Port = port\<rparr>)"
    using assms(2-5) by (simp add: connect_reply_def)
  have "reply_message successReply (Some \<lparr>as_FQDN = [], as_IP = [], as_Port = port\<rparr>) =
      Inl (Errorf ''failed to format address'')" by (simp add: reply_message_def Let_def)
  then have "snd (sendReply successReply (Some \<lparr>as_FQDN = [], as_IP = [], as_Port = port\<rparr>) ?c1) = ?c1"
    by (simp add: sendReply_def io_fail_def)
  then have h: "handleConnect env req w c =
      (Inr (), w\<lparr>w_router := rs\<rparr>, relay_chunks (drop (px_early ?px) (px_chunks ?px)) ?c1)"
    using assms(1) r by (simp add: handleConnect_def Let_def)
  have c1: "outs ?c1 = outs c @ take (px_early ?px) (px_chunks ?px)" "wfail ?c1 = (\<lambda>_. None)"
    using relay_chunks_ok [OF assms(6)] by auto
  show ?thesis using relay_chunks_ok [OF c1(2), of "drop (px_early ?px) (px_chunks ?px)"] c1(1) h by simp
qed

definition zone_env :: "unit server_env" where
  "zone_env = ex_env\<lparr>se_proxy := (\<lambda>_ _. \<lparr>px_local = Some ''[fe80::1%e0]:40'', px_chunks = [[1, 2]], px_early = 1\<rparr>)\<rparr>"

theorem connect_reply_missing_witness:
  "\<exists>w' c'. handleConnect zone_env (ex_request 1)
       \<lparr>w_router = init_router\<lparr>routesCache := [Some RouteServerDefault]\<rparr>, w_udp = init_udp_globals\<rparr>
       (conn_of []) = (Inr (), w', c') \<and> outs c' = [[1, 2]]"
proof -
  let ?w = "\<lparr>w_router = init_router\<lparr>routesCache := [Some RouteServerDefault]\<rparr>, w_udp = init_udp_globals\<rparr>"
  let ?host = "connect_host (DestAddr (ex_request 1))"
  have "fst (GetRoute (se_route zone_env) (se_newClient zone_env) ?host (w_router ?w)) = Inr Direct" by code_simp
  then obtain rs where g: "GetRoute (se_route zone_env) (se_newClient zone_env) ?host (w_router ?w) = (Inr Direct, rs)"
    by (metis prod.collapse)
  have s: "SplitHostPort ''[fe80::1%e0]:40'' = Inr (''fe80::1%e0'', 40)" by code_simp
  have "strings_Cut ''fe80::1%e0'' (CHR ''%'') = Some (''fe80::1'', ''e0'')" by code_simp
  then have n: "net_ParseIP ''fe80::1%e0'' = None"
    by (simp add: net_ParseIP_def netip_ParseAddr_def parseIPv6_def split: option.split)
  show ?thesis
    using connect_reply_missing [OF g _ _ s n, of "conn_of []"] by (simp add: zone_env_def conn_of_def)
qed

end
