(* ===== verification/ConnPool.thy ===== *)
theory ConnPool
  imports GoStrings
begin

text \<open>
  \<open>internal/transport/rpc/client\<close>, \<open>queue.go\<close> and \<open>wrapper.go\<close>: the pool of gRPC
  connections. A connection is a number; the gRPC library's view of it (its connectivity
  state, the result of dialing) is an argument of each operation. \<open>q_closed\<close> is the set of
  connections whose \<open>Close\<close> has been called, \<open>q_replacing\<close> the \<open>replaceConn\<close> goroutines
  that have been started.
\<close>

section \<open>Connections (wrapper.go)\<close>

datatype connectivity = Ready | Connecting | Idle | TransientFailure | Shutdown

record ConnWrapper =
  ID :: nat
  InUse :: u32

definition Use :: "ConnWrapper \<Rightarrow> ConnWrapper" where
  "Use w = w\<lparr>InUse := InUse w + 1\<rparr>"

definition GetCurrentLoad :: "ConnWrapper \<Rightarrow> u32" where
  "GetCurrentLoad w = InUse w"

definition NewConnWrapper :: "goerror option \<Rightarrow> ConnWrapper result" where
  "NewConnWrapper newClientErr = (case newClientErr of Some e \<Rightarrow> Inl e | None \<Rightarrow> Inr \<lparr>ID = 0, InUse = 0\<rparr>)"

text \<open>\<open>InUse.Add(^uint32(0))\<close>: adding the all-ones word takes one away, modulo \<open>2 ^ 32\<close>.\<close>

definition Done :: "ConnWrapper \<Rightarrow> ConnWrapper" where
  "Done w = w\<lparr>InUse := InUse w + NOT 0\<rparr>"

text \<open>The loop of \<open>PickLeastLoaded\<close> with its running minimum.\<close>

fun pick_loop :: "(nat \<Rightarrow> connectivity) \<Rightarrow> (nat \<Rightarrow> u32) \<Rightarrow> (nat \<times> u32) option \<Rightarrow> nat list \<Rightarrow> nat option" where
  "pick_loop state load best [] = map_option fst best"
| "pick_loop state load best (c # cs) =
     (if state c = Shutdown then pick_loop state load best cs
      else case best of
          None \<Rightarrow> pick_loop state load (Some (c, load c)) cs
        | Some (b, minUsage) \<Rightarrow>
            if load c < minUsage then pick_loop state load (Some (c, load c)) cs
            else pick_loop state load best cs)"

definition PickLeastLoaded :: "(nat \<Rightarrow> connectivity) \<Rightarrow> (nat \<Rightarrow> u32) \<Rightarrow> nat list \<Rightarrow> nat option" where
  "PickLeastLoaded state load w = (if w = [] then None else pick_loop state load None w)"

definition GetDetailedStatus :: "ConnWrapper list \<Rightarrow> string" where
  "GetDetailedStatus w =
     (if w = [] then ''No connections''
      else concat (map (\<lambda>i. (if 0 < i then '' '' else []) @
             Itoa (ID (w ! i)) @ ''('' @ Itoa (unat (InUse (w ! i))) @ '')'') [0..<length w]))"

definition GetSummaryStats :: "ConnWrapper list \<Rightarrow> nat \<times> nat \<times> u32" where
  "GetSummaryStats w =
     (length w, length (filter (\<lambda>c. 0 < InUse c) w), foldl (\<lambda>total c. total + InUse c) 0 w)"

fun grpcStateToString :: "connectivity \<Rightarrow> string" where
  "grpcStateToString Idle = ''IDLE''"
| "grpcStateToString Connecting = ''CONNECTING''"
| "grpcStateToString Ready = ''READY''"
| "grpcStateToString TransientFailure = ''TRANSIENT_FAILURE''"
| "grpcStateToString Shutdown = ''SHUTDOWN''"

fun deriveHealthStatus :: "connectivity \<Rightarrow> u32 \<Rightarrow> string" where
  "deriveHealthStatus Ready load = (if 0 < load then ''healthy_active'' else ''healthy_ready'')"
| "deriveHealthStatus Idle load = ''healthy_idle''"
| "deriveHealthStatus Connecting load = ''connecting''"
| "deriveHealthStatus TransientFailure load = ''unhealthy''"
| "deriveHealthStatus Shutdown load = ''shutdown''"

record ConnectionDetail =
  cd_ID :: nat
  cd_Load :: u32
  cd_Status :: string
  cd_ConnectivityState :: string
  cd_HealthStatus :: string

definition GetConnectionDetails :: "(connectivity \<times> ConnWrapper) list \<Rightarrow> ConnectionDetail list" where
  "GetConnectionDetails w =
     map (\<lambda>(state, c). \<lparr>cd_ID = ID c, cd_Load = InUse c,
        cd_Status = (if 0 < InUse c then ''active'' else ''idle''),
        cd_ConnectivityState = grpcStateToString state,
        cd_HealthStatus = deriveHealthStatus state (InUse c)\<rparr>) w"

section \<open>The pool (queue.go)\<close>

record ConnQueue =
  q_Size :: nat
  q_Conn :: "nat list"
  q_shutdown :: bool
  q_heap :: "nat \<Rightarrow> ConnWrapper"
  q_next :: nat
  q_closed :: "nat set"
  q_replacing :: "nat list"

definition NewConnQueue :: "nat \<Rightarrow> ConnQueue" where
  "NewConnQueue n =
     \<lparr>q_Size = n, q_Conn = [], q_shutdown = False, q_heap = (\<lambda>_. \<lparr>ID = 0, InUse = 0\<rparr>),
      q_next = 0, q_closed = {}, q_replacing = []\<rparr>"

definition pool_load :: "ConnQueue \<Rightarrow> nat \<Rightarrow> u32" where
  "pool_load q c = InUse (q_heap q c)"

definition upd_conn :: "nat \<Rightarrow> (ConnWrapper \<Rightarrow> ConnWrapper) \<Rightarrow> ConnQueue \<Rightarrow> ConnQueue" where
  "upd_conn c f q = q\<lparr>q_heap := (q_heap q)(c := f (q_heap q c))\<rparr>"

definition close_conn :: "nat \<Rightarrow> ConnQueue \<Rightarrow> ConnQueue" where
  "close_conn c q = q\<lparr>q_closed := insert c (q_closed q)\<rparr>"

definition Add :: "nat \<Rightarrow> ConnQueue \<Rightarrow> ConnQueue" where
  "Add c q = (let q1 = upd_conn c (\<lambda>w. w\<lparr>ID := length (q_Conn q) + 1\<rparr>) q in q1\<lparr>q_Conn := q_Conn q1 @ [c]\<rparr>)"

definition Dial :: "goerror option \<Rightarrow> ConnQueue \<Rightarrow> nat result \<times> ConnQueue" where
  "Dial newClientErr q =
     (case NewConnWrapper newClientErr of
        Inl e \<Rightarrow> (Inl (Wrap ''creating grpc wrapper'' e), q)
      | Inr w \<Rightarrow> (Inr (q_next q), (upd_conn (q_next q) (\<lambda>_. w) q)\<lparr>q_next := q_next q + 1\<rparr>))"

lemma Dial_eq:
  "Dial newClientErr q =
     (case newClientErr of
        Some e \<Rightarrow> (Inl (Wrap ''creating grpc wrapper'' e), q)
      | None \<Rightarrow> (Inr (q_next q), (upd_conn (q_next q) (\<lambda>_. \<lparr>ID = 0, InUse = 0\<rparr>) q)\<lparr>q_next := q_next q + 1\<rparr>))"
  by (simp add: Dial_def NewConnWrapper_def split: option.split)

fun init_loop :: "goerror option list \<Rightarrow> ConnQueue \<Rightarrow> unit result \<times> ConnQueue" where
  "init_loop [] q = (Inr (), q)"
| "init_loop (d # ds) q =
     (case Dial d q of (Inl e, q1) \<Rightarrow> (Inl e, q1) | (Inr c, q1) \<Rightarrow> init_loop ds (Add c q1))"

text \<open>\<open>Init\<close>: \<open>dials i\<close> is what the \<open>i\<close>-th dial reports.\<close>

definition Init :: "(nat \<Rightarrow> goerror option) \<Rightarrow> ConnQueue \<Rightarrow> unit result \<times> ConnQueue" where
  "Init dials q = init_loop (map dials [0..<q_Size q]) q"

text \<open>\<open>Destroy\<close> indexes \<open>q.Conn\<close> up to \<open>q.Size\<close>; \<open>None\<close> is the panic of an index out of range.\<close>

definition Destroy :: "ConnQueue \<Rightarrow> ConnQueue option" where
  "Destroy q =
     (if length (q_Conn q) < q_Size q then None
      else Some (foldl (\<lambda>q c. close_conn c q) (q\<lparr>q_shutdown := True\<rparr>) (take (q_Size q) (q_Conn q))))"

datatype release_func = CloseConn | DoneConn

definition GetConnOutSide :: "goerror option \<Rightarrow> ConnQueue \<Rightarrow> (nat \<times> release_func) result \<times> ConnQueue" where
  "GetConnOutSide dial q =
     (case Dial dial q of
        (Inl e, q1) \<Rightarrow> (Inl e, q1)
      | (Inr c, q1) \<Rightarrow> (Inr (c, CloseConn), q1))"

text \<open>
  \<open>GetConn\<close>. The connectivity is read twice: \<open>state1\<close> while picking, \<open>state2\<close> afterwards.
\<close>

definition GetConn :: "(nat \<Rightarrow> connectivity) \<Rightarrow> (nat \<Rightarrow> connectivity) \<Rightarrow> goerror option \<Rightarrow> ConnQueue
    \<Rightarrow> (nat \<times> release_func) result \<times> ConnQueue" where
  "GetConn state1 state2 dial q =
     (if q_Size q = 0 then GetConnOutSide dial q
      else if q_shutdown q then (Inl (Errorf ''connection queue is shutdown''), q)
      else case PickLeastLoaded state1 (pool_load q) (q_Conn q) of
          None \<Rightarrow> (Inl (Errorf ''no available connections in pool''), q)
        | Some el \<Rightarrow>
            if state2 el = Shutdown then
              (Inl (Errorf ''grpc connection is shutdown''), q\<lparr>q_replacing := q_replacing q @ [el]\<rparr>)
            else (Inr (el, DoneConn), upd_conn el Use q))"

text \<open>\<open>GetClient\<close>: the connection under the method names of the service, as they are when it is called.\<close>

definition GetClient :: "(nat \<Rightarrow> 'm) \<Rightarrow> (nat \<Rightarrow> connectivity) \<Rightarrow> (nat \<Rightarrow> connectivity) \<Rightarrow> goerror option \<Rightarrow> ConnQueue
    \<Rightarrow> ('m \<times> nat \<times> release_func) result \<times> ConnQueue" where
  "GetClient newClient state1 state2 dial q =
     (case GetConn state1 state2 dial q of
        (Inl e, q') \<Rightarrow> (Inl e, q')
      | (Inr (c, done), q') \<Rightarrow> (Inr (newClient c, c, done), q'))"

definition run_release :: "nat \<Rightarrow> release_func \<Rightarrow> ConnQueue \<Rightarrow> ConnQueue" where
  "run_release c f q = (case f of CloseConn \<Rightarrow> close_conn c q | DoneConn \<Rightarrow> upd_conn c Done q)"

text \<open>The loop of \<open>replaceConn\<close> over the pool: the first position that holds \<open>old\<close>.\<close>

fun replace_first :: "nat \<Rightarrow> nat \<Rightarrow> nat list \<Rightarrow> nat list option" where
  "replace_first old new [] = None"
| "replace_first old new (c # cs) =
     (if c = old then Some (new # cs) else map_option (\<lambda>r. c # r) (replace_first old new cs))"

definition replaceConn :: "goerror option \<Rightarrow> nat \<Rightarrow> ConnQueue \<Rightarrow> ConnQueue" where
  "replaceConn dial old q0 =
     (let q = q0\<lparr>q_replacing := remove1 old (q_replacing q0)\<rparr> in
      case Dial dial q of
        (Inl e, q1) \<Rightarrow> q1
      | (Inr new, q1) \<Rightarrow>
          if q_shutdown q1 then close_conn new q1
          else case replace_first old new (q_Conn q1) of
              Some cs \<Rightarrow>
                close_conn old ((upd_conn new (\<lambda>w. w\<lparr>ID := ID (q_heap q1 old)\<rparr>) q1)\<lparr>q_Conn := cs\<rparr>)
            | None \<Rightarrow> close_conn new q1)"

definition GetConnectionStatus :: "ConnQueue \<Rightarrow> string" where
  "GetConnectionStatus q =
     (if q_shutdown q then ''Connection pool shutdown''
      else GetDetailedStatus (map (q_heap q) (q_Conn q)))"

definition GetConnectionSummary :: "ConnQueue \<Rightarrow> nat \<times> nat \<times> u32" where
  "GetConnectionSummary q =
     (if q_shutdown q then (0, 0, 0) else GetSummaryStats (map (q_heap q) (q_Conn q)))"

definition q_GetConnectionDetails :: "(nat \<Rightarrow> connectivity) \<Rightarrow> ConnQueue \<Rightarrow> ConnectionDetail list" where
  "q_GetConnectionDetails state q =
     (if q_shutdown q then [] else GetConnectionDetails (map (\<lambda>c. (state c, q_heap q c)) (q_Conn q)))"

section \<open>Picking\<close>

lemma pick_loop_Some:
  "\<exists>r. pick_loop state load (Some (b, load b)) cs = Some r \<and>
     r \<in> insert b {c \<in> set cs. state c \<noteq> Shutdown} \<and>
     (\<forall>c \<in> insert b {c \<in> set cs. state c \<noteq> Shutdown}. load r \<le> load c)"
proof (induction cs arbitrary: b)
  case (Cons c cs)
  consider "state c = Shutdown" | "state c \<noteq> Shutdown" "load c < load b" | "state c \<noteq> Shutdown" "\<not> load c < load b"
    by blast
  then show ?case
  proof cases
    case 1
    then show ?thesis using Cons [of b] by auto
  next
    case 2
    obtain r where "pick_loop state load (Some (c, load c)) cs = Some r"
      "r \<in> insert c {c \<in> set cs. state c \<noteq> Shutdown}"
      "\<forall>x \<in> insert c {c \<in> set cs. state c \<noteq> Shutdown}. load r \<le> load x" using Cons [of c] by blast
    then show ?thesis using 2 by (auto intro: order_trans)
  next
    case 3
    obtain r where "pick_loop state load (Some (b, load b)) cs = Some r"
      "r \<in> insert b {c \<in> set cs. state c \<noteq> Shutdown}"
      "\<forall>x \<in> insert b {c \<in> set cs. state c \<noteq> Shutdown}. load r \<le> load x" using Cons [of b] by blast
    then show ?thesis using 3 by (auto intro: order_trans)
  qed
qed auto

lemma pick_loop_None:
  "pick_loop state load None cs = None \<longleftrightarrow> (\<forall>c \<in> set cs. state c = Shutdown)"
proof (induction cs)
  case (Cons c cs)
  then show ?case using pick_loop_Some [of state load c cs] by auto
qed simp

lemma pick_loop_min:
  "pick_loop state load None cs = Some r \<Longrightarrow>
     r \<in> set cs \<and> state r \<noteq> Shutdown \<and> (\<forall>c \<in> set cs. state c \<noteq> Shutdown \<longrightarrow> load r \<le> load c)"
proof (induction cs)
  case (Cons c cs)
  then show ?case using pick_loop_Some [of state load c cs] by (auto split: if_splits)
qed simp

lemma PickLeastLoaded_iff:
  "PickLeastLoaded state load w = None \<longleftrightarrow> (\<forall>c \<in> set w. state c = Shutdown)"
  "PickLeastLoaded state load w = Some r \<Longrightarrow>
     r \<in> set w \<and> state r \<noteq> Shutdown \<and> (\<forall>c \<in> set w. state c \<noteq> Shutdown \<longrightarrow> load r \<le> load c)"
  using pick_loop_None [of state load w] pick_loop_min [of state load w r]
  by (auto simp: PickLeastLoaded_def split: if_splits)

section \<open>The usage counter\<close>

lemma InUse_Done [simp]: "InUse (Done w) = InUse w - 1"
proof -
  have "NOT 0 = (- 1 :: u32)" by simp
  then show ?thesis by (simp only: Done_def ConnWrapper.simps ConnWrapper.select_convs) simp
qed

lemma InUse_Use [simp]: "InUse (Use w) = InUse w + 1"
  by (simp add: Use_def)

section \<open>The pool as a transition system\<close>

text \<open>The second component holds the handles that callers have not released yet.\<close>

type_synonym pool_config = "ConnQueue \<times> (nat \<times> release_func) multiset"

inductive pool_step :: "pool_config \<Rightarrow> pool_config \<Rightarrow> bool" where
  Get_ok: "GetConn state1 state2 dial q = (Inr h, q') \<Longrightarrow> pool_step (q, H) (q', add_mset h H)"
| Get_err: "GetConn state1 state2 dial q = (Inl e, q') \<Longrightarrow> pool_step (q, H) (q', H)"
| Release: "pool_step (q, add_mset (c, f) H) (run_release c f q, H)"
| Replace: "old \<in> set (q_replacing q) \<Longrightarrow> pool_step (q, H) (replaceConn dial old q, H)"
| Destroyed: "Destroy q = Some q' \<Longrightarrow> pool_step (q, H) (q', H)"

inductive pool_reachable :: "ConnQueue \<Rightarrow> pool_config \<Rightarrow> bool" for q0 where
  Pool_init: "pool_reachable q0 (q0, {#})"
| Pool_step: "pool_reachable q0 c \<Longrightarrow> pool_step c c' \<Longrightarrow> pool_reachable q0 c'"

definition pool_inv :: "ConnQueue \<Rightarrow> (nat \<times> release_func) multiset \<Rightarrow> bool" where
  "pool_inv q H \<longleftrightarrow>
     length (q_Conn q) = q_Size q \<and> distinct (q_Conn q) \<and> (\<forall>c \<in> set (q_Conn q). c < q_next q) \<and>
     (\<forall>h \<in># H. fst h < q_next q) \<and>
     (\<forall>c. InUse (q_heap q c) = of_nat (count H (c, DoneConn))) \<and>
     (\<forall>c < q_next q. c \<in> set (q_Conn q) \<or> c \<in> q_closed q \<or> (c, CloseConn) \<in># H) \<and>
     (q_shutdown q \<longrightarrow> set (q_Conn q) \<subseteq> q_closed q) \<and>
     (\<forall>i < length (q_Conn q). ID (q_heap q (q_Conn q ! i)) = i + 1)"

lemma upd_conn_fields [simp]:
  "q_Size (upd_conn c f q) = q_Size q" "q_Conn (upd_conn c f q) = q_Conn q"
  "q_shutdown (upd_conn c f q) = q_shutdown q" "q_next (upd_conn c f q) = q_next q"
  "q_closed (upd_conn c f q) = q_closed q" "q_replacing (upd_conn c f q) = q_replacing q"
  "q_heap (upd_conn c f q) = (q_heap q)(c := f (q_heap q c))"
  by (simp_all add: upd_conn_def)

lemma close_conn_fields [simp]:
  "q_Size (close_conn c q) = q_Size q" "q_Conn (close_conn c q) = q_Conn q"
  "q_shutdown (close_conn c q) = q_shutdown q" "q_next (close_conn c q) = q_next q"
  "q_closed (close_conn c q) = insert c (q_closed q)" "q_replacing (close_conn c q) = q_replacing q"
  "q_heap (close_conn c q) = q_heap q"
  by (simp_all add: close_conn_def)

lemma count_fresh: "pool_inv q H \<Longrightarrow> count H (q_next q, f) = 0"
  by (force simp: pool_inv_def not_in_iff [symmetric])

lemma pool_nth_fresh: "pool_inv q H \<Longrightarrow> i < q_Size q \<Longrightarrow> q_Conn q ! i \<noteq> q_next q"
proof -
  assume inv: "pool_inv q H" and i: "i < q_Size q"
  then have "q_Conn q ! i \<in> set (q_Conn q)" by (intro nth_mem) (simp add: pool_inv_def)
  then show ?thesis using inv unfolding pool_inv_def by (metis less_irrefl)
qed

lemma replace_first_Some:
  assumes "replace_first old new cs = Some cs'"
  obtains i where "i < length cs" "cs ! i = old" "cs' = cs[i := new]"
proof -
  have "\<exists>i < length cs. cs ! i = old \<and> cs' = cs[i := new]"
    using assms
  proof (induction cs arbitrary: cs')
    case (Cons c cs)
    show ?case
    proof (cases "c = old")
      case True
      then show ?thesis using Cons.prems by (intro exI [of _ 0]) auto
    next
      case False
      then obtain r where "replace_first old new cs = Some r" "cs' = c # r" using Cons.prems by auto
      moreover obtain i where "i < length cs" "cs ! i = old" "r = cs[i := new]"
        using Cons.IH calculation(1) by blast
      ultimately show ?thesis by (intro exI [of _ "Suc i"]) auto
    qed
  qed simp
  with that show thesis by blast
qed

lemma pool_inv_Get_ok:
  assumes inv: "pool_inv q H" and g: "GetConn st1 st2 dial q = (Inr h, q')"
  shows "pool_inv q' (add_mset h H)"
proof (cases "q_Size q = 0")
  case True
  then have h: "h = (q_next q, CloseConn)"
    and q': "q' = (upd_conn (q_next q) (\<lambda>_. \<lparr>ID = 0, InUse = 0\<rparr>) q)\<lparr>q_next := q_next q + 1\<rparr>"
    using g by (auto simp: GetConn_def GetConnOutSide_def Dial_eq split: option.splits)
  show ?thesis using inv True count_fresh [OF inv, of DoneConn]
    unfolding h q' by (auto simp: pool_inv_def less_Suc_eq)
next
  case False
  obtain el where p: "PickLeastLoaded st1 (pool_load q) (q_Conn q) = Some el"
    and h: "h = (el, DoneConn)" and q': "q' = upd_conn el Use q"
    using g False by (auto simp: GetConn_def split: if_splits option.splits)
  have "el \<in> set (q_Conn q)" using PickLeastLoaded_iff(2) [OF p] by blast
  then show ?thesis using inv unfolding h q' by (auto simp: pool_inv_def add.commute Use_def)
qed

lemma pool_inv_Get_err:
  assumes "pool_inv q H" and "GetConn st1 st2 dial q = (Inl e, q')"
  shows "pool_inv q' H"
  using assms by (auto simp: GetConn_def GetConnOutSide_def Dial_eq pool_inv_def split: if_splits option.splits)

lemma pool_inv_Release:
  assumes inv: "pool_inv q (add_mset (c, f) H)"
  shows "pool_inv (run_release c f q) H"
proof (cases f)
  case CloseConn
  then show ?thesis using inv by (auto simp: pool_inv_def run_release_def)
next
  case DoneConn
  have "InUse (q_heap q c) = of_nat (count H (c, DoneConn)) + 1"
    using inv DoneConn by (simp add: pool_inv_def add.commute)
  then show ?thesis using inv DoneConn
    by (auto simp: pool_inv_def run_release_def Done_def)
qed

lemma pool_inv_fresh_closed:
  assumes "pool_inv q H"
  shows "pool_inv (close_conn (q_next q) ((upd_conn (q_next q) (\<lambda>_. \<lparr>ID = 0, InUse = 0\<rparr>) q)\<lparr>q_next := q_next q + 1\<rparr>)) H"
  using assms count_fresh [OF assms, of DoneConn] pool_nth_fresh [OF assms]
  by (auto simp: pool_inv_def less_Suc_eq)

text \<open>Putting a fresh connection in the place of \<open>old\<close> and closing \<open>old\<close>.\<close>

lemma pool_inv_swap:
  assumes inv: "pool_inv q H" and i: "i < length (q_Conn q)" and sh: "\<not> q_shutdown q"
  defines "new \<equiv> q_next q" and "old \<equiv> q_Conn q ! i"
  shows "pool_inv (q\<lparr>q_heap := (q_heap q)(new := \<lparr>ID = ID (q_heap q old), InUse = 0\<rparr>), q_next := new + 1,
      q_Conn := (q_Conn q)[i := new], q_closed := insert old (q_closed q)\<rparr>) H"
proof -
  let ?cs = "(q_Conn q)[i := new]"
  have fresh: "new \<notin> set (q_Conn q)" using inv by (auto simp: pool_inv_def new_def)
  have d: "distinct ?cs" using inv fresh by (simp add: pool_inv_def distinct_list_update)
  have "ID (((q_heap q)(new := \<lparr>ID = ID (q_heap q old), InUse = 0\<rparr>)) (?cs ! j)) = j + 1" if "j < length ?cs" for j
  proof (cases "j = i")
    case True
    then show ?thesis using inv i by (simp add: pool_inv_def old_def)
  next
    case False
    then have "?cs ! j = q_Conn q ! j" by simp
    moreover have "q_Conn q ! j \<noteq> new" using that fresh by (metis length_list_update nth_mem)
    ultimately show ?thesis using inv that by (simp add: pool_inv_def)
  qed
  moreover have "c \<in> set ?cs \<or> c \<in> insert old (q_closed q) \<or> (c, CloseConn) \<in># H" if "c < new + 1" for c
  proof (cases "c = new")
    case True
    then show ?thesis using i by (simp add: set_update_memI)
  next
    case False
    then have "c \<in> set (q_Conn q) \<or> c \<in> q_closed q \<or> (c, CloseConn) \<in># H"
      using that inv by (simp add: pool_inv_def new_def)
    moreover have "c \<in> set ?cs" if "c \<in> set (q_Conn q)" "c \<noteq> old"
      using that by (metis in_set_conv_nth length_list_update nth_list_update_neq old_def)
    ultimately show ?thesis by blast
  qed
  moreover have "c < new + 1" if "c \<in> set ?cs" for c
  proof -
    have "c = new \<or> c \<in> set (q_Conn q)" using that set_update_subset_insert by fast
    moreover have "\<forall>c \<in> set (q_Conn q). c < new" using inv by (simp add: pool_inv_def new_def)
    ultimately show ?thesis by auto
  qed
  moreover have "length ?cs = q_Size q" "\<forall>h \<in># H. fst h < new + 1"
    using inv by (auto simp: pool_inv_def new_def)
  moreover have "InUse (((q_heap q)(new := \<lparr>ID = ID (q_heap q old), InUse = 0\<rparr>)) c) =
      of_nat (count H (c, DoneConn))" for c
    using inv count_fresh [OF inv, of DoneConn] by (simp add: pool_inv_def new_def)
  ultimately show ?thesis using d sh unfolding pool_inv_def by simp
qed

lemma pool_inv_Replace:
  assumes inv: "pool_inv q H"
  shows "pool_inv (replaceConn dial old q) H"
proof -
  let ?q = "q\<lparr>q_replacing := remove1 old (q_replacing q)\<rparr>"
  have inv': "pool_inv ?q H" using inv by (simp add: pool_inv_def)
  show ?thesis
  proof (cases dial)
    case (Some e)
    then show ?thesis using inv' by (simp add: replaceConn_def Dial_eq)
  next
    case None
    let ?q1 = "(upd_conn (q_next ?q) (\<lambda>_. \<lparr>ID = 0, InUse = 0\<rparr>) ?q)\<lparr>q_next := q_next ?q + 1\<rparr>"
    show ?thesis
    proof (cases "q_shutdown q \<or> replace_first old (q_next q) (q_Conn q) = None")
      case True
      then have "replaceConn dial old q = close_conn (q_next ?q) ?q1"
        using None by (auto simp: replaceConn_def Dial_eq Let_def)
      then show ?thesis using pool_inv_fresh_closed [OF inv'] by simp
    next
      case False
      then obtain cs where cs: "replace_first old (q_next q) (q_Conn q) = Some cs" by auto
      then obtain i where i: "i < length (q_Conn q)" "q_Conn q ! i = old" "cs = (q_Conn q)[i := q_next q]"
        by (rule replace_first_Some)
      have neq: "old \<noteq> q_next q" using i pool_nth_fresh [OF inv, of i] inv by (simp add: pool_inv_def)
      have "replaceConn dial old q = ?q\<lparr>q_heap := (q_heap ?q)(q_next ?q := \<lparr>ID = ID (q_heap ?q (q_Conn ?q ! i)), InUse = 0\<rparr>),
          q_next := q_next ?q + 1, q_Conn := (q_Conn ?q)[i := q_next ?q], q_closed := insert (q_Conn ?q ! i) (q_closed ?q)\<rparr>"
        using None False cs i neq by (simp add: replaceConn_def Dial_eq Let_def upd_conn_def close_conn_def)
      then show ?thesis using pool_inv_swap [OF inv', of i] i False by simp
    qed
  qed
qed

lemma foldl_close:
  "foldl (\<lambda>q c. close_conn c q) q cs = q\<lparr>q_closed := set cs \<union> q_closed q\<rparr>"
  by (induction cs arbitrary: q) (auto simp: close_conn_def)

lemma pool_inv_Destroy:
  assumes "pool_inv q H" and "Destroy q = Some q'"
  shows "pool_inv q' H"
proof -
  have "q' = q\<lparr>q_shutdown := True, q_closed := set (q_Conn q) \<union> q_closed q\<rparr>"
    using assms by (auto simp: Destroy_def foldl_close pool_inv_def split: if_splits)
  then show ?thesis using assms(1) by (auto simp: pool_inv_def)
qed

lemma pool_inv_step: "pool_step c c' \<Longrightarrow> pool_inv (fst c) (snd c) \<Longrightarrow> pool_inv (fst c') (snd c')"
  by (induction rule: pool_step.induct)
     (simp_all only: fst_conv snd_conv, blast intro: pool_inv_Get_ok, blast intro: pool_inv_Get_err,
      blast intro: pool_inv_Release, blast intro: pool_inv_Replace, blast intro: pool_inv_Destroy)

text \<open>A pool that was initialised without an error is full.\<close>

definition filling :: "ConnQueue \<Rightarrow> bool" where
  "filling q \<longleftrightarrow> pool_inv (q\<lparr>q_Size := length (q_Conn q)\<rparr>) {#} \<and> set (q_Conn q) = {..< q_next q} \<and>
     \<not> q_shutdown q"

lemma filling_Add:
  assumes "filling q" and "Dial None q = (Inr c, q1)"
  shows "filling (Add c q1)"
proof -
  have c: "c = q_next q" "q1 = (upd_conn (q_next q) (\<lambda>_. \<lparr>ID = 0, InUse = 0\<rparr>) q)\<lparr>q_next := q_next q + 1\<rparr>"
    using assms(2) by (auto simp: Dial_eq)
  have fresh: "q_next q \<notin> set (q_Conn q)" using assms(1) by (simp add: filling_def)
  have ids: "ID (q_heap q (q_Conn q ! i)) = i + 1" "q_Conn q ! i \<noteq> q_next q" if "i < length (q_Conn q)" for i
    using assms(1) that fresh nth_mem [OF that] by (auto simp: filling_def pool_inv_def)
  show ?thesis using assms(1) fresh ids unfolding c
    by (auto simp: filling_def pool_inv_def Add_def Let_def less_Suc_eq nth_append)
qed

lemma init_loop_filling:
  assumes "init_loop ds q = (Inr (), q')" and "filling q"
  shows "filling q' \<and> length (q_Conn q') = length (q_Conn q) + length ds \<and> q_Size q' = q_Size q"
  using assms
proof (induction ds arbitrary: q)
  case (Cons d ds)
  obtain c q1 where d: "d = None" "Dial None q = (Inr c, q1)"
    using Cons.prems(1) by (cases d) (auto simp: Dial_eq)
  then have "init_loop ds (Add c q1) = (Inr (), q')" using Cons.prems(1) by simp
  from Cons.IH [OF this filling_Add [OF Cons.prems(2) d(2)]] show ?case
    using d(2) by (auto simp: Add_def Dial_eq Let_def)
qed simp

lemma filling_new [simp]: "filling (NewConnQueue n)"
  by (simp add: filling_def pool_inv_def NewConnQueue_def)

lemma Init_inv:
  assumes "Init dials (NewConnQueue n) = (Inr (), q)"
  shows "pool_inv q {#} \<and> q_Size q = n \<and> \<not> q_shutdown q"
proof -
  have q: "filling q" "length (q_Conn q) = n" "q_Size q = n"
    using init_loop_filling [OF assms[unfolded Init_def] filling_new] by (simp_all add: NewConnQueue_def)
  have "q\<lparr>q_Size := length (q_Conn q)\<rparr> = q\<lparr>q_Size := q_Size q\<rparr>" by (simp only: q(2,3))
  also have "\<dots> = q" by simp
  finally have "pool_inv q {#}" using q(1) unfolding filling_def by metis
  then show ?thesis using q by (simp add: filling_def)
qed

lemma pool_inv_reachable:
  "pool_reachable q0 c \<Longrightarrow> pool_inv q0 {#} \<Longrightarrow> pool_inv (fst c) (snd c)"
  by (induction rule: pool_reachable.induct) (auto intro: pool_inv_step)

section \<open>Properties\<close>

text \<open>C27: The pool keeps its books. From a pool that was initialised, after any interleaving of
  acquisitions, releases, replacements and a shutdown: each connection's usage counter is the
  number of handles on it that were not given back (modulo \<open>2 ^ 32\<close>); the pool has its
  configured size with the identifiers one to the size, in order; every connection ever dialed
  is in the pool, or closed, or held by a caller that will close it; and after a shutdown
  every pooled connection is closed and \<open>Destroy\<close> never indexes out of range.\<close>

theorem pool_accounting:
  assumes "Init dials (NewConnQueue n) = (Inr (), q0)" and "pool_reachable q0 (q, H)"
  shows "InUse (q_heap q c) = of_nat (count H (c, DoneConn)) \<and>
    map (\<lambda>c. ID (q_heap q c)) (q_Conn q) = [1..<q_Size q + 1] \<and>
    (\<forall>c < q_next q. c \<in> set (q_Conn q) \<or> c \<in> q_closed q \<or> (c, CloseConn) \<in># H) \<and>
    (q_shutdown q \<longrightarrow> set (q_Conn q) \<subseteq> q_closed q) \<and> Destroy q \<noteq> None"
proof -
  have inv: "pool_inv q H"
    using pool_inv_reachable [OF assms(2)] Init_inv [OF assms(1)] by simp
  have "map (\<lambda>c. ID (q_heap q c)) (q_Conn q) = [1..<q_Size q + 1]"
    using inv by (intro nth_equalityI) (auto simp: pool_inv_def nth_upt simp del: upt_Suc)
  then show ?thesis using inv by (auto simp: pool_inv_def Destroy_def)
qed

theorem pool_accounting_witness:
  "\<exists>q0 q H. Init (\<lambda>_. None) (NewConnQueue 2) = (Inr (), q0) \<and> pool_reachable q0 (q, H) \<and>
     H \<noteq> {#} \<and> map (\<lambda>c. ID (q_heap q c)) (q_Conn q) = [1..<q_Size q + 1]"
proof -
  obtain q0 where i: "Init (\<lambda>_. None) (NewConnQueue 2) = (Inr (), q0)"
    by (simp add: Init_def NewConnQueue_def Dial_eq upt_rec)
  have ne: "q_Size q0 = 2" "\<not> q_shutdown q0" "length (q_Conn q0) = 2"
    using Init_inv [OF i] by (auto simp: pool_inv_def)
  then have "PickLeastLoaded (\<lambda>_. Ready) (pool_load q0) (q_Conn q0) \<noteq> None"
    by (subst PickLeastLoaded_iff) (cases "q_Conn q0"; auto)
  then obtain h q where g: "GetConn (\<lambda>_. Ready) (\<lambda>_. Ready) None q0 = (Inr h, q)"
    using ne by (auto simp: GetConn_def)
  have r: "pool_reachable q0 (q, {#h#})" using Pool_step [OF Pool_init Get_ok [OF g]] .
  show ?thesis using pool_accounting [OF i r] i r by (metis add_mset_not_empty)
qed

text \<open>\<open>GetConn\<close> hands out a least-loaded usable connection: it succeeds on a running,
  non-empty pool exactly when some connection is not shut down (and the chosen one still is
  not), and then no usable connection has a lower usage counter; only that counter changes, by
  one.\<close>

theorem GetConn_least_loaded:
  assumes "0 < q_Size q" and "\<not> q_shutdown q"
  shows "case GetConn state state dial q of
    (Inr (el, f), q') \<Rightarrow> el \<in> set (q_Conn q) \<and> state el \<noteq> Shutdown \<and> f = DoneConn \<and>
        (\<forall>c \<in> set (q_Conn q). state c \<noteq> Shutdown \<longrightarrow> InUse (q_heap q el) \<le> InUse (q_heap q c)) \<and>
        q' = q\<lparr>q_heap := (q_heap q)(el := (q_heap q el)\<lparr>InUse := InUse (q_heap q el) + 1\<rparr>)\<rparr>
  | (Inl e, q') \<Rightarrow> (\<forall>c \<in> set (q_Conn q). state c = Shutdown) \<and> q' = q"
proof (cases "PickLeastLoaded state (pool_load q) (q_Conn q)")
  case None
  then show ?thesis using assms PickLeastLoaded_iff(1) [of state "pool_load q" "q_Conn q"]
    by (simp add: GetConn_def)
next
  case (Some el)
  then show ?thesis using assms PickLeastLoaded_iff(2) [OF Some]
    by (simp add: GetConn_def pool_load_def upd_conn_def Use_def)
qed

theorem GetConn_least_loaded_witness:
  "case GetConn (\<lambda>_. Ready) (\<lambda>_. Ready) None ((NewConnQueue 1)\<lparr>q_Conn := [0], q_next := 1\<rparr>) of
    (Inr (el, f), q') \<Rightarrow> el = 0 \<and> f = DoneConn \<and> InUse (q_heap q' 0) = 1 | (Inl e, q') \<Rightarrow> False"
  using GetConn_least_loaded [of "(NewConnQueue 1)\<lparr>q_Conn := [0], q_next := 1\<rparr>" "\<lambda>_. Ready" None]
  by (auto simp: NewConnQueue_def split: prod.splits sum.splits)

text \<open>A dead connection is not replaced. \<open>GetConn\<close> starts a replacement only for a
  connection that was usable when it was picked and shut down an instant later: with one
  consistent view of the connectivity states it never starts one, and a pool whose connections
  are all shut down refuses every request and stays as it is.\<close>

theorem dead_connections_stay:
  "q_replacing (snd (GetConn state state dial q)) = q_replacing q \<and>
   (0 < q_Size q \<and> \<not> q_shutdown q \<and> (\<forall>c \<in> set (q_Conn q). state c = Shutdown) \<longrightarrow>
      GetConn state state dial q = (Inl (Errorf ''no available connections in pool''), q))"
proof (cases "PickLeastLoaded state (pool_load q) (q_Conn q)")
  case None
  then show ?thesis by (auto simp: GetConn_def GetConnOutSide_def Dial_eq split: option.split)
next
  case (Some el)
  then show ?thesis using PickLeastLoaded_iff(2) [OF Some]
    by (auto simp: GetConn_def GetConnOutSide_def Dial_eq split: option.split)
qed

theorem dead_connections_stay_witness:
  "GetConn (\<lambda>_. Shutdown) (\<lambda>_. Shutdown) None ((NewConnQueue 1)\<lparr>q_Conn := [0], q_next := 1\<rparr>) =
     (Inl (Errorf ''no available connections in pool''), (NewConnQueue 1)\<lparr>q_Conn := [0], q_next := 1\<rparr>)"
  using dead_connections_stay [of "\<lambda>_. Shutdown" None "(NewConnQueue 1)\<lparr>q_Conn := [0], q_next := 1\<rparr>"]
  by (simp add: NewConnQueue_def)

end
