(* ===== verification/DnsBridge.thy ===== *)
theory DnsBridge
  imports GoNet
begin

text \<open>
  The DNS path and the authentication of RPC calls: \<open>internal/dns/dns.go\<close>,
  \<open>rpc/client/client.go\<close> (\<open>DnsResolve\<close>, \<open>decodeDNSResponse\<close>), \<open>rpc/server/{server,dns}.go\<close>,
  \<open>rpc/utils/dns_conversion.go\<close>, \<open>rpc/interceptor.go\<close>, \<open>rpc/config.go\<close>,
  \<open>pkg/config/server/user.go\<close> and \<open>pkg/dns/dns.go\<close>. The DNS library's resource records and
  their wire codec are a parameter, as is the upstream exchange. Nil elements are \<open>None\<close>.
\<close>

section \<open>Records (dns\_conversion.go)\<close>

record 'rr dns_lib =
  PackRR :: "'rr \<Rightarrow> bytes result"
  UnpackRR :: "bytes \<Rightarrow> 'rr result"
  hdr_Name :: "'rr \<Rightarrow> string"
  hdr_Rrtype :: "'rr \<Rightarrow> u16"
  hdr_Class :: "'rr \<Rightarrow> u16"
  hdr_Ttl :: "'rr \<Rightarrow> u32"

record RR_Record =
  WireData :: bytes
  rr_Name :: string
  Rrtype :: u32
  Class :: u32
  Ttl :: u32

definition ConvertRRToProto :: "'rr dns_lib \<Rightarrow> 'rr option \<Rightarrow> RR_Record result" where
  "ConvertRRToProto lib rro =
     (case rro of
        None \<Rightarrow> Inl (Errorf ''nil RR provided'')
      | Some rr \<Rightarrow>
          (case PackRR lib rr of
             Inl e \<Rightarrow> Inl (Wrap ''failed to pack RR'' e)
           | Inr wire \<Rightarrow> Inr \<lparr>WireData = wire, rr_Name = hdr_Name lib rr, Rrtype = ucast (hdr_Rrtype lib rr),
                              Class = ucast (hdr_Class lib rr), Ttl = hdr_Ttl lib rr\<rparr>))"

definition ConvertProtoToRR :: "'rr dns_lib \<Rightarrow> RR_Record option \<Rightarrow> 'rr result" where
  "ConvertProtoToRR lib p =
     (case p of
        None \<Rightarrow> Inl (Errorf ''nil proto RR provided'')
      | Some r \<Rightarrow>
          if WireData r = [] then Inl (Errorf ''empty wire data'')
          else case UnpackRR lib (WireData r) of
              Inl e \<Rightarrow> Inl (Wrap ''failed to unpack RR'' e)
            | Inr rr \<Rightarrow> Inr rr)"

text \<open>A loop that converts every element and stops at the first error.\<close>

fun convert_all :: "('a \<Rightarrow> 'b result) \<Rightarrow> 'a list \<Rightarrow> 'b list result" where
  "convert_all f [] = Inr []"
| "convert_all f (x # xs) =
     (case f x of
        Inl e \<Rightarrow> Inl e
      | Inr y \<Rightarrow> (case convert_all f xs of Inl e \<Rightarrow> Inl e | Inr ys \<Rightarrow> Inr (y # ys)))"

definition ConvertRRSliceToProto :: "'rr dns_lib \<Rightarrow> 'rr option list \<Rightarrow> RR_Record list result" where
  "ConvertRRSliceToProto lib rrs =
     (case convert_all (ConvertRRToProto lib) rrs of
        Inl e \<Rightarrow> Inl (Wrap ''convert DNS RR to proto'' e) | Inr ps \<Rightarrow> Inr ps)"

definition ConvertProtoToRRSlice :: "'rr dns_lib \<Rightarrow> RR_Record option list \<Rightarrow> 'rr list result" where
  "ConvertProtoToRRSlice lib ps =
     (case convert_all (ConvertProtoToRR lib) ps of
        Inl e \<Rightarrow> Inl (Wrap ''convert proto RR to DNS RR'' e) | Inr rrs \<Rightarrow> Inr rrs)"

section \<open>Server side (server.go, dns.go)\<close>

definition RcodeSuccess :: int where "RcodeSuccess = 0"
definition RcodeFormatError :: int where "RcodeFormatError = 1"
definition RcodeServerFailure :: int where "RcodeServerFailure = 2"
definition TypeAAAA :: u16 where "TypeAAAA = 28"

lemmas dns_consts [simp] = RcodeSuccess_def RcodeFormatError_def RcodeServerFailure_def TypeAAAA_def

record DnsRequestItem =
  qi_Fqdn :: string
  qi_QType :: u32
  qi_BlockIpv6 :: bool

record DnsResult =
  dr_Fqdn :: string
  dr_Records :: "RR_Record option list"
  dr_Rcode :: u32

definition safeUint32ToUint16 :: "u32 \<Rightarrow> u16 option" where
  "safeUint32ToUint16 val = (if val > 65535 then None else Some (ucast val))"

text \<open>The upstream's answer: an error, no message, or a message's answers and code.\<close>

type_synonym 'rr exchange = "string \<Rightarrow> u16 \<Rightarrow> ('rr list \<times> int) option result"

definition resolveDNSRecords :: "'rr exchange \<Rightarrow> string \<Rightarrow> u16 \<Rightarrow> 'rr list \<times> int" where
  "resolveDNSRecords ex fqdn qtype =
     (case ex fqdn qtype of
        Inl e \<Rightarrow> ([], RcodeServerFailure)
      | Inr None \<Rightarrow> ([], RcodeServerFailure)
      | Inr (Some (answer, rcode)) \<Rightarrow> (answer, rcode))"

definition resolve_item :: "'rr dns_lib \<Rightarrow> 'rr exchange \<Rightarrow> DnsRequestItem option \<Rightarrow> DnsResult" where
  "resolve_item lib ex item =
     (case item of
        None \<Rightarrow> \<lparr>dr_Fqdn = [], dr_Records = [], dr_Rcode = word_of_int RcodeFormatError\<rparr>
      | Some it \<Rightarrow>
          let result = \<lparr>dr_Fqdn = qi_Fqdn it, dr_Records = [], dr_Rcode = 0\<rparr> in
          (case safeUint32ToUint16 (qi_QType it) of
             None \<Rightarrow> result\<lparr>dr_Rcode := word_of_int RcodeFormatError\<rparr>
           | Some qtype \<Rightarrow>
               if qi_BlockIpv6 it \<and> qtype = TypeAAAA then result\<lparr>dr_Rcode := word_of_int RcodeSuccess\<rparr>
               else
                 let (records0, rcode) = resolveDNSRecords ex (qi_Fqdn it) qtype;
                     records = (if qi_BlockIpv6 it then filter (\<lambda>rr. hdr_Rrtype lib rr \<noteq> TypeAAAA) records0
                                else records0);
                     result1 = result\<lparr>dr_Rcode := word_of_int rcode\<rparr>
                 in if records \<noteq> [] then
                      (case ConvertRRSliceToProto lib (map Some records) of
                         Inl e \<Rightarrow> result1\<lparr>dr_Rcode := word_of_int RcodeServerFailure\<rparr>
                       | Inr ps \<Rightarrow> result1\<lparr>dr_Records := map Some ps\<rparr>)
                    else result1))"

definition server_DnsResolve :: "'rr dns_lib \<Rightarrow> 'rr exchange \<Rightarrow> DnsRequestItem option list \<Rightarrow> DnsResult list result" where
  "server_DnsResolve lib ex items =
     (if items = [] then Inl (Sentinel ErrBadRequest) else Inr (map (resolve_item lib ex) items))"

section \<open>Client side (client.go, internal/dns)\<close>

record DnsRequest =
  rq_Fqdn :: string
  rq_QType :: u16
  rq_BlockIPv6 :: bool

text \<open>The loop of \<open>decodeDNSResponse\<close> with the code and the records gathered so far.\<close>

fun decode_loop :: "'rr dns_lib \<Rightarrow> 'rr list \<Rightarrow> int \<Rightarrow> DnsResult option list \<Rightarrow> ('rr list \<times> int) result" where
  "decode_loop lib results rcode [] = Inr (results, rcode)"
| "decode_loop lib results rcode (None # items) = decode_loop lib results rcode items"
| "decode_loop lib results rcode (Some item # items) =
     (if 15 < dr_Rcode item then Inl (Errorf ''dns: invalid response code'')
      else
        let rcode1 = (if rcode = RcodeSuccess \<and> uint (dr_Rcode item) \<noteq> RcodeSuccess then uint (dr_Rcode item) else rcode)
        in if dr_Records item = [] then decode_loop lib results rcode1 items
           else case ConvertProtoToRRSlice lib (dr_Records item) of
               Inl e \<Rightarrow> Inl (Wrap ''dns: convert records'' e)
             | Inr records \<Rightarrow> decode_loop lib (results @ records) rcode1 items)"

text \<open>The result and, next to an error, the code the caller is told: \<open>RcodeServerFailure\<close>.\<close>

definition decodeDNSResponse :: "'rr dns_lib \<Rightarrow> DnsResult option list option \<Rightarrow> ('rr list \<times> int) result" where
  "decodeDNSResponse lib resp =
     (case resp of
        None \<Rightarrow> Inl (Errorf ''gRPC DNS resolve returned a nil response'')
      | Some items \<Rightarrow> decode_loop lib [] RcodeSuccess items)"

definition to_item :: "DnsRequest \<Rightarrow> DnsRequestItem" where
  "to_item r = \<lparr>qi_Fqdn = rq_Fqdn r, qi_QType = ucast (rq_QType r), qi_BlockIpv6 = rq_BlockIPv6 r\<rparr>"

text \<open>\<open>Client.DnsResolve\<close> over a call that reaches the server.\<close>

definition client_DnsResolve :: "'rr dns_lib \<Rightarrow> (DnsRequestItem option list \<Rightarrow> DnsResult list result)
    \<Rightarrow> DnsRequest option list \<Rightarrow> ('rr list \<times> int) result" where
  "client_DnsResolve lib call requests =
     (if requests = [] then Inr ([], RcodeSuccess)
      else if None \<in> set requests then Inl (Errorf ''dns request is nil'')
      else case call (map (map_option to_item) requests) of
          Inl e \<Rightarrow> Inl (Wrap ''rpc dns'' e)
        | Inr resp \<Rightarrow> decodeDNSResponse lib (Some (map Some resp)))"

text \<open>\<open>ServeDNS\<close>: the answer section and the code of the reply to the questions of a message.\<close>

definition ServeDNS :: "'rr dns_lib \<Rightarrow> unit result \<Rightarrow> (DnsRequestItem option list \<Rightarrow> DnsResult list result)
    \<Rightarrow> bool \<Rightarrow> (string \<times> u16) list \<Rightarrow> 'rr list \<times> int" where
  "ServeDNS lib newClient call blockIPv6DNS questions =
     (case newClient of
        Inl e \<Rightarrow> ([], RcodeServerFailure)
      | Inr _ \<Rightarrow>
          (case client_DnsResolve lib call (map (\<lambda>(name, qtype). Some \<lparr>rq_Fqdn = name, rq_QType = qtype,
               rq_BlockIPv6 = blockIPv6DNS\<rparr>) questions) of
             Inl e \<Rightarrow> ([], RcodeServerFailure)
           | Inr (results, rcode) \<Rightarrow> (results, rcode)))"

section \<open>Address records (dns\_conversion.go)\<close>

definition TypeA :: u16 where "TypeA = 1"
definition ClassINET :: u16 where "ClassINET = 1"

record RR_Header =
  rrh_Name :: string
  rrh_Rrtype :: u16
  rrh_Class :: u16
  rrh_Ttl :: u32

datatype address_rr = RR_A RR_Header net_IP | RR_AAAA RR_Header net_IP

text \<open>\<open>dns.Fqdn\<close> and the two name tables of the DNS library are arguments.\<close>

definition CreateBasicRRFromTypeAndIP :: "(string \<Rightarrow> string) \<Rightarrow> string \<Rightarrow> u16 \<Rightarrow> net_IP \<Rightarrow> u32 \<Rightarrow> address_rr option" where
  "CreateBasicRRFromTypeAndIP fqdn name qtype ip ttl =
     (let header = \<lparr>rrh_Name = fqdn name, rrh_Rrtype = qtype, rrh_Class = ClassINET, rrh_Ttl = ttl\<rparr> in
      if qtype = TypeA then map_option (RR_A header) (IP_To4 ip)
      else if qtype = TypeAAAA then
        (case IP_To16 ip of Some ipv6 \<Rightarrow> if IP_To4 ip = None then Some (RR_AAAA header ipv6) else None | None \<Rightarrow> None)
      else None)"

definition GetRRTypeString :: "(u16 \<Rightarrow> string option) \<Rightarrow> u16 \<Rightarrow> string" where
  "GetRRTypeString typeToString rrtype =
     (case typeToString rrtype of Some s \<Rightarrow> s | None \<Rightarrow> ''TYPE'' @ Itoa (unat rrtype))"

definition GetRRClassString :: "(u16 \<Rightarrow> string option) \<Rightarrow> u16 \<Rightarrow> string" where
  "GetRRClassString classToString cls =
     (case classToString cls of Some s \<Rightarrow> s | None \<Rightarrow> ''CLASS'' @ Itoa (unat cls))"

text \<open>An address yields a record for exactly one of the two types, of the right length.\<close>

lemma one_address_record:
  assumes "length ip = 4 \<or> length ip = 16"
  shows "(CreateBasicRRFromTypeAndIP fqdn name TypeA ip ttl = None) = (CreateBasicRRFromTypeAndIP fqdn name TypeAAAA ip ttl \<noteq> None) \<and>
    (CreateBasicRRFromTypeAndIP fqdn name TypeA ip ttl = Some (RR_A h a) \<longrightarrow> length a = 4) \<and>
    (CreateBasicRRFromTypeAndIP fqdn name TypeAAAA ip ttl = Some (RR_AAAA h a) \<longrightarrow> length a = 16)"
  using assms by (auto simp: CreateBasicRRFromTypeAndIP_def TypeA_def TypeAAAA_def Let_def IP_To16_def IP_To4_length
      split: option.splits if_splits)

section \<open>Resolver address (pkg/dns)\<close>

datatype dns_type = DnsDefault | DnsCommon | DnsDOT | DnsDOH | DnsOther string

definition Address :: "dns_type \<Rightarrow> string \<Rightarrow> string" where
  "Address typ server =
     (if typ = DnsDefault \<or> typ = DnsCommon then
        (case net_SplitHostPort server of Inr _ \<Rightarrow> server | Inl _ \<Rightarrow> net_JoinHostPort server ''53'')
      else [])"

definition SetDefault :: "dns_type \<Rightarrow> unit result" where
  "SetDefault typ = (if typ = DnsDefault \<or> typ = DnsCommon then Inr () else Inl (Errorf ''dns: type not implemented''))"

section \<open>Users and call authentication (user.go, interceptor.go, config.go)\<close>

record User =
  UUID :: string
  Remark :: string

fun Users_Match :: "User list \<Rightarrow> string \<Rightarrow> bool" where
  "Users_Match [] uid = False"
| "Users_Match (u # us) uid = (if UUID u = uid then True else Users_Match us uid)"

definition NewUsersMatchMap :: "User list \<Rightarrow> string set" where
  "NewUsersMatchMap users = foldl (\<lambda>m u. insert (UUID u) m) {} users"

definition UsersMatchMap_Match :: "string set \<Rightarrow> string \<Rightarrow> bool" where
  "UsersMatchMap_Match m uid = (uid \<in> m)"

text \<open>The metadata of a call: none, or the values of \<open>x-user-id\<close>.\<close>

definition extractAndValidateUserID :: "string list option \<Rightarrow> (string \<Rightarrow> bool) \<Rightarrow> string result" where
  "extractAndValidateUserID md matchUser =
     (case md of
        None \<Rightarrow> Inl (Errorf ''missing metadata'')
      | Some values \<Rightarrow>
          if values = [] \<or> hd values = [] then Inl (Errorf ''missing user id'')
          else let uid = hd values in
            if \<not> matchUser uid then Inl (Errorf ''unknown user'') else Inr uid)"

text \<open>Both server interceptors: the handler runs with the validated user or not at all.\<close>

definition ServerAuthInterceptor :: "(string \<Rightarrow> bool) \<Rightarrow> (string \<Rightarrow> 'a result) \<Rightarrow> string list option \<Rightarrow> 'a result" where
  "ServerAuthInterceptor matchUser handler md =
     (case extractAndValidateUserID md matchUser of Inl e \<Rightarrow> Inl e | Inr uid \<Rightarrow> handler uid)"

definition ClientAuthInterceptor :: "string \<Rightarrow> string list \<Rightarrow> string list" where
  "ClientAuthInterceptor uuid outgoing = outgoing @ [uuid]"

text \<open>\<open>NewServer\<close> refuses an empty user list and installs the match map.\<close>

definition NewServer :: "User list \<Rightarrow> (string \<Rightarrow> bool) result" where
  "NewServer users =
     (if users = [] then Inl (Errorf ''users can not be empty'')
      else Inr (UsersMatchMap_Match (NewUsersMatchMap users)))"

record ServiceConfig =
  serviceName :: string
  methodNames :: "string \<rightharpoonup> string"

definition method_path :: "string \<Rightarrow> string \<Rightarrow> string" where
  "method_path name method = ''/'' @ name @ ''/'' @ method"

definition SetServiceName :: "string \<Rightarrow> ServiceConfig" where
  "SetServiceName name0 =
     (let name = (if name0 = [] then ''proxy.Proxy'' else name0) in
      \<lparr>serviceName = name,
       methodNames = [''DnsResolve'' \<mapsto> method_path name ''DnsResolve'', ''Proxy'' \<mapsto> method_path name ''Proxy'']\<rparr>)"

definition GetMethodName :: "ServiceConfig \<Rightarrow> string \<Rightarrow> string" where
  "GetMethodName cfg method =
     (case methodNames cfg method of Some full \<Rightarrow> full | None \<Rightarrow> method_path (serviceName cfg) method)"

section \<open>Lemmas\<close>

text \<open>What is relied on of the DNS library: packing and unpacking are inverse.\<close>

definition wire_codec :: "'rr dns_lib \<Rightarrow> bool" where
  "wire_codec lib \<longleftrightarrow> (\<forall>rr. \<exists>wire. PackRR lib rr = Inr wire \<and> wire \<noteq> [] \<and> UnpackRR lib wire = Inr rr)"

lemma convert_roundtrip:
  assumes "wire_codec lib"
  shows "\<exists>ps. ConvertRRSliceToProto lib (map Some rrs) = Inr ps \<and> length ps = length rrs \<and>
    ConvertProtoToRRSlice lib (map Some ps) = Inr rrs"
proof (induction rrs)
  case Nil
  show ?case by (simp add: ConvertRRSliceToProto_def ConvertProtoToRRSlice_def)
next
  case (Cons rr rrs)
  obtain wire where "PackRR lib rr = Inr wire" "wire \<noteq> []" "UnpackRR lib wire = Inr rr"
    using assms unfolding wire_codec_def by blast
  with Cons show ?case
    by (auto simp: ConvertRRSliceToProto_def ConvertProtoToRRSlice_def ConvertRRToProto_def ConvertProtoToRR_def
        split: sum.splits)
qed

lemma safe_ucast [simp]: "safeUint32ToUint16 (ucast (q :: u16)) = Some q"
proof -
  have "unat q < 65536" using unsigned_less [of q] by simp
  then have "\<not> (ucast q :: u32) > 65535"
    by (simp add: word_less_nat_alt unsigned_ucast_eq take_bit_nat_eq_self)
  moreover have "(ucast (ucast q :: u32) :: u16) = q"
    by (rule bit_word_eqI) (simp add: bit_simps)
  ultimately show ?thesis by (simp add: safeUint32ToUint16_def)
qed

text \<open>What one request is answered: the upstream's records without the blocked ones, and its code.\<close>

definition blocked :: "DnsRequest \<Rightarrow> bool" where
  "blocked r \<longleftrightarrow> rq_BlockIPv6 r \<and> rq_QType r = TypeAAAA"

definition answer_records :: "'rr dns_lib \<Rightarrow> 'rr exchange \<Rightarrow> DnsRequest \<Rightarrow> 'rr list" where
  "answer_records lib ex r =
     (if blocked r then []
      else filter (\<lambda>rr. rq_BlockIPv6 r \<longrightarrow> hdr_Rrtype lib rr \<noteq> TypeAAAA)
             (fst (resolveDNSRecords ex (rq_Fqdn r) (rq_QType r))))"

definition answer_rcode :: "'rr exchange \<Rightarrow> DnsRequest \<Rightarrow> int" where
  "answer_rcode ex r = (if blocked r then 0 else snd (resolveDNSRecords ex (rq_Fqdn r) (rq_QType r)))"

definition first_failure :: "int list \<Rightarrow> int" where
  "first_failure cs = (case filter (\<lambda>c. c \<noteq> 0) cs of [] \<Rightarrow> 0 | c # _ \<Rightarrow> c)"

lemma resolve_item_answer:
  assumes "wire_codec lib"
  shows "\<exists>ps. resolve_item lib ex (Some (to_item r)) =
      \<lparr>dr_Fqdn = rq_Fqdn r, dr_Records = map Some ps, dr_Rcode = word_of_int (answer_rcode ex r)\<rparr> \<and>
    (ps = [] \<longleftrightarrow> answer_records lib ex r = []) \<and>
    ConvertProtoToRRSlice lib (map Some ps) = Inr (answer_records lib ex r)"
proof (cases "blocked r")
  case True
  then show ?thesis
    by (intro exI [of _ "[]"])
       (simp add: resolve_item_def to_item_def blocked_def answer_records_def answer_rcode_def
          ConvertProtoToRRSlice_def safeUint32ToUint16_def)
next
  case False
  let ?rs = "answer_records lib ex r"
  obtain rs rc where x: "resolveDNSRecords ex (rq_Fqdn r) (rq_QType r) = (rs, rc)" by force
  obtain ps where ps: "ConvertRRSliceToProto lib (map Some ?rs) = Inr ps" "length ps = length ?rs"
    "ConvertProtoToRRSlice lib (map Some ps) = Inr ?rs"
    using convert_roundtrip [OF assms, of ?rs] by blast
  have recs: "?rs = (if rq_BlockIPv6 r then filter (\<lambda>rr. hdr_Rrtype lib rr \<noteq> TypeAAAA) rs else rs)"
    using False x by (simp add: answer_records_def)
  have "resolve_item lib ex (Some (to_item r)) =
      \<lparr>dr_Fqdn = rq_Fqdn r, dr_Records = map Some ps, dr_Rcode = word_of_int (answer_rcode ex r)\<rparr>"
    using False x ps(1,2) recs
    by (cases "?rs = []") (auto simp: resolve_item_def to_item_def blocked_def answer_rcode_def Let_def)
  moreover have "ps = [] \<longleftrightarrow> ?rs = []" using ps(2) by auto
  ultimately show ?thesis using ps(3) by blast
qed

lemma rcode_word:
  assumes "0 \<le> c" and "c \<le> 15"
  shows "\<not> (15 :: u32) < word_of_int c" and "uint (word_of_int c :: u32) = c"
proof -
  show u: "uint (word_of_int c :: u32) = c" using assms by (simp add: uint_word_of_int)
  show "\<not> (15 :: u32) < word_of_int c" using assms u by (simp add: word_less_def)
qed

lemma decode_loop_answers:
  assumes "wire_codec lib" and "\<forall>r \<in> set reqs. 0 \<le> answer_rcode ex r \<and> answer_rcode ex r \<le> 15"
  shows "decode_loop lib acc rc (map (\<lambda>r. Some (resolve_item lib ex (Some (to_item r)))) reqs) =
    Inr (acc @ concat (map (answer_records lib ex) reqs),
         if rc = 0 then first_failure (map (answer_rcode ex) reqs) else rc)"
  using assms(2)
proof (induction reqs arbitrary: acc rc)
  case (Cons r reqs)
  let ?c = "answer_rcode ex r"
  obtain ps where ps: "resolve_item lib ex (Some (to_item r)) =
      \<lparr>dr_Fqdn = rq_Fqdn r, dr_Records = map Some ps, dr_Rcode = word_of_int ?c\<rparr>"
    "ps = [] \<longleftrightarrow> answer_records lib ex r = []"
    "ConvertProtoToRRSlice lib (map Some ps) = Inr (answer_records lib ex r)"
    using resolve_item_answer [OF assms(1)] by blast
  have c: "\<not> (15 :: u32) < word_of_int ?c" "uint (word_of_int ?c :: u32) = ?c"
    using rcode_word [of ?c] Cons.prems by auto
  let ?rc = "if rc = 0 \<and> ?c \<noteq> 0 then ?c else rc"
  have "decode_loop lib acc rc (map (\<lambda>r. Some (resolve_item lib ex (Some (to_item r)))) (r # reqs)) =
      decode_loop lib (acc @ answer_records lib ex r) ?rc (map (\<lambda>r. Some (resolve_item lib ex (Some (to_item r)))) reqs)"
    using ps c by (cases "ps = []") (simp_all add: Let_def)
  also have "\<dots> = Inr ((acc @ answer_records lib ex r) @ concat (map (answer_records lib ex) reqs),
      if ?rc = 0 then first_failure (map (answer_rcode ex) reqs) else ?rc)"
    using Cons.prems by (intro Cons.IH) auto
  finally show ?case by (auto simp: first_failure_def)
qed (simp add: first_failure_def)

lemma answer_records_block: "rr \<in> set (answer_records lib ex r) \<Longrightarrow> rq_BlockIPv6 r \<Longrightarrow> hdr_Rrtype lib rr \<noteq> 28"
  by (auto simp: answer_records_def split: if_splits)

lemma match_map_set: "NewUsersMatchMap users = UUID ` set users"
proof -
  have "foldl (\<lambda>m u. insert (UUID u) m) A users = UUID ` set users \<union> A" for A
    by (induction users arbitrary: A) auto
  then show ?thesis by (simp add: NewUsersMatchMap_def)
qed

lemma Users_Match_iff: "Users_Match users uid \<longleftrightarrow> uid \<in> UUID ` set users"
  by (induction users) auto

section \<open>Properties\<close>

text \<open>C28: The DNS bridge is faithful. For any list of questions, with a record codec that is
  its own inverse and upstream codes that fit the four bits of a DNS header, what \<open>ServeDNS\<close>
  answers after the round trip through the RPC server is the concatenation of the upstream's
  answers in question order and the first code that reports a failure; with IPv6 blocking on,
  AAAA questions are answered empty without asking the upstream and no AAAA record of any
  other answer is passed on.\<close>

theorem dns_bridge_faithful:
  assumes "wire_codec lib" and "qs \<noteq> []"
    and "reqs = map (\<lambda>(name, qtype). \<lparr>rq_Fqdn = name, rq_QType = qtype, rq_BlockIPv6 = block\<rparr>) qs"
    and "\<forall>r \<in> set reqs. 0 \<le> answer_rcode ex r \<and> answer_rcode ex r \<le> 15"
  shows "ServeDNS lib (Inr ()) (server_DnsResolve lib ex) block qs =
      (concat (map (answer_records lib ex) reqs), first_failure (map (answer_rcode ex) reqs)) \<and>
    (block \<longrightarrow> (\<forall>rr \<in> set (fst (ServeDNS lib (Inr ()) (server_DnsResolve lib ex) block qs)).
        hdr_Rrtype lib rr \<noteq> TypeAAAA))"
proof -
  have m: "map (\<lambda>(name, qtype). Some \<lparr>rq_Fqdn = name, rq_QType = qtype, rq_BlockIPv6 = block\<rparr>) qs = map Some reqs"
    unfolding assms(3) by (auto simp: comp_def)
  have "client_DnsResolve lib (server_DnsResolve lib ex) (map Some reqs) =
      decode_loop lib [] 0 (map (\<lambda>r. Some (resolve_item lib ex (Some (to_item r)))) reqs)"
    using assms(2,3) by (simp add: client_DnsResolve_def server_DnsResolve_def decodeDNSResponse_def comp_def image_iff)
  also have "\<dots> = Inr (concat (map (answer_records lib ex) reqs), first_failure (map (answer_rcode ex) reqs))"
    using decode_loop_answers [OF assms(1,4)] by simp
  finally have e: "ServeDNS lib (Inr ()) (server_DnsResolve lib ex) block qs =
      (concat (map (answer_records lib ex) reqs), first_failure (map (answer_rcode ex) reqs))"
    by (simp add: ServeDNS_def m)
  have "\<forall>r \<in> set reqs. rq_BlockIPv6 r = block" using assms(3) by auto
  then show ?thesis unfolding e using answer_records_block [of _ lib ex] by (auto simp: set_concat)
qed

definition byte_codec :: "byte dns_lib" where
  "byte_codec = \<lparr>PackRR = (\<lambda>b. Inr [b]), UnpackRR = (\<lambda>w. Inr (hd w)), hdr_Name = (\<lambda>_. ''x.''),
     hdr_Rrtype = ucast, hdr_Class = (\<lambda>_. 1), hdr_Ttl = (\<lambda>_. 60)\<rparr>"

theorem dns_bridge_faithful_witness:
  "ServeDNS byte_codec (Inr ()) (server_DnsResolve byte_codec (\<lambda>name q. Inr (Some ([1, 28], 3)))) True
     [(''a'', 1), (''b'', 28)] = ([1], 3)"
proof -
  let ?ex = "(\<lambda>name q. Inr (Some ([1, 28], 3))) :: byte exchange" and ?qs = "[(''a'', 1), (''b'', 28)]"
  let ?reqs = "map (\<lambda>(name, qtype). \<lparr>rq_Fqdn = name, rq_QType = qtype, rq_BlockIPv6 = True\<rparr>) ?qs"
  have c: "wire_codec byte_codec" by (simp add: wire_codec_def byte_codec_def)
  have r: "\<forall>r \<in> set ?reqs. 0 \<le> answer_rcode ?ex r \<and> answer_rcode ?ex r \<le> 15"
    by (simp add: answer_rcode_def resolveDNSRecords_def)
  have "ServeDNS byte_codec (Inr ()) (server_DnsResolve byte_codec ?ex) True ?qs =
      (concat (map (answer_records byte_codec ?ex) ?reqs), first_failure (map (answer_rcode ?ex) ?reqs))"
    by (rule conjunct1 [OF dns_bridge_faithful [OF c _ refl r]]) simp
  also have "\<dots> = ([1], 3)"
    by (simp add: answer_records_def answer_rcode_def resolveDNSRecords_def blocked_def first_failure_def byte_codec_def)
  finally show ?thesis .
qed

text \<open>An RPC handler runs exactly for configured users. On a server created for a user
  list, a call reaches its handler if and only if the first \<open>x-user-id\<close> value of its metadata
  is a non-empty identifier of a user of that list, and the handler is told that identifier;
  the constant-time lookup agrees with the linear one; and a client's own interceptor supplies
  such a value exactly when its configured identifier is one of them.\<close>

theorem auth_interceptor_exact:
  assumes "NewServer users = Inr matchUser"
  shows "(extractAndValidateUserID md matchUser = Inr uid \<longleftrightarrow>
      (\<exists>rest. md = Some (uid # rest) \<and> uid \<noteq> [] \<and> (\<exists>u \<in> set users. UUID u = uid))) \<and>
    (ServerAuthInterceptor matchUser (\<lambda>u. Inr u) md = Inr uid \<longleftrightarrow> extractAndValidateUserID md matchUser = Inr uid) \<and>
    matchUser uid = Users_Match users uid \<and>
    (extractAndValidateUserID (Some (ClientAuthInterceptor uuid [])) matchUser = Inr uid \<longleftrightarrow>
      uid = uuid \<and> uuid \<noteq> [] \<and> Users_Match users uuid)"
proof -
  have m: "matchUser = (\<lambda>uid. uid \<in> UUID ` set users)"
    using assms by (auto simp: NewServer_def UsersMatchMap_Match_def fun_eq_iff match_map_set split: if_splits)
  have "extractAndValidateUserID md matchUser = Inr uid \<longleftrightarrow>
      (\<exists>rest. md = Some (uid # rest) \<and> uid \<noteq> [] \<and> (\<exists>u \<in> set users. UUID u = uid))" for md uid
    unfolding m by (cases md) (auto simp: extractAndValidateUserID_def Let_def neq_Nil_conv image_iff)
  moreover have "ServerAuthInterceptor matchUser (\<lambda>u. Inr u) md = extractAndValidateUserID md matchUser"
    by (simp add: ServerAuthInterceptor_def split: sum.split)
  moreover have "matchUser u = Users_Match users u" for u by (simp add: m Users_Match_iff)
  moreover have "Users_Match users u \<longleftrightarrow> (\<exists>x \<in> set users. UUID x = u)" for u
    by (auto simp: Users_Match_iff)
  ultimately show ?thesis by (simp add: ClientAuthInterceptor_def) blast
qed

theorem auth_interceptor_exact_witness:
  "\<exists>m. NewServer [\<lparr>UUID = ''u1'', Remark = []\<rparr>] = Inr m \<and>
     extractAndValidateUserID (Some [''u1'']) m = Inr ''u1'' \<and> extractAndValidateUserID (Some [''x'', ''u1'']) m \<noteq> Inr ''x''"
proof -
  obtain m where n: "NewServer [\<lparr>UUID = ''u1'', Remark = []\<rparr>] = Inr m" by (simp add: NewServer_def)
  show ?thesis
    using auth_interceptor_exact [OF n, of "Some [''u1'']" "''u1''"]
      auth_interceptor_exact [OF n, of "Some [''x'', ''u1'']" "''x''"] n by auto
qed

end
