(* ===== verification/HttpProxy.thy ===== *)
theory HttpProxy
  imports SocksServer
begin

text \<open>
  \<open>internal/http\<close>: the HTTP front end. Header filtering, Basic authentication (with the
  base64 decoder of the standard library), the address of a request, the request handed to
  \<open>Request.Write\<close>, and the two handlers over the routing state. Serialising a request onto
  the wire is \<open>net/http\<close>'s; \<open>wire_header\<close> has the header fields it writes for such a request.
\<close>

section \<open>Header fields (net/http, filter.go)\<close>

text \<open>
  A \<open>http.Header\<close> maps canonical names to values. \<open>CanonicalHeaderKey\<close> capitalises the
  first letter and every letter after a hyphen, and leaves a name with a byte that is not a
  token character alone.
\<close>

type_synonym http_Header = "string \<rightharpoonup> string list"

definition ascii_upper :: "char \<Rightarrow> char" where
  "ascii_upper c =
     (if 97 \<le> (of_char c :: nat) \<and> (of_char c :: nat) \<le> 122 then char_of ((of_char c :: nat) - 32) else c)"

definition is_letter :: "char \<Rightarrow> bool" where
  "is_letter c \<longleftrightarrow> (65 \<le> (of_char c :: nat) \<and> (of_char c :: nat) \<le> 90) \<or> (97 \<le> (of_char c :: nat) \<and> (of_char c :: nat) \<le> 122)"

definition validHeaderFieldByte :: "char \<Rightarrow> bool" where
  "validHeaderFieldByte c \<longleftrightarrow> is_digit c \<or> is_letter c \<or> c \<in> set ''!#$%&'*+-.^_`|~''"

fun canonical_loop :: "bool \<Rightarrow> string \<Rightarrow> string" where
  "canonical_loop upper [] = []"
| "canonical_loop upper (c # cs) =
     (let d = (if upper then ascii_upper c else ascii_lower c) in d # canonical_loop (d = CHR ''-'') cs)"

definition CanonicalHeaderKey :: "string \<Rightarrow> string" where
  "CanonicalHeaderKey s = (if list_all validHeaderFieldByte s then canonical_loop True s else s)"

definition Header_Values :: "http_Header \<Rightarrow> string \<Rightarrow> string list" where
  "Header_Values h k = (case h (CanonicalHeaderKey k) of None \<Rightarrow> [] | Some vs \<Rightarrow> vs)"

definition Header_Get :: "http_Header \<Rightarrow> string \<Rightarrow> string" where
  "Header_Get h k = (case Header_Values h k of [] \<Rightarrow> [] | v # _ \<Rightarrow> v)"

definition Header_Del :: "http_Header \<Rightarrow> string \<Rightarrow> http_Header" where
  "Header_Del h k = h(CanonicalHeaderKey k := None)"

definition Header_Set :: "http_Header \<Rightarrow> string \<Rightarrow> string \<Rightarrow> http_Header" where
  "Header_Set h k v = h(CanonicalHeaderKey k \<mapsto> [v])"

definition hopHeaders :: "string list" where
  "hopHeaders =
     [''Connection'', ''Proxy-Connection'', ''Keep-Alive'', ''Proxy-Authenticate'', ''Proxy-Authorization'',
      ''Te'', ''Trailer'', ''Transfer-Encoding'', ''Upgrade'']"

text \<open>
  The values of \<open>Connection\<close> are read once, before the first deletion; the loops then delete
  what they name and the names of the filter.
\<close>

fun del_tokens :: "unicode \<Rightarrow> string list \<Rightarrow> http_Header \<Rightarrow> http_Header" where
  "del_tokens u [] h = h"
| "del_tokens u (token # ts) h =
     (let t = strings_TrimSpace u token in del_tokens u ts (if t \<noteq> [] then Header_Del h t else h))"

fun del_values :: "unicode \<Rightarrow> string list \<Rightarrow> http_Header \<Rightarrow> http_Header" where
  "del_values u [] h = h"
| "del_values u (v # vs) h = del_values u vs (del_tokens u (strings_Split v (CHR '','')) h)"

definition RemoveHopHeaders :: "unicode \<Rightarrow> string list \<Rightarrow> http_Header \<Rightarrow> http_Header" where
  "RemoveHopHeaders u f h = foldl Header_Del (del_values u (Header_Values h ''Connection'') h) f"

definition Filter_Contains :: "unicode \<Rightarrow> string list \<Rightarrow> string \<Rightarrow> bool" where
  "Filter_Contains u f k = list_ex (\<lambda>header. strings_EqualFold u header k) f"

section \<open>Basic authentication (lib.go)\<close>

definition lower :: "char \<Rightarrow> char" where
  "lower b = (if 65 \<le> (of_char b :: nat) \<and> (of_char b :: nat) \<le> 90 then char_of ((of_char b :: nat) + (97 - 65)) else b)"

fun EqualFold_loop :: "string \<Rightarrow> string \<Rightarrow> bool" where
  "EqualFold_loop (a # s) (b # t) = (if lower a \<noteq> lower b then False else EqualFold_loop s t)"
| "EqualFold_loop s t = True"

definition EqualFold :: "string \<Rightarrow> string \<Rightarrow> bool" where
  "EqualFold s t = (if length s \<noteq> length t then False else EqualFold_loop s t)"

text \<open>
  \<open>base64.StdEncoding\<close>: line breaks are ignored, the last quantum is padded, bits that the
  padding makes redundant are not checked.
\<close>

definition b64_value :: "char \<Rightarrow> nat option" where
  "b64_value c =
     (let n = (of_char c :: nat) in
      if 65 \<le> n \<and> n \<le> 90 then Some (n - 65)
      else if 97 \<le> n \<and> n \<le> 122 then Some (n - 97 + 26)
      else if 48 \<le> n \<and> n \<le> 57 then Some (n - 48 + 52)
      else if n = 43 then Some 62 else if n = 47 then Some 63 else None)"

definition b64_char :: "nat \<Rightarrow> char" where
  "b64_char v =
     (if v < 26 then char_of (v + 65) else if v < 52 then char_of (v - 26 + 97)
      else if v < 62 then char_of (v - 52 + 48) else if v = 62 then CHR ''+'' else CHR ''/'')"

definition quantum3 :: "nat \<Rightarrow> nat \<Rightarrow> nat \<Rightarrow> nat \<Rightarrow> string" where
  "quantum3 a b c d = [char_of (a * 4 + b div 16), char_of (b mod 16 * 16 + c div 4), char_of (c mod 4 * 64 + d)]"

fun b64_quanta :: "string \<Rightarrow> string option" where
  "b64_quanta [] = Some []"
| "b64_quanta (w # x # y # z # rest) =
     (case (b64_value w, b64_value x) of
        (Some a, Some b) \<Rightarrow>
          if y = CHR ''='' then
            if z = CHR ''='' \<and> rest = [] then Some (take 1 (quantum3 a b 0 0)) else None
          else (case b64_value y of
             None \<Rightarrow> None
           | Some c \<Rightarrow>
               if z = CHR ''='' then if rest = [] then Some (take 2 (quantum3 a b c 0)) else None
               else (case b64_value z of
                  None \<Rightarrow> None
                | Some d \<Rightarrow> map_option (\<lambda>s. quantum3 a b c d @ s) (b64_quanta rest)))
      | _ \<Rightarrow> None)"
| "b64_quanta _ = None"

definition base64_DecodeString :: "string \<Rightarrow> string option" where
  "base64_DecodeString s = b64_quanta (filter (\<lambda>c. c \<noteq> CHR 0x0D \<and> c \<noteq> CHR 0x0A) s)"

definition parseBasicAuth :: "string \<Rightarrow> (string \<times> string) option" where
  "parseBasicAuth auth =
     (let prefix = ''Basic '' in
      if length auth < length prefix \<or> \<not> EqualFold (take (length prefix) auth) prefix then None
      else case base64_DecodeString (drop (length prefix) auth) of
          None \<Rightarrow> None
        | Some cs \<Rightarrow> strings_Cut cs (CHR '':''))"

text \<open>What a client sends (RFC 7617): the encoder is a reference definition, not code of the program.\<close>

fun base64_encode :: "string \<Rightarrow> string" where
  "base64_encode [] = []"
| "base64_encode [x] =
     (let a = of_char x in [b64_char (a div 4), b64_char (a mod 4 * 16), CHR ''='', CHR ''=''])"
| "base64_encode [x, y] =
     (let a = of_char x; b = of_char y in
      [b64_char (a div 4), b64_char (a mod 4 * 16 + b div 16), b64_char (b mod 16 * 4), CHR ''=''])"
| "base64_encode (x # y # z # rest) =
     (let a = of_char x; b = of_char y; c = of_char z in
      [b64_char (a div 4), b64_char (a mod 4 * 16 + b div 16), b64_char (b mod 16 * 4 + c div 64), b64_char (c mod 64)]
      @ base64_encode rest)"

definition basic_authorization :: "string \<Rightarrow> string \<Rightarrow> string" where
  "basic_authorization user pass = ''Basic '' @ base64_encode (user @ '':'' @ pass)"

section \<open>The address of a request (utils.go, protocol.go)\<close>

record http_Request =
  req_Method :: string
  URL_Scheme :: string
  URL_Host :: string
  URL_RequestURI :: string \<comment> \<open>path and query\<close>
  RequestURI :: string
  req_Host :: string
  req_Header :: http_Header
  req_Close :: bool
  req_TransferEncoding :: "string list" \<comment> \<open>\<open>net/http\<close> parses these three out of the header\<close>
  req_ContentLength :: int
  req_Trailer :: "string list" \<comment> \<open>the names of \<open>Trailer\<close>, sorted\<close>
  req_Body :: bytes

definition CRLF :: string where
  "CRLF = [CHR 0x0D, CHR 0x0A]"

definition ProtocolPortMap :: "string \<rightharpoonup> u16" where
  "ProtocolPortMap = [''http'' \<mapsto> 80, ''https'' \<mapsto> 443]"

definition MessageConnectionEstablished :: bytes where
  "MessageConnectionEstablished = bytes_of_string (''HTTP/1.1 200 Connection Established'' @ CRLF @ CRLF)"

definition MessageServiceUnavailable :: bytes where
  "MessageServiceUnavailable = bytes_of_string (''HTTP/1.1 503 Service Unavailable'' @ CRLF @ CRLF)"

definition strip_brackets :: "string \<Rightarrow> string" where
  "strip_brackets host =
     (if strings_HasPrefix host ''['' \<and> strings_HasSuffix host '']'' then take (length host - 2) (drop 1 host) else host)"

definition BuildRemoteAddr :: "http_Request \<Rightarrow> (string \<times> string) result" where
  "BuildRemoteAddr r =
     (let done = (\<lambda>host port. Inr (host, net_JoinHostPort host (Itoa (unat (port :: u16))))) in
      case SplitHostPort (req_Host r) of
        Inr (host, port) \<Rightarrow> done host port
      | Inl e \<Rightarrow>
          if e \<noteq> missingPort then Inl (Wrap ''http: split host port error'' e)
          else let host = strip_brackets (req_Host r) in
            if URL_Scheme r \<noteq> [] then
              (case ProtocolPortMap (URL_Scheme r) of
                 None \<Rightarrow> Inl (Wrap ''unkown scheme'' (Sentinel ErrBadRequest))
               | Some port \<Rightarrow> done host port)
            else done host 80)"

definition isExpectContinue :: "unicode \<Rightarrow> http_Header \<Rightarrow> bool" where
  "isExpectContinue u h = strings_EqualFold u (strings_TrimSpace u (Header_Get h ''Expect'')) ''100-continue''"

text \<open>The request \<open>writeForwardRequest\<close> builds and hands to \<open>Request.Write\<close>.\<close>

definition forward_request :: "unicode \<Rightarrow> http_Request \<Rightarrow> string \<Rightarrow> http_Request" where
  "forward_request u r host =
     (let h1 = RemoveHopHeaders u hopHeaders (req_Header r);
          h2 = (if isExpectContinue u h1 then Header_Del h1 ''Expect'' else h1)
      in r\<lparr>RequestURI := [], URL_Scheme := [], URL_Host := [],
           req_Host := (if req_Host r = [] then host else req_Host r),
           req_Close := True, req_Header := Header_Set h2 ''Connection'' ''close''\<rparr>)"

text \<open>
  The header fields \<open>Request.Write\<close> of \<open>net/http\<close> puts on the wire, with their values. Host, user
  agent and the framing of the body are written from the request, not from its header map: a
  body of unknown length is sent chunked, with the names of its trailer; \<open>req_Close\<close> adds
  \<open>close\<close> unless the map has it (as the only value this program sets).
\<close>

definition sent_encoding :: "http_Request \<Rightarrow> string list" where
  "sent_encoding q =
     (if req_ContentLength q < 0 \<and> req_TransferEncoding q = [] \<and> req_Method q \<noteq> ''CONNECT'' then [''chunked'']
      else req_TransferEncoding q)"

definition is_chunked :: "string list \<Rightarrow> bool" where
  "is_chunked te \<longleftrightarrow> te \<noteq> [] \<and> hd te = ''chunked''"

definition wire_header :: "http_Request \<Rightarrow> string \<Rightarrow> string list option" where
  "wire_header q k =
     (if k = ''Host'' then Some [req_Host q]
      else if k = ''User-Agent'' then
        (case req_Header q k of
           None \<Rightarrow> Some [''Go-http-client/1.1'']
         | Some vs \<Rightarrow> if Header_Get (req_Header q) k = [] then None else Some [Header_Get (req_Header q) k])
      else if k = ''Connection'' \<and> req_Close q \<and> Header_Get (req_Header q) k \<noteq> ''close'' then
        Some (''close'' # Header_Values (req_Header q) k)
      else if k = ''Content-Length'' then
        (if is_chunked (sent_encoding q) then None
         else if 0 < req_ContentLength q \<or>
             req_ContentLength q = 0 \<and> req_Method q \<in> {''POST'', ''PUT'', ''PATCH''}
         then Some [Itoa (nat (req_ContentLength q))] else None)
      else if k = ''Transfer-Encoding'' then
        (if is_chunked (sent_encoding q) then Some [''chunked''] else None)
      else if k = ''Trailer'' then
        (if is_chunked (sent_encoding q) \<and> req_Trailer q \<noteq> [] then Some [join_with '','' (req_Trailer q)] else None)
      else req_Header q k)"

definition writeForwardRequest ::
  "unicode \<Rightarrow> (http_Request \<Rightarrow> goerror option) \<Rightarrow> http_Request \<Rightarrow> string \<Rightarrow> goerror option" where
  "writeForwardRequest u write r host = write (forward_request u r host)"

section \<open>The handlers (http.go)\<close>

text \<open>
  What a client sees: the responses written through the \<open>ResponseWriter\<close> (status and header
  fields) and, once the connection is hijacked, the bytes written to it. \<open>ex_proxied\<close> records
  every use of a route: its transport, the address and, for a plain request, what is sent.
\<close>

datatype hijack = NoHijacker | HijackFails goerror | HijackOK

record 'c exchange =
  ex_router :: router_state
  ex_resp :: "(nat \<times> (string \<times> string) list) list"
  ex_conn :: conn
  ex_proxied :: "('c transport \<times> string \<times> http_Request option) list"

text \<open>
  A run of the goroutines of one exchange: the local address of the egress (\<open>None\<close> when the
  channel is closed without one), the chunks the egress writes to the client and how many of
  them come before the \<open>200\<close>, the result of \<open>Proxy\<close>, of \<open>Request.Write\<close>, whether the egress
  has closed the client connection when it returns, and the order in which the goroutines end.
\<close>

record http_run =
  hx_local :: "string option"
  hx_chunks :: "bytes list"
  hx_early :: nat
  hx_err :: "goerror option"
  hx_write :: "http_Request \<Rightarrow> goerror option"
  hx_closed :: bool
  hx_order :: "nat list"

record 'c http_env =
  he_sha :: "bytes \<Rightarrow> bytes"
  he_credentials :: StaticCredentials
  he_route :: route_env
  he_newClient :: "'c result"
  he_hijack :: hijack
  he_run :: "'c transport \<Rightarrow> string \<Rightarrow> http_run"

definition respond :: "nat \<Rightarrow> (string \<times> string) list \<Rightarrow> 'c exchange \<Rightarrow> 'c exchange" where
  "respond status hdr x = x\<lparr>ex_resp := ex_resp x @ [(status, hdr)]\<rparr>"

definition benign :: "goerror \<Rightarrow> bool" where
  "benign e \<longleftrightarrow> errors_Is e EOF \<or> errors_Is e Canceled"

text \<open>\<open>ServeProxyError\<close> on a \<open>ResponseWriter\<close> and on a hijacked connection.\<close>

definition ServeProxyError_rw :: "goerror option \<Rightarrow> 'c exchange \<Rightarrow> 'c exchange" where
  "ServeProxyError_rw err x =
     (case err of None \<Rightarrow> x | Some e \<Rightarrow> if benign e then x else respond 503 [] x)"

definition ServeProxyError_conn :: "goerror option \<Rightarrow> conn \<Rightarrow> conn" where
  "ServeProxyError_conn err c =
     (case err of None \<Rightarrow> c | Some e \<Rightarrow> if benign e then c else snd (Write MessageServiceUnavailable c))"

text \<open>A closed connection, and one whose deadline has passed, refuse every write.\<close>

definition refuse_writes :: "sentinel \<Rightarrow> conn \<Rightarrow> conn" where
  "refuse_writes s c = c\<lparr>wfail := (\<lambda>_. Some (Sentinel s))\<rparr>"

definition close_if :: "bool \<Rightarrow> conn \<Rightarrow> conn" where
  "close_if b c = (if b then refuse_writes NetErrClosed c else c)"

text \<open>\<open>errgroup.Wait\<close>: the first error in the order of completion.\<close>

definition errgroup_Wait :: "nat list \<Rightarrow> goerror option list \<Rightarrow> goerror option" where
  "errgroup_Wait order errs =
     (case filter (\<lambda>i. i < length errs \<and> errs ! i \<noteq> None) order of [] \<Rightarrow> None | i # _ \<Rightarrow> errs ! i)"

definition handshake_error :: "string option \<Rightarrow> goerror option" where
  "handshake_error local =
     (if local = None \<or> local = Some [] then Some (Sentinel ErrProxyHandshakeFailed) else None)"

definition http_handleRequest :: "'c http_env \<Rightarrow> http_Request \<Rightarrow> 'c exchange \<Rightarrow> 'c exchange" where
  "http_handleRequest env r x =
     (let u = env_uni (he_route env) in
      case BuildRemoteAddr r of
        Inl e \<Rightarrow> ServeProxyError_rw (Some (Wrap ''build remote addr'' e)) x
      | Inr (host, addr) \<Rightarrow>
          (case GetRoute (he_route env) (he_newClient env) host (ex_router x) of
             (Inl e, rs) \<Rightarrow> ServeProxyError_rw (Some (Wrap ''no route'' e)) (x\<lparr>ex_router := rs\<rparr>)
           | (Inr route, rs) \<Rightarrow>
               let x1 = x\<lparr>ex_router := rs\<rparr> in
               if he_hijack env = NoHijacker then ServeProxyError_rw (Some (Errorf ''hijack not supported'')) x1
               else
               let x2 = (if isExpectContinue u (req_Header r) then respond 100 [] x1 else x1) in
               case he_hijack env of
                 HijackFails e \<Rightarrow> ServeProxyError_rw (Some (Wrap ''hijack'' e)) x2
               | _ \<Rightarrow>
                   let run = he_run env route addr;
                       c1 = close_if (hx_closed run) (relay_chunks (hx_chunks run) (ex_conn x2));
                       \<comment> \<open>\<open>pr.Close(); client.SetDeadline(time.Now())\<close>\<close>
                       c2 = refuse_writes ErrDeadlineExceeded c1;
                       sent = map_option (Wrap ''send request failed'') (writeForwardRequest u (hx_write run) r host);
                       err = errgroup_Wait (hx_order run) [hx_err run, handshake_error (hx_local run), sent]
                   in x2\<lparr>ex_conn := ServeProxyError_conn err c2,
                         ex_proxied := ex_proxied x2 @ [(route, addr, Some (forward_request u r host))]\<rparr>))"

definition http_handleConnect :: "'c http_env \<Rightarrow> http_Request \<Rightarrow> 'c exchange \<Rightarrow> 'c exchange" where
  "http_handleConnect env r x =
     (case net_SplitHostPort (req_Host r) of
        Inl e \<Rightarrow> ServeProxyError_rw (Some (Wrap ''invalid host'' e)) x
      | Inr (host, _) \<Rightarrow>
          (case GetRoute (he_route env) (he_newClient env) host (ex_router x) of
             (Inl e, rs) \<Rightarrow> ServeProxyError_rw (Some (Wrap ''no route'' e)) (x\<lparr>ex_router := rs\<rparr>)
           | (Inr route, rs) \<Rightarrow>
               let x1 = x\<lparr>ex_router := rs\<rparr> in
               case he_hijack env of
                 NoHijacker \<Rightarrow> ServeProxyError_rw (Some (Errorf ''hijack not supported'')) x1
               | HijackFails e \<Rightarrow> ServeProxyError_rw (Some (Wrap ''hijack'' e)) x1
               | HijackOK \<Rightarrow>
                   (case BuildRemoteAddr r of
                      Inl e \<Rightarrow> x1\<lparr>ex_conn := ServeProxyError_conn (Some (Wrap ''build remote addr'' e)) (ex_conn x1)\<rparr>
                    | Inr (_, addr) \<Rightarrow>
                        let run = he_run env route addr;
                            c1 = relay_chunks (take (hx_early run) (hx_chunks run)) (ex_conn x1);
                            (ack, c2) = (case handshake_error (hx_local run) of
                                Some e \<Rightarrow> (Some e, c1)
                              | None \<Rightarrow>
                                  (case Write MessageConnectionEstablished c1 of
                                     (Inl e, c) \<Rightarrow> (Some (Wrap ''send connection established failed'' e), c)
                                   | (Inr _, c) \<Rightarrow> (None, c)));
                            c3 = close_if (hx_closed run) (relay_chunks (drop (hx_early run) (hx_chunks run)) c2);
                            err = errgroup_Wait (hx_order run) [hx_err run, ack]
                        in x1\<lparr>ex_conn := ServeProxyError_conn err c3,
                              ex_proxied := ex_proxied x1 @ [(route, addr, None)]\<rparr>)))"

definition Handle :: "'c http_env \<Rightarrow> http_Request \<Rightarrow> 'c exchange \<Rightarrow> 'c exchange" where
  "Handle env r x =
     (if URL_Host r = [] then respond 400 [] x
      else if req_Method r = ''CONNECT'' then http_handleConnect env r x
      else http_handleRequest env r x)"

definition auth_required :: "'c exchange \<Rightarrow> 'c exchange" where
  "auth_required x = respond 407 [(''Proxy-Authenticate'', ''Basic realm=\"Proxy\"'')] x"

definition proxyAuth :: "'c http_env \<Rightarrow> http_Request \<Rightarrow> 'c exchange \<Rightarrow> 'c exchange" where
  "proxyAuth env r x =
     (let auth = Header_Get (req_Header r) ''Proxy-Authorization'' in
      if auth = [] then auth_required x
      else case parseBasicAuth auth of
          None \<Rightarrow> auth_required x
        | Some (user, pass) \<Rightarrow>
            if \<not> Valid (he_sha env) (he_credentials env) (bytes_of_string user) (bytes_of_string pass)
            then auth_required x
            else Handle env r x)"

text \<open>The handler \<open>ListenAndServe\<close> installs.\<close>

definition ServeHTTP :: "'c http_env \<Rightarrow> http_Request \<Rightarrow> 'c exchange \<Rightarrow> 'c exchange" where
  "ServeHTTP env r x = (if he_credentials env \<noteq> [] then proxyAuth env r x else Handle env r x)"

text \<open>How \<open>ListenAndServe\<close> returns: the server ended first, or the context did.\<close>

datatype serve_end = ServerEnded "goerror option" | ContextDone

definition ListenAndServe_result :: "serve_end \<Rightarrow> goerror option \<Rightarrow> goerror option" where
  "ListenAndServe_result w ctxErr =
     (case w of
        ServerEnded err \<Rightarrow>
          (case err of
             Some e \<Rightarrow> if errors_Is e ErrServerClosed then ctxErr else Some e
           | None \<Rightarrow> None)
      | ContextDone \<Rightarrow> ctxErr)"

section \<open>Hop-by-hop fields\<close>

text \<open>The fields a request's own \<open>Connection\<close> field nominates.\<close>

definition nominated :: "unicode \<Rightarrow> http_Header \<Rightarrow> string set" where
  "nominated u h =
     {CanonicalHeaderKey (strings_TrimSpace u token) | v token.
        v \<in> set (Header_Values h ''Connection'') \<and> token \<in> set (strings_Split v (CHR '','')) \<and>
        strings_TrimSpace u token \<noteq> []}"

lemma del_tokens_eq:
  "del_tokens u ts h k =
     (if \<exists>t \<in> set ts. strings_TrimSpace u t \<noteq> [] \<and> k = CanonicalHeaderKey (strings_TrimSpace u t) then None else h k)"
  by (induction ts arbitrary: h) (auto simp: Header_Del_def Let_def)

lemma del_values_eq:
  "del_values u vs h k =
     (if \<exists>v \<in> set vs. \<exists>t \<in> set (strings_Split v (CHR '','')).
           strings_TrimSpace u t \<noteq> [] \<and> k = CanonicalHeaderKey (strings_TrimSpace u t) then None else h k)"
  by (induction vs arbitrary: h) (auto simp: del_tokens_eq)

lemma foldl_Header_Del: "foldl Header_Del h f k = (if k \<in> CanonicalHeaderKey ` set f then None else h k)"
  by (induction f arbitrary: h) (auto simp: Header_Del_def)

lemma RemoveHopHeaders_eq:
  "RemoveHopHeaders u f h k =
     (if k \<in> CanonicalHeaderKey ` set f \<union> nominated u h then None else h k)"
  unfolding RemoveHopHeaders_def foldl_Header_Del del_values_eq nominated_def by auto

lemma canonical_names [simp]:
  "CanonicalHeaderKey ''Connection'' = ''Connection''"
  "CanonicalHeaderKey ''Expect'' = ''Expect''"
  "CanonicalHeaderKey ''User-Agent'' = ''User-Agent''"
  "CanonicalHeaderKey ` set hopHeaders = set hopHeaders"
  by (code_simp)+

lemma forward_request_header:
  fixes u :: unicode and r :: http_Request
  defines "h \<equiv> RemoveHopHeaders u hopHeaders (req_Header r)"
  shows "req_Header (forward_request u r host) k =
    (if k = ''Connection'' then Some [''close'']
     else if k \<in> set hopHeaders \<union> nominated u (req_Header r) then None
     else if k = ''Expect'' \<and> isExpectContinue u h then None
     else req_Header r k)"
  unfolding h_def
  by (auto simp: forward_request_def Header_Set_def Header_Del_def RemoveHopHeaders_eq Let_def)

lemma forward_request_rest [simp]:
  "req_Method (forward_request u r host) = req_Method r"
  "URL_RequestURI (forward_request u r host) = URL_RequestURI r"
  "req_Body (forward_request u r host) = req_Body r"
  "URL_Host (forward_request u r host) = []" "URL_Scheme (forward_request u r host) = []"
  "req_Close (forward_request u r host)"
  "req_TransferEncoding (forward_request u r host) = req_TransferEncoding r"
  "req_ContentLength (forward_request u r host) = req_ContentLength r"
  "req_Trailer (forward_request u r host) = req_Trailer r"
  "req_Host r \<noteq> [] \<Longrightarrow> req_Host (forward_request u r host) = req_Host r"
  by (simp_all add: forward_request_def Let_def)

lemma ServeProxyError_rw_frame [simp]:
  "ex_proxied (ServeProxyError_rw e x) = ex_proxied x" "ex_conn (ServeProxyError_rw e x) = ex_conn x"
  "ex_router (ServeProxyError_rw e x) = ex_router x"
  by (simp_all add: ServeProxyError_rw_def respond_def split: option.split)

lemma respond_frame [simp]:
  "ex_proxied (respond s h x) = ex_proxied x" "ex_conn (respond s h x) = ex_conn x"
  "ex_router (respond s h x) = ex_router x" "ex_resp (respond s h x) = ex_resp x @ [(s, h)]"
  by (simp_all add: respond_def)

lemma handleRequest_proxied:
  "ex_proxied (http_handleRequest env r x) = ex_proxied x \<or>
   (\<exists>t addr host. ex_proxied (http_handleRequest env r x) =
      ex_proxied x @ [(t, addr, Some (forward_request (env_uni (he_route env)) r host))])"
  by (auto simp: http_handleRequest_def Let_def split: sum.splits prod.splits hijack.splits)

lemma handleConnect_proxied:
  "ex_proxied (http_handleConnect env r x) = ex_proxied x \<or>
   (\<exists>t addr. ex_proxied (http_handleConnect env r x) = ex_proxied x @ [(t, addr, None)])"
  by (auto simp: http_handleConnect_def Let_def split: sum.splits prod.splits hijack.splits)

lemma Handle_proxied:
  assumes "(t, addr, Some q) \<in> set (ex_proxied (Handle env r x))" and "ex_proxied x = []"
  shows "\<exists>host. q = forward_request (env_uni (he_route env)) r host"
  using assms handleRequest_proxied [of env r x] handleConnect_proxied [of env r x]
  by (auto simp: Handle_def split: if_splits)

section \<open>The authentication gate\<close>

lemma parseBasicAuth_Nil [simp]: "parseBasicAuth [] = None"
  by (simp add: parseBasicAuth_def)

lemma auth_required_frame [simp]: "ex_proxied (auth_required x) = ex_proxied x"
  by (simp add: auth_required_def)

lemma ServeHTTP_cases:
  assumes "he_credentials env \<noteq> []"
  shows "ServeHTTP env r x =
    (case parseBasicAuth (Header_Get (req_Header r) ''Proxy-Authorization'') of
       None \<Rightarrow> auth_required x
     | Some (user, pass) \<Rightarrow>
         if Valid (he_sha env) (he_credentials env) (bytes_of_string user) (bytes_of_string pass)
         then Handle env r x else auth_required x)"
  using assms by (auto simp: ServeHTTP_def proxyAuth_def Let_def split: option.splits)

lemma b64_value_char [simp]: "v < 64 \<Longrightarrow> b64_value (b64_char v) = Some v"
  by (auto simp: b64_value_def b64_char_def Let_def)

lemma of_char_b64_char: "v < 64 \<Longrightarrow>
  (of_char (b64_char v) :: nat) = (if v < 26 then v + 65 else if v < 52 then v + 71
     else if v < 62 then v - 4 else if v = 62 then 43 else 47)"
  by (auto simp: b64_char_def)

lemma b64_char_plain [simp]:
  assumes "v < 64"
  shows "b64_char v \<noteq> CHR ''=''" and "b64_char v \<noteq> CHR 0x0D" and "b64_char v \<noteq> CHR 0x0A"
proof -
  have "(of_char (b64_char v) :: nat) \<notin> {61, 13, 10}" using of_char_b64_char [OF assms] assms by (auto split: if_splits)
  then show "b64_char v \<noteq> CHR ''=''" and "b64_char v \<noteq> CHR 0x0D" and "b64_char v \<noteq> CHR 0x0A" by auto
qed

text \<open>The six-bit groups of one, two and three bytes, read back.\<close>

lemma sextets:
  fixes a b c :: nat
  assumes "a < 256" "b < 256" "c < 256"
  shows "a div 4 < 64" "a mod 4 * 16 + b div 16 < 64" "a mod 4 * 16 < 64" "b mod 16 * 4 < 64"
    "b mod 16 * 4 + c div 64 < 64" "c mod 64 < 64"
    "a div 4 * 4 + (a mod 4 * 16 + b div 16) div 16 = a"
    "(a mod 4 * 16 + b div 16) mod 16 * 16 + (b mod 16 * 4 + c div 64) div 4 = b"
    "(b mod 16 * 4 + c div 64) mod 4 * 64 + c mod 64 = c"
proof -
  have q: "b div 16 < 16" "c div 64 < 4" "a mod 4 < 4" "b mod 16 < 16" using assms by simp_all
  show "a div 4 < 64" "c mod 64 < 64" using assms(1) by simp_all
  show "a mod 4 * 16 + b div 16 < 64" "a mod 4 * 16 < 64" "b mod 16 * 4 < 64" "b mod 16 * 4 + c div 64 < 64"
    using q by linarith+
  have "(a mod 4 * 16 + b div 16) div 16 = a mod 4" "(a mod 4 * 16 + b div 16) mod 16 = b div 16"
    "(b mod 16 * 4 + c div 64) div 4 = b mod 16" "(b mod 16 * 4 + c div 64) mod 4 = c div 64"
    using q by simp_all
  then show "a div 4 * 4 + (a mod 4 * 16 + b div 16) div 16 = a"
    "(a mod 4 * 16 + b div 16) mod 16 * 16 + (b mod 16 * 4 + c div 64) div 4 = b"
    "(b mod 16 * 4 + c div 64) mod 4 * 64 + c mod 64 = c"
    by (simp_all only: div_mult_mod_eq)
qed

lemma quantum3_sextets:
  fixes x y z :: char
  defines "a \<equiv> of_char x :: nat" and "b \<equiv> of_char y :: nat" and "c \<equiv> of_char z :: nat"
  shows "quantum3 (a div 4) (a mod 4 * 16 + b div 16) (b mod 16 * 4 + c div 64) (c mod 64) = [x, y, z]"
proof -
  have "a < 256" "b < 256" "c < 256" by (simp_all add: a_def b_def c_def)
  note s = sextets [OF this]
  show ?thesis unfolding quantum3_def s(7-9) by (simp add: a_def b_def c_def)
qed

lemma b64_quanta_encode: "b64_quanta (base64_encode s) = Some s"
proof (induction s rule: base64_encode.induct)
  case (2 x)
  let ?a = "of_char x :: nat"
  have "take 1 (quantum3 (?a div 4) (?a mod 4 * 16) 0 0) = [x]"
    using quantum3_sextets [of x "char_of (0 :: nat)" "char_of (0 :: nat)"] by (simp add: quantum3_def)
  then show ?case using sextets [of ?a 0 0] by (simp add: Let_def)
next
  case (3 x y)
  let ?a = "of_char x :: nat" and ?b = "of_char y :: nat"
  have "take 2 (quantum3 (?a div 4) (?a mod 4 * 16 + ?b div 16) (?b mod 16 * 4) 0) = [x, y]"
    using arg_cong [OF quantum3_sextets [of x y "char_of (0 :: nat)"], of "take 2"] by simp
  then show ?case using sextets [of ?a ?b 0] by (simp add: Let_def)
next
  case (4 x y z rest)
  let ?a = "of_char x :: nat" and ?b = "of_char y :: nat" and ?c = "of_char z :: nat"
  show ?case using 4 sextets [of ?a ?b ?c] quantum3_sextets [of x y z] by (simp add: Let_def)
qed simp

lemma base64_encode_plain: "c \<in> set (base64_encode s) \<Longrightarrow> c \<noteq> CHR 0x0D \<and> c \<noteq> CHR 0x0A"
proof (induction s rule: base64_encode.induct)
  case (2 x)
  then show ?case using sextets [of "of_char x" 0 0] by (auto simp: Let_def)
next
  case (3 x y)
  then show ?case using sextets [of "of_char x" "of_char y" 0] by (auto simp: Let_def)
next
  case (4 x y z rest)
  then show ?case using sextets [of "of_char x" "of_char y" "of_char z"] by (auto simp: Let_def)
qed simp

lemma base64_roundtrip: "base64_DecodeString (base64_encode s) = Some s"
proof -
  have "filter (\<lambda>c. c \<noteq> CHR 0x0D \<and> c \<noteq> CHR 0x0A) (base64_encode s) = base64_encode s"
    using base64_encode_plain [of _ s] by (simp add: filter_id_conv)
  then show ?thesis unfolding base64_DecodeString_def by (simp only: b64_quanta_encode)
qed

lemma parseBasicAuth_basic:
  assumes "CHR '':'' \<notin> set user"
  shows "parseBasicAuth (basic_authorization user pass) = Some (user, pass)"
proof -
  have "EqualFold ''Basic '' ''Basic ''" by code_simp
  then show ?thesis using strings_Cut_append [OF assms, of pass]
    by (simp add: parseBasicAuth_def basic_authorization_def base64_roundtrip)
qed

section \<open>An example exchange\<close>

text \<open>A client with the password of user \<open>u\<close>, whose egress fails to connect.\<close>

definition ex_http_env :: "unit http_env" where
  "ex_http_env = \<lparr>he_sha = id, he_credentials = [(''u'', ''p'')], he_route = plain_env, he_newClient = Inr (),
     he_hijack = HijackOK,
     he_run = (\<lambda>_ _. \<lparr>hx_local = None, hx_chunks = [], hx_early = 0, hx_err = Some (Errorf ''dial tcp''),
       hx_write = (\<lambda>_. None), hx_closed = False, hx_order = [0, 1, 2]\<rparr>)\<rparr>"

definition ex_http_request :: http_Request where
  "ex_http_request = \<lparr>req_Method = ''GET'', URL_Scheme = ''http'', URL_Host = ''a.io'', URL_RequestURI = ''/'',
     RequestURI = ''http://a.io/'', req_Host = ''a.io'',
     req_Header = [''Connection'' \<mapsto> [''x-secret''], ''X-Secret'' \<mapsto> [''1''], ''Accept'' \<mapsto> [''*''],
       ''Proxy-Authorization'' \<mapsto> [''basic dTpw'']], req_Close = False,
     req_TransferEncoding = [], req_ContentLength = 0, req_Trailer = [], req_Body = []\<rparr>"

definition ex_exchange :: "unit exchange" where
  "ex_exchange = \<lparr>ex_router = init_router\<lparr>routesCache := [Some RouteServerDefault]\<rparr>, ex_resp = [],
     ex_conn = conn_of [], ex_proxied = []\<rparr>"

section \<open>Properties\<close>

text \<open>The fields that \<open>Request.Write\<close> writes from the request itself.\<close>

definition own_fields :: "string set" where
  "own_fields = {''Host'', ''User-Agent'', ''Content-Length'', ''Transfer-Encoding'', ''Trailer''}"

lemma sent_encoding_cases:
  "req_TransferEncoding q = [''chunked''] \<Longrightarrow> sent_encoding q = [''chunked'']"
  "req_TransferEncoding q = [] \<Longrightarrow> 0 \<le> req_ContentLength q \<Longrightarrow> sent_encoding q = []"
  by (simp_all add: sent_encoding_def)

lemma wire_header_other:
  "k \<notin> own_fields \<Longrightarrow> k \<noteq> ''Connection'' \<Longrightarrow> wire_header q k = req_Header q k"
  by (simp add: wire_header_def own_fields_def)

lemma forwarded_expect:
  "req_Header (forward_request u r host) ''Expect'' =
     (if ''Expect'' \<in> nominated u (req_Header r) \<or> isExpectContinue u (req_Header r) then None
      else req_Header r ''Expect'')"
proof -
  have "''Expect'' \<notin> set hopHeaders" by (simp add: hopHeaders_def)
  then have "''Expect'' \<notin> nominated u (req_Header r) \<Longrightarrow>
      isExpectContinue u (RemoveHopHeaders u hopHeaders (req_Header r)) = isExpectContinue u (req_Header r)"
    by (simp add: isExpectContinue_def Header_Get_def Header_Values_def RemoveHopHeaders_eq)
  then show ?thesis using \<open>''Expect'' \<notin> set hopHeaders\<close> by (auto simp: forward_request_header)
qed

text \<open>
  C18: What of a plain request reaches the origin, field by field on the wire, with or without
  proxy authentication. \<open>Connection\<close> is exactly \<open>close\<close>. No field of the hop-by-hop list (so no
  \<open>Proxy-Authorization\<close>) and no field nominated by the client's own \<open>Connection\<close> field is
  present, except that host, user agent and the framing of the body are written anew: \<open>Host\<close>
  names the request's host, a body that came chunked goes out chunked with the names of its
  trailer, and one that came with a length goes out with that length and without
  \<open>Transfer-Encoding\<close>. An \<open>Expect\<close> that was nominated or asks for 100-continue is removed.
  Every other field is passed on unchanged. Method, path and body are those of the request, in
  origin form.
\<close>

theorem hop_headers_never_forwarded:
  assumes "(t, addr, Some q) \<in> set (ex_proxied (ServeHTTP env r x))" and "ex_proxied x = []"
  defines "hop \<equiv> set hopHeaders \<union> nominated (env_uni (he_route env)) (req_Header r)"
  shows "wire_header q ''Connection'' = Some [''close''] \<and>
    (\<forall>k \<in> hop. k \<noteq> ''Connection'' \<and> k \<notin> own_fields \<longrightarrow> wire_header q k = None) \<and>
    wire_header q ''Expect'' =
      (if ''Expect'' \<in> hop \<or> isExpectContinue (env_uni (he_route env)) (req_Header r) then None
       else req_Header r ''Expect'') \<and>
    (\<forall>k. k \<notin> hop \<and> k \<notin> {''Expect'', ''Connection''} \<union> own_fields \<longrightarrow> wire_header q k = req_Header r k) \<and>
    (req_Host r \<noteq> [] \<longrightarrow> wire_header q ''Host'' = Some [req_Host r]) \<and>
    (\<forall>v vs. req_Header r ''User-Agent'' = Some (v # vs) \<and> v \<noteq> [] \<and> ''User-Agent'' \<notin> hop \<longrightarrow>
       wire_header q ''User-Agent'' = Some [v]) \<and>
    (req_TransferEncoding r = [''chunked''] \<longrightarrow>
       wire_header q ''Transfer-Encoding'' = Some [''chunked''] \<and> wire_header q ''Content-Length'' = None \<and>
       (req_Trailer r \<noteq> [] \<longrightarrow> wire_header q ''Trailer'' = Some [join_with '','' (req_Trailer r)])) \<and>
    (req_TransferEncoding r = [] \<and> 0 \<le> req_ContentLength r \<longrightarrow>
       wire_header q ''Transfer-Encoding'' = None \<and> wire_header q ''Trailer'' = None \<and>
       (0 < req_ContentLength r \<longrightarrow> wire_header q ''Content-Length'' = Some [Itoa (nat (req_ContentLength r))])) \<and>
    req_Method q = req_Method r \<and> URL_RequestURI q = URL_RequestURI r \<and> req_Body q = req_Body r \<and>
    URL_Host q = [] \<and> URL_Scheme q = [] \<and> req_Close q"
proof -
  have "(t, addr, Some q) \<in> set (ex_proxied (Handle env r x))"
  proof (cases "he_credentials env = []")
    case True
    with assms(1) show ?thesis by (simp add: ServeHTTP_def)
  next
    case False
    with assms(1,2) show ?thesis by (auto simp: ServeHTTP_cases split: option.splits if_splits)
  qed
  with assms(2) obtain host where q: "q = forward_request (env_uni (he_route env)) r host"
    using Handle_proxied by blast
  have conn: "wire_header q ''Connection'' = Some [''close'']"
    by (simp add: wire_header_def q forward_request_header Header_Get_def Header_Values_def)
  have expect: "wire_header q ''Expect'' =
      (if ''Expect'' \<in> hop \<or> isExpectContinue (env_uni (he_route env)) (req_Header r) then None
       else req_Header r ''Expect'')"
  proof -
    have "''Expect'' \<notin> set hopHeaders" by (simp add: hopHeaders_def)
    then show ?thesis unfolding hop_def q
      by (subst wire_header_other) (auto simp: own_fields_def forwarded_expect)
  qed
  have none: "\<forall>k \<in> hop. k \<noteq> ''Connection'' \<and> k \<notin> own_fields \<longrightarrow> wire_header q k = None"
    unfolding hop_def q by (simp add: wire_header_other forward_request_header)
  have same: "\<forall>k. k \<notin> hop \<and> k \<notin> {''Expect'', ''Connection''} \<union> own_fields \<longrightarrow> wire_header q k = req_Header r k"
    unfolding hop_def q by (auto simp: wire_header_other forward_request_header)
  have ua: "\<forall>v vs. req_Header r ''User-Agent'' = Some (v # vs) \<and> v \<noteq> [] \<and> ''User-Agent'' \<notin> hop \<longrightarrow>
       wire_header q ''User-Agent'' = Some [v]"
    unfolding hop_def q by (simp add: wire_header_def forward_request_header Header_Get_def Header_Values_def)
  have framing: "(req_TransferEncoding r = [''chunked''] \<longrightarrow>
       wire_header q ''Transfer-Encoding'' = Some [''chunked''] \<and> wire_header q ''Content-Length'' = None \<and>
       (req_Trailer r \<noteq> [] \<longrightarrow> wire_header q ''Trailer'' = Some [join_with '','' (req_Trailer r)]))"
    "(req_TransferEncoding r = [] \<and> 0 \<le> req_ContentLength r \<longrightarrow>
       wire_header q ''Transfer-Encoding'' = None \<and> wire_header q ''Trailer'' = None \<and>
       (0 < req_ContentLength r \<longrightarrow> wire_header q ''Content-Length'' = Some [Itoa (nat (req_ContentLength r))]))"
    using sent_encoding_cases [of q] by (simp_all add: wire_header_def is_chunked_def q)
  have host: "req_Host r \<noteq> [] \<longrightarrow> wire_header q ''Host'' = Some [req_Host r]"
    by (simp add: wire_header_def q)
  show ?thesis by (intro conjI conn none expect same ua framing host) (simp_all add: q)
qed

theorem hop_headers_never_forwarded_witness:
  "\<exists>q. map (snd \<circ> snd) (ex_proxied (ServeHTTP ex_http_env ex_http_request ex_exchange)) = [Some q] \<and>
     wire_header q ''Connection'' = Some [''close''] \<and> wire_header q ''Proxy-Authorization'' = None \<and>
     wire_header q ''X-Secret'' = None \<and> wire_header q ''Accept'' = Some [''*'']"
proof -
  let ?q = "forward_request (env_uni (he_route ex_http_env)) ex_http_request ''a.io''"
  have "parseBasicAuth (Header_Get (req_Header ex_http_request) ''Proxy-Authorization'') = Some (''u'', ''p'')"
    "Valid (he_sha ex_http_env) (he_credentials ex_http_env) (bytes_of_string ''u'') (bytes_of_string ''p'')"
    "he_credentials ex_http_env \<noteq> []" by code_simp+
  then have "ServeHTTP ex_http_env ex_http_request ex_exchange = Handle ex_http_env ex_http_request ex_exchange"
    by (simp add: ServeHTTP_cases)
  moreover have "BuildRemoteAddr ex_http_request = Inr (''a.io'', ''a.io:80'')" by code_simp
  moreover have "fst (GetRoute (he_route ex_http_env) (he_newClient ex_http_env) ''a.io'' (ex_router ex_exchange)) = Inr Direct"
    by code_simp
  ultimately have p: "ex_proxied (ServeHTTP ex_http_env ex_http_request ex_exchange) = [(Direct, ''a.io:80'', Some ?q)]"
    by (auto simp: Handle_def http_handleRequest_def ex_http_request_def ex_http_env_def ex_exchange_def Let_def
        split: prod.splits)
  have n: "''X-Secret'' \<in> nominated (env_uni (he_route ex_http_env)) (req_Header ex_http_request)"
  proof -
    have "strings_TrimSpace (env_uni (he_route ex_http_env)) ''x-secret'' = ''x-secret''"
      "CanonicalHeaderKey ''x-secret'' = ''X-Secret''" "strings_Split ''x-secret'' (CHR '','') = [''x-secret'']"
      by code_simp+
    then show ?thesis unfolding nominated_def ex_http_request_def
      by (intro CollectI exI [of _ "''x-secret''"]) (simp add: Header_Values_def)
  qed
  have a: "''Accept'' \<notin> nominated (env_uni (he_route ex_http_env)) (req_Header ex_http_request)"
  proof -
    have "strings_Split ''x-secret'' (CHR '','') = [''x-secret'']"
      "CanonicalHeaderKey (strings_TrimSpace (env_uni (he_route ex_http_env)) ''x-secret'') \<noteq> ''Accept''"
      by code_simp+
    then show ?thesis unfolding nominated_def ex_http_request_def by (auto simp: Header_Values_def)
  qed
  have "(Direct, ''a.io:80'', Some ?q) \<in> set (ex_proxied (ServeHTTP ex_http_env ex_http_request ex_exchange))"
    using p by simp
  from hop_headers_never_forwarded [OF this] n a p show ?thesis
    by (intro exI [of _ ?q]) (auto simp: ex_exchange_def hopHeaders_def own_fields_def ex_http_request_def)
qed

text \<open>
  C38: The proxy authentication gate. When credentials are configured, a request that is not
  answered with \<open>407\<close> alone carries a Basic \<open>Proxy-Authorization\<close> whose user and password the
  credential store accepts: anything else leaves the routing state, the client connection and
  the egresses untouched.
\<close>

theorem proxy_auth_gate:
  assumes "he_credentials env \<noteq> []"
    and "ServeHTTP env r x \<noteq> x\<lparr>ex_resp := ex_resp x @ [(407, [(''Proxy-Authenticate'', ''Basic realm=\"Proxy\"'')])]\<rparr>"
  shows "\<exists>user pass. parseBasicAuth (Header_Get (req_Header r) ''Proxy-Authorization'') = Some (user, pass) \<and>
    Valid (he_sha env) (he_credentials env) (bytes_of_string user) (bytes_of_string pass) \<and>
    ServeHTTP env r x = Handle env r x"
  using assms by (auto simp: ServeHTTP_cases auth_required_def respond_def split: option.splits if_splits)

theorem proxy_auth_gate_witness:
  "\<exists>user pass. parseBasicAuth ''basic dTpw'' = Some (user, pass) \<and>
     Valid id [(''u'', ''p'')] (bytes_of_string user) (bytes_of_string pass)"
proof -
  let ?x = "ex_exchange"
  have c: "he_credentials ex_http_env \<noteq> []" by (simp add: ex_http_env_def)
  have "ex_resp (ServeHTTP ex_http_env ex_http_request ?x) = []" by code_simp
  then have n: "ServeHTTP ex_http_env ex_http_request ?x \<noteq>
      ?x\<lparr>ex_resp := ex_resp ?x @ [(407, [(''Proxy-Authenticate'', ''Basic realm=\"Proxy\"'')])]\<rparr>" by auto
  have h: "Header_Get (req_Header ex_http_request) ''Proxy-Authorization'' = ''basic dTpw''" by code_simp
  show ?thesis using proxy_auth_gate [OF c n] h by (auto simp: ex_http_env_def)
qed

text \<open>
  C39: Basic authentication round trip. A request that carries the RFC 7617 encoding of a user
  (without colon) and any password is served if and only if the credential store accepts this
  very pair: base64, the case-insensitive scheme and the split at the first colon lose nothing.
\<close>

theorem basic_auth_roundtrip:
  assumes "he_credentials env \<noteq> []" and "CHR '':'' \<notin> set user"
    and "Header_Get (req_Header r) ''Proxy-Authorization'' = basic_authorization user pass"
  shows "ServeHTTP env r x =
    (if Valid (he_sha env) (he_credentials env) (bytes_of_string user) (bytes_of_string pass)
     then Handle env r x else auth_required x)"
  using assms by (simp add: ServeHTTP_cases parseBasicAuth_basic)

theorem basic_auth_roundtrip_witness:
  "ServeHTTP ex_http_env (ex_http_request\<lparr>req_Header := [''Proxy-Authorization'' \<mapsto> [basic_authorization ''u'' ''p:'']]\<rparr>)
     ex_exchange = auth_required ex_exchange"
proof -
  let ?r = "ex_http_request\<lparr>req_Header := [''Proxy-Authorization'' \<mapsto> [basic_authorization ''u'' ''p:'']]\<rparr>"
  have c: "he_credentials ex_http_env \<noteq> []" by (simp add: ex_http_env_def)
  have h: "Header_Get (req_Header ?r) ''Proxy-Authorization'' = basic_authorization ''u'' ''p:''" by code_simp
  have v: "\<not> Valid (he_sha ex_http_env) (he_credentials ex_http_env) (bytes_of_string ''u'') (bytes_of_string ''p:'')"
    by code_simp
  show ?thesis using basic_auth_roundtrip [OF c _ h, where x = ex_exchange] v by simp
qed

text \<open>
  A failed plain request is not answered. Once a plain request has a route and its connection
  is hijacked, the bytes the client receives are exactly those the egress relayed, whatever
  error the exchange ends with: the deadline set to unblock the upload also refuses the
  \<open>503\<close> that \<open>ServeProxyError\<close> writes afterwards.
\<close>

theorem plain_failure_unreported:
  assumes "BuildRemoteAddr r = Inr (host, addr)"
    and "GetRoute (he_route env) (he_newClient env) host (ex_router x) = (Inr route, rs)"
    and "he_hijack env = HijackOK" and "wfail (ex_conn x) = (\<lambda>_. None)"
  shows "outs (ex_conn (http_handleRequest env r x)) = outs (ex_conn x) @ hx_chunks (he_run env route addr) \<and>
    (\<forall>s \<in> set (drop (length (ex_resp x)) (ex_resp (http_handleRequest env r x))). s = (100, []))"
  using assms relay_chunks_ok [OF assms(4), of "hx_chunks (he_run env route addr)"]
  by (simp add: http_handleRequest_def ServeProxyError_conn_def refuse_writes_def close_if_def Write_def Let_def
      split: option.split)

theorem plain_failure_unreported_witness:
  "outs (ex_conn (http_handleRequest ex_http_env ex_http_request ex_exchange)) = [] \<and>
   outs (ex_conn (http_handleConnect ex_http_env (ex_http_request\<lparr>req_Host := ''a.io:80''\<rparr>) ex_exchange)) =
     [MessageServiceUnavailable]"
proof -
  have b: "BuildRemoteAddr ex_http_request = Inr (''a.io'', ''a.io:80'')" by code_simp
  have "fst (GetRoute (he_route ex_http_env) (he_newClient ex_http_env) ''a.io'' (ex_router ex_exchange)) = Inr Direct"
    by code_simp
  then obtain rs where g: "GetRoute (he_route ex_http_env) (he_newClient ex_http_env) ''a.io'' (ex_router ex_exchange) = (Inr Direct, rs)"
    by (metis prod.collapse)
  have h: "he_hijack ex_http_env = HijackOK" by (simp add: ex_http_env_def)
  have w: "wfail (ex_conn ex_exchange) = (\<lambda>_. None)" by (simp add: ex_exchange_def conn_of_def)
  have "outs (ex_conn (http_handleRequest ex_http_env ex_http_request ex_exchange)) = []"
    using plain_failure_unreported [OF b g h w] by (simp add: ex_http_env_def ex_exchange_def conn_of_def)
  moreover have "outs (ex_conn (http_handleConnect ex_http_env (ex_http_request\<lparr>req_Host := ''a.io:80''\<rparr>) ex_exchange)) =
     [MessageServiceUnavailable]" by code_simp
  ultimately show ?thesis by simp
qed

end
