(* ===== verification/TransportBase.thy ===== *)
theory TransportBase
  imports GoIO GoStrings
begin

text \<open>
  \<open>internal/transport\<close>, the settings every transport reads (\<open>common.go\<close>, \<open>setter.go\<close>), the
  traffic counters (\<open>stats.go\<close>), the buffer pool's size rule (\<open>pool.go\<close>), and the helpers
  that close connections (\<open>copy.go\<close>). Durations are nanoseconds. The speeds derived from the
  counters are in \<open>Traffic\<close>.
\<close>

section \<open>Settings (common.go, setter.go)\<close>

record transport_settings =
  bufferSize :: int
  network_opt :: string
  preferIPv4 :: bool
  idleTimeout :: int
  dialTimeout :: int

definition init_settings :: transport_settings where
  "init_settings = \<lparr>bufferSize = 32 * 1024, network_opt = ''tcp'', preferIPv4 = False,
     idleTimeout = 30 * 60 * 1000000000, dialTimeout = 3 * 60 * 1000000000\<rparr>"

definition DialNetwork :: "transport_settings \<Rightarrow> string \<Rightarrow> string" where
  "DialNetwork ts network =
     (if \<not> preferIPv4 ts then network
      else if network = ''tcp'' \<or> network = ''tcp6'' then ''tcp4''
      else if network = ''udp'' \<or> network = ''udp6'' then ''udp4''
      else network)"

definition GetBufferSize :: "transport_settings \<Rightarrow> int" where "GetBufferSize ts = bufferSize ts"
definition GetNetwork :: "transport_settings \<Rightarrow> string" where "GetNetwork ts = network_opt ts"
definition PreferIPv4 :: "transport_settings \<Rightarrow> bool" where "PreferIPv4 ts = preferIPv4 ts"
definition GetIdleTimeout :: "transport_settings \<Rightarrow> int" where "GetIdleTimeout ts = idleTimeout ts"
definition GetDialTimeout :: "transport_settings \<Rightarrow> int" where "GetDialTimeout ts = dialTimeout ts"

definition SetBufferSize :: "u16 \<Rightarrow> transport_settings \<Rightarrow> transport_settings" where
  "SetBufferSize size_kb ts = ts\<lparr>bufferSize := uint size_kb * 1024\<rparr>"

definition SetNetwork :: "string \<Rightarrow> transport_settings \<Rightarrow> transport_settings" where
  "SetNetwork net ts = ts\<lparr>network_opt := net\<rparr>"

definition DisableIPv6 :: "transport_settings \<Rightarrow> transport_settings" where
  "DisableIPv6 ts = (SetNetwork ''tcp4'' ts)\<lparr>preferIPv4 := True\<rparr>"

definition EnableIPv6 :: "transport_settings \<Rightarrow> transport_settings" where
  "EnableIPv6 ts = (SetNetwork ''tcp'' ts)\<lparr>preferIPv4 := False\<rparr>"

definition SetDialTimeout :: "int \<Rightarrow> transport_settings \<Rightarrow> transport_settings" where
  "SetDialTimeout t ts = ts\<lparr>dialTimeout := t\<rparr>"

definition SetIdleTimeout :: "int \<Rightarrow> transport_settings \<Rightarrow> transport_settings" where
  "SetIdleTimeout t ts = ts\<lparr>idleTimeout := t\<rparr>"

lemma DialNetwork_fields [simp]:
  "DialNetwork (SetDialTimeout t ts) = DialNetwork ts" "DialNetwork (SetIdleTimeout t ts) = DialNetwork ts"
  "DialNetwork (SetBufferSize b ts) = DialNetwork ts"
  by (simp_all add: fun_eq_iff DialNetwork_def SetDialTimeout_def SetIdleTimeout_def SetBufferSize_def)

text \<open>With IPv6 disabled no dual-stack and no IPv6 network is left.\<close>

lemma DialNetwork_ipv4:
  "preferIPv4 ts \<Longrightarrow> network \<in> {''tcp'', ''tcp4'', ''tcp6'', ''udp'', ''udp4'', ''udp6''} \<Longrightarrow>
   DialNetwork ts network \<in> {''tcp4'', ''udp4''}"
  by (auto simp: DialNetwork_def)

section \<open>Traffic counters (stats.go)\<close>

datatype Direction = DirectionOut | DirectionIn

record stats =
  tx :: u64
  rx :: u64

definition AddTx :: "u64 \<Rightarrow> stats \<Rightarrow> stats" where "AddTx n st = st\<lparr>tx := tx st + n\<rparr>"
definition AddRx :: "u64 \<Rightarrow> stats \<Rightarrow> stats" where "AddRx n st = st\<lparr>rx := rx st + n\<rparr>"

definition stats_Add :: "Direction \<Rightarrow> int \<Rightarrow> stats \<Rightarrow> stats" where
  "stats_Add direction n st =
     (if n \<le> 0 then st
      else case direction of DirectionIn \<Rightarrow> AddRx (word_of_int n) st | DirectionOut \<Rightarrow> AddTx (word_of_int n) st)"

section \<open>The buffer pool (pool.go)\<close>

text \<open>The pool as the capacities of the buffers in it; \<open>Get\<close> may also find it empty.\<close>

definition Buffer :: "transport_settings \<Rightarrow> nat option \<Rightarrow> int list \<Rightarrow> int \<times> int list" where
  "Buffer ts pick pool =
     (case pick of
        Some i \<Rightarrow> if i < length pool then (pool ! i, take i pool @ drop (Suc i) pool) else (bufferSize ts, pool)
      | None \<Rightarrow> (bufferSize ts, pool))"

definition PutBuffer :: "transport_settings \<Rightarrow> int \<Rightarrow> int list \<Rightarrow> int list" where
  "PutBuffer ts capacity pool = (if capacity \<noteq> bufferSize ts then pool else capacity # pool)"

section \<open>Closing (copy.go)\<close>

text \<open>A value handed to \<open>CloseAll\<close>: a closer with its identity, or something else.\<close>

datatype closable = Closer nat | NotCloser

fun close_all_loop :: "nat list \<Rightarrow> closable list \<Rightarrow> nat list" where
  "close_all_loop seen [] = []"
| "close_all_loop seen (NotCloser # vs) = close_all_loop seen vs"
| "close_all_loop seen (Closer c # vs) =
     (if c \<in> set seen then close_all_loop seen vs else c # close_all_loop (seen @ [c]) vs)"

text \<open>The \<open>Close\<close> calls of \<open>CloseAll\<close>, in order.\<close>

definition CloseAll :: "closable list \<Rightarrow> nat list" where
  "CloseAll vs = close_all_loop [] vs"

lemma close_all_loop_spec:
  "distinct (close_all_loop seen vs) \<and> set (close_all_loop seen vs) = {c. Closer c \<in> set vs} - set seen"
proof (induction seen vs rule: close_all_loop.induct)
  case (3 seen c vs)
  then show ?case by (cases "c \<in> set seen") auto
qed auto

datatype half_close = CloseWriteCall | CloseCall

definition CloseWriteOrClose :: "bool \<Rightarrow> bool \<Rightarrow> half_close option" where
  "CloseWriteOrClose has_closeWrite has_close =
     (if has_closeWrite then Some CloseWriteCall else if has_close then Some CloseCall else None)"

end
