(* ===== verification/ConfigApply.thy ===== *)
theory ConfigApply
  imports HttpProxy DnsBridge TransportBase
begin

text \<open>
  \<open>pkg/config\<close>, \<open>pkg/logger\<close> and the client launch of \<open>api/launcher.go\<close>: how a configuration
  reaches the process-wide state of the other components. \<open>Apply\<close> is the whole method, every
  early return included, over a record of the globals it writes. Opening a log file and
  constructing the dialer of a forward proxy are arguments. Loading is in \<open>Cli\<close>.
\<close>

section \<open>The logger (mode.go)\<close>

text \<open>Open log files are numbered in the order they are opened.\<close>

datatype log_sink = Stdout | Discard | LogFile nat | OtherWriter

record logger_state =
  log_output :: log_sink
  currentLogFile :: "nat option"
  open_logs :: "nat set"
  next_log :: nat

definition closeCurrentLocked :: "logger_state \<Rightarrow> logger_state" where
  "closeCurrentLocked l =
     (case currentLogFile l of
        None \<Rightarrow> l | Some f \<Rightarrow> l\<lparr>open_logs := open_logs l - {f}, currentLogFile := None\<rparr>)"

definition setDefaultLocked :: "logger_state \<Rightarrow> logger_state" where
  "setDefaultLocked l = closeCurrentLocked (l\<lparr>log_output := Stdout\<rparr>)"

definition Mode_Set :: "(string \<Rightarrow> bool) \<Rightarrow> string \<Rightarrow> logger_state \<Rightarrow> logger_state" where
  "Mode_Set can_open m l =
     (if m = [] then setDefaultLocked l
      else if m = ''null'' then closeCurrentLocked (l\<lparr>log_output := Discard\<rparr>)
      else if m = ''skip'' then l
      else if \<not> can_open m then setDefaultLocked l
      else let fd = next_log l; old = currentLogFile l;
               l1 = l\<lparr>next_log := Suc fd, open_logs := insert fd (open_logs l),
                      currentLogFile := Some fd, log_output := LogFile fd\<rparr>
           in case old of None \<Rightarrow> l1 | Some f \<Rightarrow> l1\<lparr>open_logs := open_logs l1 - {f}\<rparr>)"

text \<open>No log file leaks, and the logger never writes to a closed one.\<close>

definition logger_inv :: "logger_state \<Rightarrow> bool" where
  "logger_inv l \<longleftrightarrow> open_logs l = set_option (currentLogFile l) \<and>
     (\<forall>f. log_output l = LogFile f \<longrightarrow> currentLogFile l = Some f) \<and>
     (\<forall>f \<in> open_logs l. f < next_log l)"

lemma Mode_Set_inv [inv_intros]: "logger_inv l \<Longrightarrow> logger_inv (Mode_Set can_open m l)"
  by (cases "currentLogFile l")
    (auto simp: logger_inv_def Mode_Set_def setDefaultLocked_def closeCurrentLocked_def Let_def)

section \<open>The configuration (config.go)\<close>

record UDP_config =
  cu_Disable :: bool
  cu_MaxAssociations :: int
  cu_MaxAssociationsPerClient :: int
  cu_MaxNATEntries :: int
  cu_MaxNATEntriesTotal :: int
  cu_MaxNATEntriesPerClient :: int

record Client_config =
  c_ServerAddr :: string
  c_UUID :: string
  c_ListenSocks :: string
  c_ListenSocksUnix :: string
  c_ListenHttp :: string
  c_ListenDns :: string
  c_BasicAuth :: "string list"
  c_Mux :: "8 word"
  c_Routes :: Routes
  c_IdleTimeout :: int
  c_BlockIPv6DNS :: bool
  c_UDP :: "UDP_config option"

record Server_config =
  s_Listen :: string
  s_Path :: string
  s_Users :: "User list"
  s_Buffer :: u16
  s_IPv6 :: bool
  s_Forward :: string

record MixedConfig =
  c_Role :: string
  c_DNS :: "dns_type option"
  c_LogMode :: string
  c_Client :: "Client_config option"
  c_Server :: "Server_config option"
  decodedFromJSON :: bool
  idleTimeoutSet :: bool

definition RoleClient :: string where "RoleClient = ''client''"
definition RoleServer :: string where "RoleServer = ''server''"

definition zero_client :: Client_config where
  "zero_client = \<lparr>c_ServerAddr = [], c_UUID = [], c_ListenSocks = [], c_ListenSocksUnix = [], c_ListenHttp = [],
     c_ListenDns = [], c_BasicAuth = [], c_Mux = 0, c_Routes = [], c_IdleTimeout = 0, c_BlockIPv6DNS = False,
     c_UDP = None\<rparr>"

definition zero_server :: Server_config where
  "zero_server = \<lparr>s_Listen = [], s_Path = [], s_Users = [], s_Buffer = 0, s_IPv6 = False, s_Forward = []\<rparr>"

text \<open>\<open>newMixedConfig\<close>, and \<open>ensureEmbeddedConfigs\<close> as the two sections \<open>Apply\<close> then reads.\<close>

definition newMixedConfig :: MixedConfig where
  "newMixedConfig = \<lparr>c_Role = [], c_DNS = None, c_LogMode = [], c_Client = Some zero_client,
     c_Server = Some zero_server, decodedFromJSON = False, idleTimeoutSet = False\<rparr>"

definition ensureEmbeddedConfigs :: "MixedConfig \<Rightarrow> Client_config \<times> Server_config" where
  "ensureEmbeddedConfigs c =
     (case c_Client c of None \<Rightarrow> zero_client | Some cl \<Rightarrow> cl,
      case c_Server c of None \<Rightarrow> zero_server | Some s \<Rightarrow> s)"

definition maxIdleTimeoutSeconds :: int where
  "maxIdleTimeoutSeconds = (2 ^ 63 - 1) div 1000000000"

definition MaxTransportBufferSize :: int where
  "MaxTransportBufferSize = 4 * 1024 * 1024 - 1024"

definition routesHasDefault :: "Routes \<Rightarrow> bool" where
  "routesHasDefault routes = list_ex (\<lambda>r. case r of None \<Rightarrow> False | Some r \<Rightarrow> MatchType r = TypeDefault) routes"

text \<open>The process-wide state a configuration is applied to.\<close>

record 'd globals =
  g_logger :: logger_state
  g_dns :: "dns_type option"
  g_transport :: transport_settings
  g_udp :: udp_globals
  g_service :: ServiceConfig
  g_uuid :: string
  g_forward :: "'d option"
  g_router :: router_state

record 'd apply_env =
  ae_route :: route_env
  ae_open :: "string \<Rightarrow> bool"
  ae_LoadProxy :: "string \<Rightarrow> 'd result"

text \<open>The limits of the \<open>udp\<close> section: a negative one is refused, the rest become \<open>UDPSettings\<close>.\<close>

definition udp_settings :: "UDP_config option \<Rightarrow> UDPSettings result" where
  "udp_settings udp =
     (case udp of
        None \<Rightarrow> Inr \<lparr>set_Disable = False, set_MaxAssociations = 0, set_MaxAssociationsPerClient = 0,
                   set_MaxNATEntries = 0, set_MaxNATEntriesGlobal = 0, set_MaxNATEntriesPerClient = 0\<rparr>
      | Some u \<Rightarrow>
          if list_ex (\<lambda>v. v < 0) [cu_MaxAssociations u, cu_MaxAssociationsPerClient u, cu_MaxNATEntries u,
               cu_MaxNATEntriesTotal u, cu_MaxNATEntriesPerClient u]
          then Inl (Errorf ''udp limit must be non-negative'')
          else Inr \<lparr>set_Disable = cu_Disable u, set_MaxAssociations = cu_MaxAssociations u,
                 set_MaxAssociationsPerClient = cu_MaxAssociationsPerClient u, set_MaxNATEntries = cu_MaxNATEntries u,
                 set_MaxNATEntriesGlobal = cu_MaxNATEntriesTotal u,
                 set_MaxNATEntriesPerClient = cu_MaxNATEntriesPerClient u\<rparr>)"

definition effective_routes :: "string \<Rightarrow> Routes \<Rightarrow> bool \<Rightarrow> Routes" where
  "effective_routes role routes ipv6 =
     (let rs = (if routes = [] then
                  (if role = RoleClient then [CloneRoute (Some RouteClientDefault)]
                   else [CloneRoute (Some RouteServerDefault)])
                else routes)
      in if \<not> ipv6 then Some RouteBlockIPv6 # rs else rs)"

text \<open>
  A step of \<open>Apply\<close>: continue with the new state, or return the error and the state reached.
\<close>

type_synonym 'd step = "'d globals \<Rightarrow> goerror option \<times> 'd globals"

definition and_then :: "'d step \<Rightarrow> 'd step \<Rightarrow> 'd step" where
  "and_then a b g = (case a g of (Some e, g') \<Rightarrow> (Some e, g') | (None, g') \<Rightarrow> b g')"

definition check :: "bool \<Rightarrow> string \<Rightarrow> 'd step" where
  "check bad msg g = (if bad then (Some (Errorf msg), g) else (None, g))"

definition set_log :: "'d apply_env \<Rightarrow> string \<Rightarrow> 'd step" where
  "set_log env m g = (None, g\<lparr>g_logger := Mode_Set (ae_open env) m (g_logger g)\<rparr>)"

definition set_dns :: "dns_type option \<Rightarrow> 'd step" where
  "set_dns d g =
     (case d of
        None \<Rightarrow> (None, g)
      | Some t \<Rightarrow> (case SetDefault t of Inl e \<Rightarrow> (Some e, g) | Inr _ \<Rightarrow> (None, g\<lparr>g_dns := Some t\<rparr>)))"

definition set_buffer :: "u16 \<Rightarrow> 'd step" where
  "set_buffer b g =
     (if b > 0 then
        if uint b * 1024 > MaxTransportBufferSize then (Some (Errorf ''buffer too large''), g)
        else (None, g\<lparr>g_transport := SetBufferSize b (g_transport g)\<rparr>)
      else (None, g))"

definition set_udp :: "UDP_config option \<Rightarrow> 'd step" where
  "set_udp udp g =
     (case udp_settings udp of
        Inl e \<Rightarrow> (Some e, g) | Inr s \<Rightarrow> (None, g\<lparr>g_udp := SetUDPSettings s (g_udp g)\<rparr>))"

definition set_path :: "string \<Rightarrow> 'd step" where
  "set_path p g = (None, if p \<noteq> [] then g\<lparr>g_service := SetServiceName p\<rparr> else g)"

definition set_uuid :: "string \<Rightarrow> string \<Rightarrow> 'd step" where
  "set_uuid role uid g =
     (if role = RoleClient then
        if uid = [] then (Some (Errorf ''client uuid empty''), g) else (None, g\<lparr>g_uuid := uid\<rparr>)
      else (None, g))"

definition set_forward :: "'d apply_env \<Rightarrow> string \<Rightarrow> 'd step" where
  "set_forward env p g =
     (if p \<noteq> [] then (case ae_LoadProxy env p of Inl e \<Rightarrow> (Some e, g) | Inr d \<Rightarrow> (None, g\<lparr>g_forward := Some d\<rparr>))
      else (None, g))"

definition set_routes :: "'d apply_env \<Rightarrow> Routes \<Rightarrow> 'd step" where
  "set_routes env rs g = (case SetRoutes (ae_route env) rs (g_router g) of (e, r) \<Rightarrow> (e, g\<lparr>g_router := r\<rparr>))"

definition set_ipv6 :: "bool \<Rightarrow> 'd step" where
  "set_ipv6 ipv6 g =
     (None, g\<lparr>g_transport := (if \<not> ipv6 then DisableIPv6 (g_transport g) else EnableIPv6 (g_transport g))\<rparr>)"

definition set_idle :: "bool \<Rightarrow> int \<Rightarrow> 'd step" where
  "set_idle on secs g =
     (None, if on then g\<lparr>g_transport := SetIdleTimeout (secs * 1000000000) (g_transport g)\<rparr> else g)"

text \<open>Everything before the routes, in the order of the source; then the routes and what follows.\<close>

definition applyIdleTimeout :: "MixedConfig \<Rightarrow> bool" where
  "applyIdleTimeout c \<longleftrightarrow> \<not> decodedFromJSON c \<or> idleTimeoutSet c"

definition apply_settings :: "'d apply_env \<Rightarrow> MixedConfig \<Rightarrow> Client_config \<Rightarrow> Server_config \<Rightarrow> 'd step" where
  "apply_settings env c cl s =
      and_then (check (c_Role c \<noteq> RoleClient \<and> c_Role c \<noteq> RoleServer) ''invalid role'')
     (and_then (check (applyIdleTimeout c \<and> c_IdleTimeout cl < 0) ''idle_timeout must be non-negative'')
     (and_then (check (applyIdleTimeout c \<and> c_IdleTimeout cl > maxIdleTimeoutSeconds) ''idle_timeout exceeds maximum duration'')
     (and_then (set_log env (c_LogMode c))
     (and_then (set_dns (c_DNS c))
     (and_then (set_buffer (s_Buffer s))
     (and_then (set_udp (c_UDP cl))
     (and_then (set_path (s_Path s))
     (and_then (set_uuid (c_Role c) (c_UUID cl))
     (set_forward env (s_Forward s))))))))))"

definition Apply :: "'d apply_env \<Rightarrow> MixedConfig \<Rightarrow> 'd step" where
  "Apply env c =
     (case ensureEmbeddedConfigs c of (cl, s) \<Rightarrow>
      and_then (apply_settings env c cl s)
     (and_then (set_routes env (effective_routes (c_Role c) (c_Routes cl) (s_IPv6 s)))
     (and_then (set_ipv6 (s_IPv6 s)) (set_idle (applyIdleTimeout c) (c_IdleTimeout cl)))))"

section \<open>Launching a client (launcher.go)\<close>

text \<open>The credential store built from the \<open>user:password\<close> entries of \<open>basic_auth\<close>.\<close>

fun basicAuth_loop :: "string list \<Rightarrow> StaticCredentials \<Rightarrow> StaticCredentials result" where
  "basicAuth_loop [] m = Inr m"
| "basicAuth_loop (s # ss) m =
     (case strings_Cut s (CHR '':'') of
        None \<Rightarrow> Inl (Errorf ''basic auth format error'')
      | Some (user, password) \<Rightarrow> basicAuth_loop ss (AList.update user password m))"

datatype front_end = SocksTCP string | SocksUnix string | HttpFront string | DnsFront string bool

definition launch_front_ends :: "Client_config \<Rightarrow> front_end list" where
  "launch_front_ends cl =
     (if c_ListenSocks cl \<noteq> [] then [SocksTCP (c_ListenSocks cl)] else []) @
     (if c_ListenSocksUnix cl \<noteq> [] then
        [SocksUnix (if hd (c_ListenSocksUnix cl) \<noteq> CHR ''/'' then CHR 0x00 # c_ListenSocksUnix cl
                    else c_ListenSocksUnix cl)] else []) @
     (if c_ListenHttp cl \<noteq> [] then [HttpFront (c_ListenHttp cl)] else []) @
     (if c_ListenDns cl \<noteq> [] then [DnsFront (c_ListenDns cl) (c_BlockIPv6DNS cl)] else [])"

text \<open>How the process ends: stopping on a signal or a cancelled context is not an error.\<close>

definition launch_result :: "goerror option \<Rightarrow> goerror option" where
  "launch_result err =
     (case err of
        None \<Rightarrow> None
      | Some e \<Rightarrow> if errors_Is e Canceled \<or> errors_Is e ErrSignalArrived then None
                  else Some (Wrap ''inbound process error'' e))"

text \<open>
  \<open>launchClient\<close>: its error and what it started (the credentials shared by the front ends,
  and the front ends). The arguments are \<open>uuid.Parse\<close>, the result of \<open>client.Init\<close>, that of
  \<open>dns.NewServer\<close>, and what \<open>errGroup.Wait\<close> returns for the front ends that run.
\<close>

definition launchClient ::
  "(string \<Rightarrow> goerror option) \<Rightarrow> goerror option \<Rightarrow> (string \<Rightarrow> goerror option)
    \<Rightarrow> (StaticCredentials \<Rightarrow> front_end list \<Rightarrow> goerror option) \<Rightarrow> Client_config
    \<Rightarrow> goerror option \<times> (StaticCredentials \<times> front_end list) option" where
  "launchClient parse_uuid init_pool dns_NewServer wait cl =
     (case parse_uuid (c_UUID cl) of
        Some e \<Rightarrow> (Some e, None)
      | None \<Rightarrow>
          (case init_pool of
             Some e \<Rightarrow> (Some (Wrap ''init client failed'' e), None)
           | None \<Rightarrow>
               (case basicAuth_loop (c_BasicAuth cl) [] of
                  Inl e \<Rightarrow> (Some e, None)
                | Inr m \<Rightarrow>
                    let fronts = launch_front_ends cl in
                    (case (if c_ListenDns cl \<noteq> [] then dns_NewServer (c_ListenDns cl) else None) of
                       Some e \<Rightarrow> (Some (Wrap ''create dns server failed'' e), Some (m, butlast fronts))
                     | None \<Rightarrow> (launch_result (wait m fronts), Some (m, fronts))))))"

text \<open>Every \<open>user:password\<close> entry becomes a credential; the last entry of a user counts.\<close>

lemma basicAuth_loop_lookup:
  "basicAuth_loop ss m = Inr m' \<Longrightarrow>
     map_of m' u = (case find (\<lambda>s. fst (the (strings_Cut s (CHR '':''))) = u) (rev ss) of
        Some s \<Rightarrow> Some (snd (the (strings_Cut s (CHR '':'')))) | None \<Rightarrow> map_of m u)"
proof (induction ss arbitrary: m)
  case (Cons s ss)
  then obtain user pw where c: "strings_Cut s (CHR '':'') = Some (user, pw)"
    by (cases "strings_Cut s (CHR '':'')") auto
  have f: "find P (xs @ [x]) = (case find P xs of Some y \<Rightarrow> Some y | None \<Rightarrow> if P x then Some x else None)"
    for P :: "string \<Rightarrow> bool" and xs x by (induction xs) auto
  show ?case using Cons.IH [of "AList.update user pw m"] Cons.prems c
    by (auto simp: f update_conv split: option.splits)
qed simp

section \<open>Applying a configuration\<close>

text \<open>What a step leaves alone: the installed routes and the dial preferences.\<close>

definition keeps :: "'d globals \<Rightarrow> 'd globals \<Rightarrow> bool" where
  "keeps g g' \<longleftrightarrow> g_router g' = g_router g \<and>
     network_opt (g_transport g') = network_opt (g_transport g) \<and>
     preferIPv4 (g_transport g') = preferIPv4 (g_transport g) \<and>
     idleTimeout (g_transport g') = idleTimeout (g_transport g) \<and>
     dialTimeout (g_transport g') = dialTimeout (g_transport g)"

definition keeping :: "'d step \<Rightarrow> bool" where
  "keeping a \<longleftrightarrow> (\<forall>g r g'. a g = (r, g') \<longrightarrow> keeps g g')"

lemma keeps_refl [simp]: "keeps g g" by (simp add: keeps_def)

lemma keeps_trans: "keeps a b \<Longrightarrow> keeps b c \<Longrightarrow> keeps a c"
  by (simp add: keeps_def)

lemma keeping_steps [simp]:
  "keeping (check bad m)" "keeping (set_log env l)" "keeping (set_dns d)" "keeping (set_buffer b)"
  "keeping (set_udp u)" "keeping (set_path p)" "keeping (set_uuid r i)" "keeping (set_forward env p)"
  unfolding keeping_def keeps_def check_def set_log_def set_dns_def set_buffer_def set_udp_def set_path_def
    set_uuid_def set_forward_def SetBufferSize_def
  by (auto split: option.splits sum.splits if_splits)

lemma keeping_and_then [simp]: "keeping a \<Longrightarrow> keeping b \<Longrightarrow> keeping (and_then a b)"
  unfolding keeping_def and_then_def using keeps_trans by (fastforce split: prod.splits option.splits)

lemma apply_settings_keeping: "keeping (apply_settings env c cl s)"
  by (simp add: apply_settings_def)

lemma apply_settings_idle:
  "apply_settings env c cl s g = (None, g') \<Longrightarrow>
   applyIdleTimeout c \<longrightarrow> 0 \<le> c_IdleTimeout cl \<and> c_IdleTimeout cl \<le> maxIdleTimeoutSeconds"
  unfolding apply_settings_def by (auto simp: and_then_def check_def split: if_splits)

lemma and_then_error:
  assumes "and_then a b g = (Some e, g')"
  obtains "a g = (Some e, g')" | g1 where "a g = (None, g1)" and "b g1 = (Some e, g')"
  using assms by (auto simp: and_then_def split: prod.splits option.splits)

lemma and_then_ok:
  assumes "and_then a b g = (None, g')"
  obtains g1 where "a g = (None, g1)" and "b g1 = (None, g')"
  using assms by (auto simp: and_then_def split: prod.splits option.splits)

lemma set_routes_error: "set_routes env rs g = (Some e, g') \<Longrightarrow> g' = g"
  by (auto simp: set_routes_def SetRoutes_def split: sum.splits)

lemma last_steps:
  "and_then (set_ipv6 v) (set_idle on secs) g = (None, snd (set_idle on secs (snd (set_ipv6 v g))))"
  by (simp add: and_then_def set_ipv6_def set_idle_def)

lemma last_steps_fields:
  "g_router (snd (set_idle on secs (snd (set_ipv6 v g)))) = g_router g"
  "preferIPv4 (g_transport (snd (set_idle on secs (snd (set_ipv6 v g))))) = (\<not> v)"
  by (simp_all add: set_ipv6_def set_idle_def DisableIPv6_def EnableIPv6_def SetIdleTimeout_def)

lemma Apply_error_keeps:
  assumes "Apply env c g = (Some e, g')"
  shows "keeps g g'"
proof -
  obtain cl s where cs: "ensureEmbeddedConfigs c = (cl, s)" by force
  from assms show ?thesis unfolding Apply_def cs prod.case
  proof (cases rule: and_then_error)
    case 1
    then show ?thesis using apply_settings_keeping unfolding keeping_def by blast
  next
    case (2 g1)
    then have "keeps g g1" using apply_settings_keeping unfolding keeping_def by blast
    moreover from 2(2) have "g' = g1" by (cases rule: and_then_error) (auto simp: last_steps dest: set_routes_error)
    ultimately show ?thesis by simp
  qed
qed

lemma Apply_ok:
  assumes "Apply env c g = (None, g')" and cs: "ensureEmbeddedConfigs c = (cl, s)"
  shows "\<exists>rs. prepareRoutes (ae_route env) (effective_routes (c_Role c) (c_Routes cl) (s_IPv6 s)) = Inr rs \<and>
    g_router g' = install (g_router g) rs \<and> preferIPv4 (g_transport g') = (\<not> s_IPv6 s)"
proof -
  from assms(1) obtain g1 where g1: "apply_settings env c cl s g = (None, g1)"
    and rest: "and_then (set_routes env (effective_routes (c_Role c) (c_Routes cl) (s_IPv6 s)))
      (and_then (set_ipv6 (s_IPv6 s)) (set_idle (applyIdleTimeout c) (c_IdleTimeout cl))) g1 = (None, g')"
    unfolding Apply_def cs prod.case by (rule and_then_ok)
  from rest obtain g2 where g2: "set_routes env (effective_routes (c_Role c) (c_Routes cl) (s_IPv6 s)) g1 = (None, g2)"
    and g': "and_then (set_ipv6 (s_IPv6 s)) (set_idle (applyIdleTimeout c) (c_IdleTimeout cl)) g2 = (None, g')"
    by (rule and_then_ok)
  have k: "g_router g1 = g_router g"
    using apply_settings_keeping [of env c cl s] g1 unfolding keeping_def keeps_def by blast
  have "g' = snd (set_idle (applyIdleTimeout c) (c_IdleTimeout cl) (snd (set_ipv6 (s_IPv6 s) g2)))"
    using g' by (simp add: last_steps)
  then have "g_router g' = g_router g2" "preferIPv4 (g_transport g') = (\<not> s_IPv6 s)"
    by (simp_all add: last_steps_fields)
  then show ?thesis using g2 k by (auto simp: set_routes_def SetRoutes_def split: sum.splits)
qed

section \<open>IPv6 literals\<close>

lemma parse_all_ipv6: "parse_cidr u ''::/0'' = Inr (Some \<lparr>pfx_ip = Addr6 (replicate 16 0) [], pfx_bits = 0\<rparr>)"
proof -
  have t: "list_all is_ascii ''::/0''" "trim_both ascii_space ''::/0'' = ''::/0''" by code_simp+
  have p: "netip_ParsePrefix ''::/0'' = Some \<lparr>pfx_ip = Addr6 (replicate 16 0) [], pfx_bits = 0\<rparr>" by code_simp
  show ?thesis using t p by (simp add: parse_cidr_def strings_TrimSpace_def)
qed

lemma block_rule_matches:
  assumes "prepareRoutes env (Some RouteBlockIPv6 # rs) = Inr prepared"
    and "netip_ParseAddr key = Some (Addr6 b [])"
  shows "first_match env prepared key = Inr EgressBlock"
proof -
  let ?c = "emptyMatchCache\<lparr>CIDRList := [\<lparr>pfx_ip = Addr6 (replicate 16 0) [], pfx_bits = 0\<rparr>]\<rparr>"
  have "Route_GenerateCache env RouteBlockIPv6 = Inr (RouteBlockIPv6\<lparr>match_cache := ?c\<rparr>)"
    by (simp add: Route_GenerateCache_def route_sources_def RouteBlockIPv6_def parse_all_ipv6)
  then have "\<exists>rest. prepared = Some (RouteBlockIPv6\<lparr>match_cache := ?c\<rparr>) # rest"
    using assms(1) by (auto simp: prepareRoutes_def cloneRoutes_def CloneRoute_def Route_GenerateCache_cong split: sum.splits)
  then show ?thesis using assms(2)
    by (auto simp: Route_Match_def RouteBlockIPv6_def Prefix_Contains_all6)
qed

lemma lookups_keep_rules:
  "routesCache (fold (\<lambda>(d, nc) s. snd (GetRoute env nc d s)) ls s) = routesCache s"
  by (induction ls arbitrary: s) auto

lemma lookups_inv:
  "router_inv env s \<Longrightarrow> router_inv env (fold (\<lambda>(d, nc) s. snd (GetRoute env nc d s)) ls s)"
  by (induction ls arbitrary: s) (auto simp: GetRoute_inv)

section \<open>Properties\<close>

text \<open>A client configuration without IPv6, and the state of a fresh process.\<close>

definition ex_config :: MixedConfig where
  "ex_config = newMixedConfig\<lparr>c_Role := ''client'', c_Client := Some (zero_client\<lparr>c_UUID := ''u''\<rparr>)\<rparr>"

definition ex_globals :: "unit globals" where
  "ex_globals = \<lparr>g_logger = \<lparr>log_output = Stdout, currentLogFile = None, open_logs = {}, next_log = 0\<rparr>, g_dns = None,
     g_transport = init_settings, g_udp = init_udp_globals, g_service = SetServiceName [], g_uuid = [],
     g_forward = None, g_router = router_run plain_env ([] :: unit router_op list)\<rparr>"

definition ex_apply_env :: "unit apply_env" where
  "ex_apply_env = \<lparr>ae_route = plain_env, ae_open = (\<lambda>_. False), ae_LoadProxy = (\<lambda>_. Inr ())\<rparr>"

text \<open>
  C32: A rejected reload leaves routing intact. Whatever \<open>Apply\<close> refuses, from an unknown role to a
  rule that does not compile, the installed rules and the route cache, the dial network, the
  IPv4 preference and the timeouts are those from before; of the transport settings only the
  buffer size may have been updated on the way.
\<close>

theorem Apply_rejected_keeps_routing:
  assumes "Apply env c g = (Some e, g')"
  shows "g_router g' = g_router g \<and> DialNetwork (g_transport g') = DialNetwork (g_transport g) \<and>
    network_opt (g_transport g') = network_opt (g_transport g) \<and>
    idleTimeout (g_transport g') = idleTimeout (g_transport g) \<and>
    dialTimeout (g_transport g') = dialTimeout (g_transport g)"
  using Apply_error_keeps [OF assms] by (simp add: keeps_def fun_eq_iff DialNetwork_def)

theorem Apply_rejected_keeps_routing_witness:
  "\<exists>e g'. Apply ex_apply_env (ex_config\<lparr>c_Client := Some (zero_client\<lparr>c_UUID := ''u'', c_Routes := [None]\<rparr>),
        c_Server := Some (zero_server\<lparr>s_Buffer := 2\<rparr>)\<rparr>) ex_globals = (Some e, g') \<and>
     bufferSize (g_transport g') = 2048 \<and> g_router g' = g_router ex_globals"
proof -
  let ?c = "ex_config\<lparr>c_Client := Some (zero_client\<lparr>c_UUID := ''u'', c_Routes := [None]\<rparr>),
        c_Server := Some (zero_server\<lparr>s_Buffer := 2\<rparr>)\<rparr>"
  obtain r g' where run: "Apply ex_apply_env ?c ex_globals = (r, g')" by (cases "Apply ex_apply_env ?c ex_globals")
  have "fst (Apply ex_apply_env ?c ex_globals) \<noteq> None" by code_simp
  then obtain e where e: "r = Some e" using run by auto
  have b: "bufferSize (g_transport (snd (Apply ex_apply_env ?c ex_globals))) = 2048" by code_simp
  show ?thesis using Apply_rejected_keeps_routing [OF run [unfolded e]] run e b by auto
qed

text \<open>
  C17: IPv6 stays off. After a configuration with \<open>ipv6\<close> unset has been applied to any reachable
  routing state, and after any number of lookups, a zone-free IPv6 literal is refused with
  \<open>ErrBlocked\<close> whatever rules the configuration brings, and no TCP or UDP network the
  transports dial is dual-stack or IPv6.
\<close>

theorem ipv6_disabled_blocks:
  assumes "Apply env c g = (None, g')" and "ensureEmbeddedConfigs c = (cl, s)" and "\<not> s_IPv6 s"
    and "g_router g = router_run (ae_route env) ops"
    and "list_all is_ascii dst" and "list_all (\<lambda>ch. \<not> ascii_space ch) dst"
    and "netip_ParseAddr (normalizeRouteKey (env_uni (ae_route env)) dst) = Some (Addr6 b [])"
  shows "fst (GetRoute (ae_route env) newClient dst
      (fold (\<lambda>(d, nc) r. snd (GetRoute (ae_route env) nc d r)) lookups (g_router g'))) = Inl (Sentinel ErrBlocked) \<and>
    (\<forall>n \<in> {''tcp'', ''tcp4'', ''tcp6'', ''udp'', ''udp4'', ''udp6''}. DialNetwork (g_transport g') n \<in> {''tcp4'', ''udp4''})"
proof -
  let ?e = "ae_route env"
  let ?s = "fold (\<lambda>(d, nc) r. snd (GetRoute ?e nc d r)) lookups (g_router g')"
  obtain rs prepared where p: "prepareRoutes ?e (Some RouteBlockIPv6 # rs) = Inr prepared"
    and r: "g_router g' = install (g_router g) prepared" and v4: "preferIPv4 (g_transport g')"
    using Apply_ok [OF assms(1,2)] assms(3) by (auto simp: effective_routes_def Let_def)
  have inv: "router_inv ?e ?s"
    unfolding r assms(4) by (intro lookups_inv install_inv router_run_inv)
  have "routesCache ?s = prepared" by (simp add: lookups_keep_rules r install_def)
  with block_rule_matches [OF p assms(7)]
  have "first_match ?e (routesCache ?s) (normalizeRouteKey (env_uni ?e) dst) = Inr EgressBlock" by simp
  with GetRoute_memo [OF inv normalizeRouteKey_stable [OF assms(5,6)], of newClient]
  show ?thesis using DialNetwork_ipv4 [OF v4] by (simp add: GetTransport_def)
qed

theorem ipv6_disabled_blocks_witness:
  "fst (GetRoute plain_env (Inr ()) ''2001:db8::1'' (g_router (snd (Apply ex_apply_env ex_config ex_globals)))) =
     (Inl (Sentinel ErrBlocked) :: unit transport result)"
proof -
  obtain r g' where run: "Apply ex_apply_env ex_config ex_globals = (r, g')"
    by (cases "Apply ex_apply_env ex_config ex_globals")
  have "fst (Apply ex_apply_env ex_config ex_globals) = None" by code_simp
  then have run0: "Apply ex_apply_env ex_config ex_globals = (None, g')" using run by simp
  have cs: "ensureEmbeddedConfigs ex_config = (zero_client\<lparr>c_UUID := ''u''\<rparr>, zero_server)"
    by (simp add: ensureEmbeddedConfigs_def ex_config_def newMixedConfig_def)
  have s: "\<not> s_IPv6 zero_server" by (simp add: zero_server_def)
  have r: "g_router ex_globals = router_run (ae_route ex_apply_env) ([] :: unit router_op list)"
    by (simp add: ex_globals_def ex_apply_env_def)
  have a: "list_all is_ascii ''2001:db8::1''" "list_all (\<lambda>ch. \<not> ascii_space ch) ''2001:db8::1''" by code_simp+
  have k: "netip_ParseAddr (normalizeRouteKey (env_uni (ae_route ex_apply_env)) ''2001:db8::1'') =
      Some (Addr6 [0x20, 1, 0xd, 0xb8, 0, 0, 0, 0, 0, 0, 0, 0, 0, 0, 0, 1] [])" by code_simp
  show ?thesis
    using ipv6_disabled_blocks [OF run0 cs s r a k, where newClient = "Inr ()" and lookups = "[]"] run0
    by (simp add: ex_apply_env_def)
qed

end
