(* ===== verification/Management.thy ===== *)
theory Management
  imports TransportBase ConnPool Router
begin

text \<open>
  \<open>internal/management/server.go\<close>: the loopback-only HTTP API. The guard, the routing of the two
  endpoints and the payload of the statistics endpoint; the JSON encoder and the two
  floating-point speeds are left out.
\<close>

section \<open>The guard\<close>

definition host_part :: "string \<Rightarrow> string" where
  "host_part hostport = (case net_SplitHostPort hostport of Inr (h, _) \<Rightarrow> h | Inl _ \<Rightarrow> hostport)"

definition ipIsLoopback :: "string \<Rightarrow> bool" where
  "ipIsLoopback hostport =
     (case net_ParseIP (host_part hostport) of None \<Rightarrow> False | Some ip \<Rightarrow> IP_IsLoopback ip)"

definition hostHeaderAllowed :: "unicode \<Rightarrow> string \<Rightarrow> bool" where
  "hostHeaderAllowed u host =
     (let h = host_part host in
      if strings_EqualFold u h ''localhost'' then True
      else case net_ParseIP h of None \<Rightarrow> False | Some ip \<Rightarrow> IP_IsLoopback ip)"

text \<open>What a handler answers: a status, and a body when it serves the request.\<close>

record StatsResponse =
  TxTotalBytes :: u64
  RxTotalBytes :: u64
  PoolTotal :: nat
  PoolActive :: nat
  PoolLoad :: u32
  Connections :: "ConnectionDetail list"

datatype mgmt_body = NoBody | HealthBody | StatsBody StatsResponse

record mgmt_request =
  mr_RemoteAddr :: string
  mr_Host :: string
  mr_Method :: string
  mr_Path :: string

text \<open>The pool the client keeps, if it has been initialised (\<open>client.go\<close>).\<close>

definition client_GetConnectionSummary :: "ConnQueue option \<Rightarrow> nat \<times> nat \<times> u32" where
  "client_GetConnectionSummary q = (case q of None \<Rightarrow> (0, 0, 0) | Some q \<Rightarrow> GetConnectionSummary q)"

definition client_GetConnectionStatus :: "ConnQueue option \<Rightarrow> string" where
  "client_GetConnectionStatus q =
     (case q of None \<Rightarrow> ''Connection pool not initialized'' | Some q \<Rightarrow> GetConnectionStatus q)"

definition client_GetConnectionDetails :: "(nat \<Rightarrow> connectivity) \<Rightarrow> ConnQueue option \<Rightarrow> ConnectionDetail list" where
  "client_GetConnectionDetails state q =
     (case q of
        None \<Rightarrow> []
      | Some q \<Rightarrow> q_GetConnectionDetails state q)"

definition handleStats :: "stats \<Rightarrow> (nat \<Rightarrow> connectivity) \<Rightarrow> ConnQueue option \<Rightarrow> mgmt_request \<Rightarrow> nat \<times> mgmt_body" where
  "handleStats st state q r =
     (if mr_Method r \<noteq> ''GET'' then (405, NoBody)
      else let (total, active, load) = client_GetConnectionSummary q in
        (200, StatsBody \<lparr>TxTotalBytes = tx st, RxTotalBytes = rx st, PoolTotal = total, PoolActive = active,
           PoolLoad = load, Connections = client_GetConnectionDetails state q\<rparr>))"

definition handleHealth :: "mgmt_request \<Rightarrow> nat \<times> mgmt_body" where
  "handleHealth r = (if mr_Method r \<noteq> ''GET'' then (405, NoBody) else (200, HealthBody))"

text \<open>The multiplexer on a clean path; \<open>http.ServeMux\<close> redirects any other path first.\<close>

definition mgmt_mux :: "stats \<Rightarrow> (nat \<Rightarrow> connectivity) \<Rightarrow> ConnQueue option \<Rightarrow> mgmt_request \<Rightarrow> nat \<times> mgmt_body" where
  "mgmt_mux st state q r =
     (if mr_Path r = ''/api/stats'' then handleStats st state q r
      else if mr_Path r = ''/api/health'' then handleHealth r else (404, NoBody))"

definition loopbackGuard :: "unicode \<Rightarrow> (mgmt_request \<Rightarrow> nat \<times> mgmt_body) \<Rightarrow> mgmt_request \<Rightarrow> nat \<times> mgmt_body" where
  "loopbackGuard u next_handler r =
     (if \<not> ipIsLoopback (mr_RemoteAddr r) then (403, NoBody)
      else if \<not> hostHeaderAllowed u (mr_Host r) then (403, NoBody)
      else next_handler r)"

definition mgmt_handler ::
  "unicode \<Rightarrow> stats \<Rightarrow> (nat \<Rightarrow> connectivity) \<Rightarrow> ConnQueue option \<Rightarrow> mgmt_request \<Rightarrow> nat \<times> mgmt_body" where
  "mgmt_handler u st state q = loopbackGuard u (mgmt_mux st state q)"

text \<open>
  \<open>Start\<close> and \<open>serve\<close>: the addresses they open a listener on and the error they return; listening
  and serving are arguments.
\<close>

definition mgmt_serve :: "goerror option \<Rightarrow> goerror option" where
  "mgmt_serve served =
     (case served of
        None \<Rightarrow> None
      | Some e \<Rightarrow> if errors_Is e ErrServerClosed then None else Some (Wrap ''management server error'' e))"

definition mgmt_Start ::
  "string \<Rightarrow> (string \<Rightarrow> goerror option) \<Rightarrow> goerror option \<Rightarrow> string list \<times> goerror option" where
  "mgmt_Start addr listen served =
     (if \<not> ipIsLoopback addr then ([], Some (Errorf ''management server must be bound to a loopback address''))
      else case listen addr of
          Some e \<Rightarrow> ([], Some (Wrap ''management server listen'' e))
        | None \<Rightarrow> ([addr], mgmt_serve served))"

section \<open>Textual addresses\<close>

lemma strings_Split_no_sep: "c \<notin> set s \<Longrightarrow> strings_Split s c = [s]"
  by (induction s) auto

lemma strings_Split_append: "c \<notin> set a \<Longrightarrow> strings_Split (a @ c # b) c = a # strings_Split b c"
  by (induction a) auto

lemma hd_Itoa_zero: "0 < n \<Longrightarrow> hd (Itoa n) \<noteq> CHR ''0''"
proof (induction n rule: Itoa.induct)
  case (1 n)
  show ?case
  proof (cases "n < 10")
    case True
    then have "(of_char (digit_char n) :: nat) \<noteq> of_char (CHR ''0'')" using "1.prems" by simp
    then have "digit_char n \<noteq> CHR ''0''" by metis
    with True show ?thesis by (simp add: Itoa.simps [of n])
  next
    case False
    then show ?thesis using 1 by (simp add: Itoa.simps [of n] hd_append)
  qed
qed

lemma ipv4_field_Itoa: "ipv4_field (Itoa (unat (b :: byte))) = Some b"
proof -
  have le: "unat b \<le> 255" using unat_byte_lt [of b] by linarith
  have "hd (Itoa (unat b)) = CHR ''0'' \<longrightarrow> length (Itoa (unat b)) = 1"
    using hd_Itoa_zero [of "unat b"] by (cases "unat b = 0") (auto simp: Itoa.simps [of 0])
  with le show ?thesis using Itoa_digits [of "unat b"] by (simp add: ipv4_field_def)
qed

lemma parse_show_ipv4: "parseIPv4Fields (show_ipv4 [a, b, c, d]) = Some [a, b, c, d]"
proof -
  have "strings_Split (show_ipv4 [a, b, c, d]) (CHR ''.'') = map (\<lambda>x. Itoa (unat x)) [a, b, c, d]"
    by (simp add: show_ipv4_def strings_Split_append strings_Split_no_sep)
  then show ?thesis by (simp add: parseIPv4Fields_def ipv4_field_Itoa)
qed

lemma find_dot: "list_all is_digit s \<Longrightarrow>
  find (\<lambda>c. c = CHR ''.'' \<or> c = CHR '':'' \<or> c = CHR ''%'') (s @ CHR ''.'' # t) = Some (CHR ''.'')"
  using digit_not_special by (induction s) auto

lemma ParseIP_show_ipv4: "net_ParseIP (show_ipv4 [a, b, c, d]) = Some (v4InV6Prefix @ [a, b, c, d])"
proof -
  have "find (\<lambda>c. c = CHR ''.'' \<or> c = CHR '':'' \<or> c = CHR ''%'') (show_ipv4 [a, b, c, d]) = Some (CHR ''.'')"
    using find_dot [OF Itoa_digits] by (simp add: show_ipv4_def)
  then show ?thesis by (simp add: net_ParseIP_def netip_ParseAddr_def parse_show_ipv4)
qed

lemma show_ipv4_plain: "CHR '':'' \<notin> set (show_ipv4 [a, b, c, d])" "no_brackets (show_ipv4 [a, b, c, d])"
  by (simp_all add: show_ipv4_def)

text \<open>
  What a loopback address is, independently of the code: \<open>127.b.c.d\<close> in its 16-byte
  form, or \<open>::1\<close>; and a host that is the text of one.
\<close>

definition loopback_ip :: "net_IP \<Rightarrow> bool" where
  "loopback_ip ip \<longleftrightarrow> (\<exists>b c d. ip = v4InV6Prefix @ [127, b, c, d]) \<or> ip = replicate 15 0 @ [1]"

definition loopback_literal :: "string \<Rightarrow> bool" where
  "loopback_literal h \<longleftrightarrow> (\<exists>ip. net_ParseIP h = Some ip \<and> loopback_ip ip)"

lemma v4_not_v6_loopback [simp]: "v4InV6Prefix @ v \<noteq> replicate 15 0 @ [1]"
proof
  assume "v4InV6Prefix @ v = replicate 15 0 @ [1]"
  then have "(v4InV6Prefix @ v) ! 10 = (replicate 15 0 @ [1]) ! 10" by simp
  then show False by (simp add: v4InV6Prefix_def nth_append)
qed

lemma IP_IsLoopback_iff:
  assumes "length ip = 16"
  shows "IP_IsLoopback ip \<longleftrightarrow> loopback_ip ip"
proof (cases "take 12 ip = v4InV6Prefix")
  case True
  obtain a b c d where d: "drop 12 ip = [a, b, c, d]"
    using assms by (auto simp: numeral_eq_Suc length_Suc_conv)
  with True have ip: "ip = v4InV6Prefix @ [a, b, c, d]" using append_take_drop_id [of 12 ip] by simp
  then show ?thesis by (simp add: ip IP_IsLoopback_def IP_To4_def loopback_ip_def)
next
  case False
  then have "IP_To4 ip = None" using assms by (simp add: IP_To4_def)
  with False show ?thesis using assms
    by (auto simp: IP_IsLoopback_def IP_Equal_def IPv6loopback_def loopback_ip_def)
qed

lemma ipIsLoopback_iff: "ipIsLoopback hostport \<longleftrightarrow> loopback_literal (host_part hostport)"
  using net_ParseIP_length IP_IsLoopback_iff
  by (auto simp: ipIsLoopback_def loopback_literal_def split: option.split)

lemma hostHeaderAllowed_iff:
  "hostHeaderAllowed u host \<longleftrightarrow>
     strings_EqualFold u (host_part host) ''localhost'' \<or> loopback_literal (host_part host)"
  using net_ParseIP_length IP_IsLoopback_iff
  by (auto simp: hostHeaderAllowed_def loopback_literal_def Let_def split: option.split)

lemma no_brackets_Itoa: "no_brackets (Itoa n)" "CHR '':'' \<notin> set (Itoa n)"
  using Itoa_digits [of n] by (auto simp: list_all_iff dest!: bspec)

lemma host_part_join: "no_brackets h \<Longrightarrow> host_part (net_JoinHostPort h (Itoa port)) = h"
  using split_join_host_port [of h "Itoa port"] no_brackets_Itoa [of port] by (simp add: host_part_def)

lemma loopback_literal_ipv4: "loopback_literal (show_ipv4 [a, b, c, d]) \<longleftrightarrow> a = 127"
  by (auto simp: loopback_literal_def ParseIP_show_ipv4 loopback_ip_def)

section \<open>Properties\<close>

text \<open>
  C37: The management API serves loopback only. A request that arrives from the peer \<open>h:port\<close>,
  \<open>h\<close> any text without brackets, an IPv4 or IPv6 address or not, is refused with 403 unless
  \<open>h\<close> is a loopback literal (for a dotted quad: begins with 127) and its \<open>Host\<close> is \<open>localhost\<close>
  or a loopback literal, so a page that rebinds its own name to 127.0.0.1 is refused; whatever
  passes is answered 200 only for \<open>GET\<close> on one of the two endpoints, and the statistics are the
  traffic counters and the state of the pool. \<open>Start\<close> listens on the address it is given and on
  no other, only if its host is a loopback literal, and otherwise returns an error whatever
  listening would have done.
\<close>

theorem management_loopback_only:
  assumes "mr_RemoteAddr r = net_JoinHostPort h (Itoa port)" and "no_brackets h"
    and "mgmt_handler u st state q r = (status, body)"
  shows "(status = 403 \<longleftrightarrow> \<not> loopback_literal h \<or>
       \<not> (strings_EqualFold u (host_part (mr_Host r)) ''localhost'' \<or>
          loopback_literal (host_part (mr_Host r)))) \<and>
    (\<forall>a b c d. h = show_ipv4 [a, b, c, d] \<longrightarrow> (loopback_literal h \<longleftrightarrow> a = 127)) \<and>
    (status = 200 \<longleftrightarrow> body \<noteq> NoBody) \<and>
    (body \<noteq> NoBody \<longrightarrow> mr_Method r = ''GET'' \<and> mr_Path r \<in> {''/api/stats'', ''/api/health''}) \<and>
    (\<forall>resp. body = StatsBody resp \<longrightarrow> TxTotalBytes resp = tx st \<and> RxTotalBytes resp = rx st \<and>
       PoolTotal resp = fst (client_GetConnectionSummary q) \<and>
       Connections resp = client_GetConnectionDetails state q) \<and>
    (\<forall>l \<in> set (fst (mgmt_Start addr listen served)).
       l = addr \<and> loopback_literal (host_part l) \<and> listen l = None) \<and>
    (\<not> loopback_literal (host_part addr) \<longrightarrow> snd (mgmt_Start addr listen served) \<noteq> None)"
proof -
  have guard: "ipIsLoopback (mr_RemoteAddr r) \<longleftrightarrow> loopback_literal h"
    using host_part_join [OF assms(2)] by (simp add: ipIsLoopback_iff assms(1))
  have start: "(\<forall>l \<in> set (fst (mgmt_Start addr listen served)).
       l = addr \<and> loopback_literal (host_part l) \<and> listen l = None) \<and>
     (\<not> loopback_literal (host_part addr) \<longrightarrow> snd (mgmt_Start addr listen served) \<noteq> None)"
    by (auto simp: mgmt_Start_def ipIsLoopback_iff split: option.split)
  show ?thesis
    using assms(3) guard start loopback_literal_ipv4
    by (auto simp: mgmt_handler_def loopbackGuard_def mgmt_mux_def handleStats_def handleHealth_def
        hostHeaderAllowed_iff split: if_splits prod.splits)
qed

theorem management_loopback_only_witness:
  "fst (mgmt_handler plain_unicode \<lparr>tx = 3, rx = 4\<rparr> (\<lambda>_. Ready) None
     \<lparr>mr_RemoteAddr = ''127.0.0.1:40'', mr_Host = ''evil.example:80'', mr_Method = ''GET'', mr_Path = ''/api/stats''\<rparr>) = 403"
proof -
  let ?r = "\<lparr>mr_RemoteAddr = ''127.0.0.1:40'', mr_Host = ''evil.example:80'', mr_Method = ''GET'', mr_Path = ''/api/stats''\<rparr>"
  have r: "mr_RemoteAddr ?r = net_JoinHostPort ''127.0.0.1'' (Itoa 40)" by code_simp
  have b: "no_brackets ''127.0.0.1''" by simp
  have h: "\<not> hostHeaderAllowed plain_unicode (mr_Host ?r)" by code_simp
  obtain s b where run: "mgmt_handler plain_unicode \<lparr>tx = 3, rx = 4\<rparr> (\<lambda>_. Ready) None ?r = (s, b)"
    by (cases "mgmt_handler plain_unicode \<lparr>tx = 3, rx = 4\<rparr> (\<lambda>_. Ready) None ?r")
  show ?thesis using management_loopback_only [OF r b run] h run by (simp add: hostHeaderAllowed_iff)
qed

end
