(* ===== verification/RpcTunnel.thy ===== *)
theory RpcTunnel
  imports TransportBase GoNet
begin

text \<open>
  The tunnel between client and server over one gRPC stream:
  \<open>internal/transport/rpc/client/{forwarder,packet_conn,handshake}.go\<close> and
  \<open>rpc/server/forwarder.go\<close>. A gRPC stream delivers the sent messages in order; the copy
  loops are functions of the results of the reads and sends they make. The messages are
  those of \<open>proxy.proto\<close>.
\<close>

section \<open>Messages\<close>

datatype Network = TCP | UDP

datatype ProxySRC = SrcHeader string Network | SrcPayload bytes | SrcEmpty

datatype ProxyStatus = Session | StError | Accepted | StEOF | Unknown nat

datatype dst_body = DstHeader string | DstPayload bytes | DstEmpty

record ProxyDST =
  Status :: ProxyStatus
  Body :: dst_body

section \<open>Server: choosing the target\<close>

definition splitLegacyScheme :: "string \<Rightarrow> (string \<times> string) option" where
  "splitLegacyScheme raw =
     (if strings_HasPrefix raw ''udp://'' then Some (''udp'', strings_TrimPrefix raw ''udp://'')
      else if strings_HasPrefix raw ''tcp://'' then Some (''tcp'', strings_TrimPrefix raw ''tcp://'')
      else None)"

definition resolveTarget :: "transport_settings \<Rightarrow> string \<Rightarrow> Network \<Rightarrow> string \<times> string" where
  "resolveTarget ts addr net =
     (case splitLegacyScheme addr of
        Some (n, a) \<Rightarrow> (DialNetwork ts n, a)
      | None \<Rightarrow>
          (case net of
             UDP \<Rightarrow> (DialNetwork ts ''udp'', addr)
           | TCP \<Rightarrow> (DialNetwork ts (network_opt ts), addr)))"

definition isUDPNetwork :: "string \<Rightarrow> bool" where
  "isUDPNetwork network \<longleftrightarrow> network = ''udp'' \<or> network = ''udp4'' \<or> network = ''udp6''"

text \<open>
  \<open>handshake\<close>: the first message of the stream, the routing decision for its host and the
  result of dialing. The value is the network and the address dialed; the messages are those
  sent back to the client.
\<close>

definition server_handshake :: "transport_settings \<Rightarrow> ProxySRC result \<Rightarrow> (string \<Rightarrow> 'r result)
    \<Rightarrow> ('r \<Rightarrow> string \<Rightarrow> string \<Rightarrow> goerror option) \<Rightarrow> (string \<times> string) result \<times> ProxyDST list" where
  "server_handshake ts first getRoute dial =
     (case first of
        Inl e \<Rightarrow> (Inl e, [])
      | Inr (SrcHeader a net) \<Rightarrow>
          (let (network, addr) = resolveTarget ts a net in
           case net_SplitHostPort addr of
             Inl e \<Rightarrow> (Inl (Wrap ''invalid address'' e), [])
           | Inr (host, _) \<Rightarrow>
               (case getRoute host of
                  Inl e \<Rightarrow> (Inl (Wrap ''route'' e), [])
                | Inr route \<Rightarrow>
                    (case dial route network addr of
                       Some e \<Rightarrow> (Inl (Wrap ''dial'' e), [\<lparr>Status = StError, Body = DstEmpty\<rparr>])
                     | None \<Rightarrow> (Inr (network, addr), []))))
      | Inr _ \<Rightarrow> (Inl (Sentinel ErrInvalidMessage), []))"

section \<open>Server: copying\<close>

text \<open>One message of the client: what is written to the target, or the error that ends the loop.\<close>

definition copyClientToTarget :: "string \<Rightarrow> ProxySRC \<Rightarrow> unit io" where
  "copyClientToTarget network m =
     (case m of
        SrcPayload p \<Rightarrow>
          if p = [] then (if isUDPNetwork network then Write p else io_fail (Sentinel EOF))
          else io_map_err (\<lambda>_. Sentinel ErrShortWrite) (Write p)
      | _ \<Rightarrow> io_fail (Sentinel ErrInvalidMessage))"

text \<open>The receive loop over the messages that arrive; \<open>Inr\<close> when it waits for more.\<close>

fun client_to_target :: "string \<Rightarrow> ProxySRC list \<Rightarrow> unit io" where
  "client_to_target network [] = io_return ()"
| "client_to_target network (m # ms) = io_bind (copyClientToTarget network m) (\<lambda>_. client_to_target network ms)"

text \<open>A read from a connection: the bytes it delivered and the error it returned with them.\<close>

type_synonym read_result = "bytes \<times> goerror option"

text \<open>
  One iteration of the loop that copies from the target: the message sent, if any, and the
  error that ends the loop. \<open>sendErr\<close> is what \<open>Stream.Send\<close> returns.
\<close>

definition copyTargetToClient :: "string \<Rightarrow> goerror option \<Rightarrow> read_result \<Rightarrow> ProxyDST list \<times> goerror option" where
  "copyTargetToClient network sendErr r =
     (let (b, err) = r in
      if b \<noteq> [] \<or> (err = None \<and> isUDPNetwork network) then
        (case sendErr of
           Some e \<Rightarrow> ([], Some e)
         | None \<Rightarrow> ([\<lparr>Status = Session, Body = DstPayload b\<rparr>], err))
      else ([], err))"

fun target_to_client :: "string \<Rightarrow> (read_result \<times> goerror option) list \<Rightarrow> ProxyDST list \<times> goerror option" where
  "target_to_client network [] = ([], None)"
| "target_to_client network ((r, sendErr) # rest) =
     (case copyTargetToClient network sendErr r of
        (ms, Some e) \<Rightarrow> (ms, Some e)
      | (ms, None) \<Rightarrow> (case target_to_client network rest of (ms', e) \<Rightarrow> (ms @ ms', e)))"

text \<open>\<open>CopyTargetToClient\<close> announces the local address first.\<close>

definition accept_message :: "string \<Rightarrow> ProxyDST" where
  "accept_message local = \<lparr>Status = Accepted, Body = DstHeader local\<rparr>"

section \<open>Client: copying a TCP session\<close>

definition copySRCtoTarget :: "read_result \<Rightarrow> goerror option \<Rightarrow> ProxySRC list \<times> goerror option" where
  "copySRCtoTarget r sendErr =
     (let (b, err) = r in
      case err of
        Some e \<Rightarrow> ([], Some e)
      | None \<Rightarrow>
          if b = [] then ([], Some (Sentinel ErrInvalidPayload))
          else case sendErr of
              Some e \<Rightarrow> ([], Some e)
            | None \<Rightarrow> ([SrcPayload b], None))"

fun src_to_target :: "(read_result \<times> goerror option) list \<Rightarrow> ProxySRC list \<times> goerror option" where
  "src_to_target [] = ([], None)"
| "src_to_target ((r, sendErr) # rest) =
     (case copySRCtoTarget r sendErr of
        (ms, Some e) \<Rightarrow> (ms, Some e)
      | (ms, None) \<Rightarrow> (case src_to_target rest of (ms', e) \<Rightarrow> (ms @ ms', e)))"

text \<open>
  \<open>copyTargetToSRC\<close> for one message: it writes a payload to the local connection, passes an
  announced address on (\<open>fw_local\<close>), or ends the loop.
\<close>

record forwarder =
  fw_local :: "string list" \<comment> \<open>sent on \<open>localAddr\<close>\<close>
  fw_rejected :: bool \<comment> \<open>\<open>localAddr\<close> closed\<close>
  fw_stats :: stats \<comment> \<open>\<open>Statistic\<close> of the session\<close>
  fw_global :: stats \<comment> \<open>\<open>transport.GlobalStats\<close>\<close>

text \<open>A counted transfer: the session's own counters skip a zero, and nothing is counted for \<open>n \<le> 0\<close>.\<close>

definition Statistic_AddTx :: "u64 \<Rightarrow> stats \<Rightarrow> stats" where
  "Statistic_AddTx delta st = (if delta > 0 then st\<lparr>tx := tx st + delta\<rparr> else st)"

definition Statistic_AddRx :: "u64 \<Rightarrow> stats \<Rightarrow> stats" where
  "Statistic_AddRx delta st = (if delta > 0 then st\<lparr>rx := rx st + delta\<rparr> else st)"

definition addTx :: "int \<Rightarrow> forwarder \<Rightarrow> forwarder" where
  "addTx n f =
     (if n \<le> 0 then f
      else f\<lparr>fw_stats := Statistic_AddTx (word_of_int n) (fw_stats f), fw_global := AddTx (word_of_int n) (fw_global f)\<rparr>)"

definition addRx :: "int \<Rightarrow> forwarder \<Rightarrow> forwarder" where
  "addRx n f =
     (if n \<le> 0 then f
      else f\<lparr>fw_stats := Statistic_AddRx (word_of_int n) (fw_stats f), fw_global := AddRx (word_of_int n) (fw_global f)\<rparr>)"

lemma add_other [simp]: "fw_local (addTx n f) = fw_local f" "fw_local (addRx n f) = fw_local f"
  "fw_rejected (addTx n f) = fw_rejected f" "fw_rejected (addRx n f) = fw_rejected f"
  by (simp_all add: addTx_def addRx_def)

lemma add_counts [simp]:
  "tx (fw_stats (addTx (int n) f)) = tx (fw_stats f) + of_nat n" "rx (fw_stats (addTx (int n) f)) = rx (fw_stats f)"
  "rx (fw_stats (addRx (int n) f)) = rx (fw_stats f) + of_nat n" "tx (fw_stats (addRx (int n) f)) = tx (fw_stats f)"
  "tx (fw_global (addTx (int n) f)) = tx (fw_global f) + of_nat n" "rx (fw_global (addTx (int n) f)) = rx (fw_global f)"
  "rx (fw_global (addRx (int n) f)) = rx (fw_global f) + of_nat n" "tx (fw_global (addRx (int n) f)) = tx (fw_global f)"
  by (auto simp: addTx_def addRx_def Statistic_AddTx_def Statistic_AddRx_def AddTx_def AddRx_def word_gt_0)

definition copyTargetToSRC :: "ProxyDST \<Rightarrow> forwarder \<Rightarrow> conn \<Rightarrow> unit result \<times> forwarder \<times> conn" where
  "copyTargetToSRC m f c =
     (case Status m of
        Session \<Rightarrow>
          (case Body m of
             DstPayload p \<Rightarrow>
               if p = [] then (Inl (Sentinel ErrInvalidPayload), f, c)
               else (case Write p c of
                       (Inl e, c') \<Rightarrow> (Inl e, f, c')
                     | (Inr _, c') \<Rightarrow> (Inr (), addRx (int (length p)) f, c'))
           | _ \<Rightarrow> (Inl (Sentinel ErrInvalidMessage), f, c))
      | Accepted \<Rightarrow>
          (case Body m of
             DstHeader a \<Rightarrow> (Inr (), f\<lparr>fw_local := fw_local f @ [a]\<rparr>, c)
           | _ \<Rightarrow> (Inl (Sentinel ErrInvalidMessage), f, c))
      | StEOF \<Rightarrow> (Inl (Sentinel EOF), f, c)
      | StError \<Rightarrow> (Inl (Sentinel ErrServerError), f\<lparr>fw_rejected := True\<rparr>, c)
      | Unknown n \<Rightarrow> (Inl (Errorf ''unknown status''), f, c))"

fun target_to_src :: "ProxyDST list \<Rightarrow> forwarder \<Rightarrow> conn \<Rightarrow> unit result \<times> forwarder \<times> conn" where
  "target_to_src [] f c = (Inr (), f, c)"
| "target_to_src (m # ms) f c =
     (case copyTargetToSRC m f c of
        (Inl e, f', c') \<Rightarrow> (Inl e, f', c')
      | (Inr _, f', c') \<Rightarrow> target_to_src ms f' c')"

section \<open>Client: a packet connection over a stream\<close>

text \<open>What \<open>ReadFrom\<close> takes from the receive channel: a message, an error, or its closing.\<close>

datatype recv_event = Received ProxyDST | RecvErr goerror | ChanClosed | CtxDone | DeadlineFired

text \<open>\<open>ReadFrom\<close> with a buffer of \<open>n\<close> bytes; the events not consumed are returned.\<close>

fun ReadFrom :: "nat \<Rightarrow> recv_event list \<Rightarrow> ((bytes \<times> goerror option) result \<times> recv_event list) option" where
  "ReadFrom n [] = None"
| "ReadFrom n (CtxDone # es) = Some (Inl (Sentinel NetErrClosed), es)"
| "ReadFrom n (DeadlineFired # es) = Some (Inl (Sentinel ErrDeadlineExceeded), es)"
| "ReadFrom n (ChanClosed # es) = Some (Inl (Sentinel NetErrClosed), es)"
| "ReadFrom n (RecvErr e # es) =
     Some (Inl (if errors_Is e EOF \<or> errors_Is e Canceled then Sentinel NetErrClosed else e), es)"
| "ReadFrom n (Received m # es) =
     (case Status m of
        Accepted \<Rightarrow> ReadFrom n es
      | Session \<Rightarrow>
          (let payload = (case Body m of DstPayload p \<Rightarrow> p | _ \<Rightarrow> []) in
           if payload = [] then Some (Inr ([], None), es)
           else Some (Inr (take n payload, if n < length payload then Some (Sentinel ErrShortBuffer) else None), es))
      | StEOF \<Rightarrow> Some (Inl (Sentinel NetErrClosed), es)
      | _ \<Rightarrow> Some (Inl (Errorf ''remote proxy returned error status''), es))"

text \<open>
  \<open>WriteTo\<close>: the two \<open>select\<close> statements with what is ready at each. The message reaches the
  stream only when \<open>Send\<close> succeeded.
\<close>

datatype send_outcome = SendOk | SendErr goerror bool bool \<comment> \<open>error; deadline fired; context ended\<close>
  | CtxDuringSend | DeadlineDuringSend

definition WriteTo :: "bool \<Rightarrow> bool \<Rightarrow> send_outcome \<Rightarrow> bytes \<Rightarrow> nat result \<times> ProxySRC list" where
  "WriteTo ctxDone deadlineFired out p =
     (if ctxDone then (Inl (Sentinel NetErrClosed), [])
      else if deadlineFired then (Inl (Sentinel ErrDeadlineExceeded), [])
      else case out of
          SendOk \<Rightarrow> (Inr (length p), [SrcPayload p])
        | SendErr e dl ctx \<Rightarrow>
            (Inl (if dl then Sentinel ErrDeadlineExceeded
                  else if ctx \<or> errors_Is e Canceled then Sentinel NetErrClosed else e), [])
        | CtxDuringSend \<Rightarrow> (Inl (Sentinel NetErrClosed), [])
        | DeadlineDuringSend \<Rightarrow> (Inl (Sentinel ErrDeadlineExceeded), []))"

text \<open>The peer address a packet connection reports (\<open>NewStreamPacketConn\<close>).\<close>

definition packet_peer :: "(string \<Rightarrow> int option) \<Rightarrow> string \<Rightarrow> net_Addr" where
  "packet_peer lookupPort targetAddr =
     (case net_SplitHostPort targetAddr of
        Inl _ \<Rightarrow> NamedAddr targetAddr
      | Inr (host, port) \<Rightarrow>
          (case net_ParseIP host of
             None \<Rightarrow> NamedAddr targetAddr
           | Some ip \<Rightarrow> UDPAddr \<lparr>ua_IP = ip, ua_Port = (case lookupPort port of None \<Rightarrow> 0 | Some p \<Rightarrow> p), ua_Zone = []\<rparr>))"

section \<open>Client: deadlines (pipeDeadline)\<close>

text \<open>
  The timer is absent, armed for a time, firing (its callback has started and has not closed
  the channel yet), or expired. Channels are numbered; a closed channel stays closed.
\<close>

datatype timer_state = NoTimer | Armed int | Firing | Expired

record pipeDeadline =
  dl_timer :: timer_state
  dl_chan :: nat
  dl_closed :: "nat set"
  dl_next :: nat

definition makePipeDeadline :: pipeDeadline where
  "makePipeDeadline = \<lparr>dl_timer = NoTimer, dl_chan = 0, dl_closed = {}, dl_next = 1\<rparr>"

definition fresh_chan :: "pipeDeadline \<Rightarrow> pipeDeadline" where
  "fresh_chan d = d\<lparr>dl_chan := dl_next d, dl_next := dl_next d + 1\<rparr>"

definition dl_isclosed :: "pipeDeadline \<Rightarrow> bool" where
  "dl_isclosed d \<longleftrightarrow> dl_chan d \<in> dl_closed d"

text \<open>
  \<open>set\<close>: \<open>t\<close> is \<open>None\<close> for the zero time. It waits while the timer fires, so it has no result
  in that state; closing a closed channel would panic, which is \<open>None\<close> as well.
\<close>

definition deadline_set :: "int option \<Rightarrow> int \<Rightarrow> pipeDeadline \<Rightarrow> pipeDeadline option" where
  "deadline_set t now d0 =
     (if dl_timer d0 = Firing then None
      else let d = d0\<lparr>dl_timer := NoTimer\<rparr>; closed = dl_isclosed d in
        case t of
          None \<Rightarrow> Some (if closed then fresh_chan d else d)
        | Some t \<Rightarrow>
            if now < t then Some ((if closed then fresh_chan d else d)\<lparr>dl_timer := Armed t\<rparr>)
            else Some (if closed then d else d\<lparr>dl_closed := insert (dl_chan d) (dl_closed d)\<rparr>))"

text \<open>The timer's callback: \<open>close(d.cancel)\<close>, which panics on a closed channel.\<close>

definition deadline_callback :: "pipeDeadline \<Rightarrow> pipeDeadline option" where
  "deadline_callback d =
     (if dl_isclosed d then None
      else Some (d\<lparr>dl_timer := Expired, dl_closed := insert (dl_chan d) (dl_closed d)\<rparr>))"

inductive deadline_step :: "pipeDeadline \<Rightarrow> pipeDeadline \<Rightarrow> bool" where
  Set_deadline: "deadline_set t now d = Some d' \<Longrightarrow> deadline_step d d'"
| Timer_fires: "dl_timer d = Armed t \<Longrightarrow> deadline_step d (d\<lparr>dl_timer := Firing\<rparr>)"
| Callback: "dl_timer d = Firing \<Longrightarrow> deadline_callback d = Some d' \<Longrightarrow> deadline_step d d'"

inductive deadline_reachable :: "pipeDeadline \<Rightarrow> bool" where
  Deadline_init: "deadline_reachable makePipeDeadline"
| Deadline_step: "deadline_reachable d \<Longrightarrow> deadline_step d d' \<Longrightarrow> deadline_reachable d'"

section \<open>Client: the handshake (handshake.go)\<close>

text \<open>\<open>sendHandshake\<close>: either \<open>Send\<close> ends first, or the timer, which cancels the stream.\<close>

definition sendHandshake :: "goerror option option \<Rightarrow> unit result \<times> bool" where
  "sendHandshake sent =
     (case sent of
        Some None \<Rightarrow> (Inr (), False)
      | Some (Some e) \<Rightarrow> (Inl e, False)
      | None \<Rightarrow> (Inl (Wrap ''handshake timed out'' (Sentinel ErrDeadlineExceeded)), True))"

section \<open>Lemmas\<close>

lemma client_to_target_payloads:
  assumes "wfail c = (\<lambda>_. None)" and "isUDPNetwork network \<or> [] \<notin> set ps"
  shows "\<exists>c'. client_to_target network (map SrcPayload ps) c = (Inr (), c') \<and> outs c' = outs c @ ps \<and>
    wfail c' = (\<lambda>_. None)"
  using assms
proof (induction ps arbitrary: c)
  case (Cons p ps)
  let ?c = "c\<lparr>outs := outs c @ [p], wcount := Suc (wcount c)\<rparr>"
  have "copyClientToTarget network (SrcPayload p) c = (Inr (), ?c)"
    using Cons.prems by (auto simp: copyClientToTarget_def Write_def io_map_err_def)
  moreover obtain c' where "client_to_target network (map SrcPayload ps) ?c = (Inr (), c')"
    "outs c' = outs ?c @ ps" "wfail c' = (\<lambda>_. None)" using Cons.IH [of ?c] Cons.prems by auto
  ultimately show ?case by (simp add: io_bind_def)
qed (simp add: io_return_def)

text \<open>The part of a source that the client forwards: chunks read without an error.\<close>

definition forwardable :: "read_result \<times> goerror option \<Rightarrow> bool" where
  "forwardable x \<longleftrightarrow> snd (fst x) = None \<and> fst (fst x) \<noteq> [] \<and> snd x = None"

lemma src_to_target_sent:
  "fst (src_to_target reads) = map SrcPayload (map (\<lambda>x. fst (fst x)) (takeWhile forwardable reads))"
proof (induction reads)
  case (Cons x reads)
  obtain b err se where x: "x = ((b, err), se)" by (metis prod.collapse)
  show ?case using Cons unfolding x
    by (cases err; cases se) (auto simp: copySRCtoTarget_def forwardable_def split: prod.splits)
qed simp

text \<open>
  The chunks of a target that the server sends: up to the first error, a chunk that comes with
  it included, or up to the first failing send; empty reads send nothing.
\<close>

fun sent_chunks :: "(read_result \<times> goerror option) list \<Rightarrow> bytes list" where
  "sent_chunks [] = []"
| "sent_chunks (((b, err), sendErr) # rs) =
     (if b = [] then (if err = None then sent_chunks rs else [])
      else if sendErr \<noteq> None then []
      else b # (if err = None then sent_chunks rs else []))"

lemma target_to_client_sent:
  assumes "\<not> isUDPNetwork network"
  shows "fst (target_to_client network rs) = map (\<lambda>b. \<lparr>Status = Session, Body = DstPayload b\<rparr>) (sent_chunks rs)"
  using assms
  by (induction rs rule: sent_chunks.induct)
    (auto simp: copyTargetToClient_def split: prod.splits option.splits)

lemma sent_chunks_nonempty: "[] \<notin> set (sent_chunks rs)"
  by (induction rs rule: sent_chunks.induct) auto

text \<open>
  Writing \<open>ps\<close> to a connection that may fail: the first \<open>n\<close> were accepted, in order, and \<open>n\<close> is
  all of them unless the next write failed.
\<close>

definition delivered :: "conn \<Rightarrow> conn \<Rightarrow> bytes list \<Rightarrow> nat \<Rightarrow> unit result \<Rightarrow> bool" where
  "delivered c c' ps n r \<longleftrightarrow>
     n \<le> length ps \<and> outs c' = outs c @ take n ps \<and> (\<forall>i < n. wfail c (wcount c + i) = None) \<and>
     (if n = length ps then r = Inr () else wfail c (wcount c + n) \<noteq> None \<and> (\<exists>e. r = Inl e))"

lemma delivered_Cons:
  assumes "wfail c (wcount c) = None" and "delivered (c\<lparr>outs := outs c @ [p], wcount := Suc (wcount c)\<rparr>) c' ps n r"
  shows "delivered c c' (p # ps) (Suc n) r"
proof -
  have "wfail c (wcount c + i) = None" if "i < Suc n" for i
    using assms that by (cases i) (auto simp: delivered_def)
  then show ?thesis using assms(2) by (auto simp: delivered_def split: if_splits)
qed

lemma delivered_fail:
  "wfail c (wcount c) = Some e \<Longrightarrow> delivered c (c\<lparr>wcount := Suc (wcount c)\<rparr>) (p # ps) 0 (Inl e')"
  by (simp add: delivered_def)

lemma client_to_target_delivers:
  assumes "[] \<notin> set ps"
  shows "\<exists>r c' n. client_to_target network (map SrcPayload ps) c = (r, c') \<and> delivered c c' ps n r"
  using assms
proof (induction ps arbitrary: c)
  case Nil
  show ?case by (simp add: delivered_def io_return_def)
next
  case (Cons p ps)
  show ?case
  proof (cases "wfail c (wcount c)")
    case None
    let ?c = "c\<lparr>outs := outs c @ [p], wcount := Suc (wcount c)\<rparr>"
    obtain r c' n where "client_to_target network (map SrcPayload ps) ?c = (r, c')" "delivered ?c c' ps n r"
      using Cons.IH [of ?c] Cons.prems by (metis list.set_intros(2))
    moreover have "copyClientToTarget network (SrcPayload p) c = (Inr (), ?c)"
      using Cons.prems None by (auto simp: copyClientToTarget_def Write_def io_map_err_def)
    ultimately show ?thesis using delivered_Cons [OF None, of p c' ps n r]
      by (intro exI [of _ r] exI [of _ c'] exI [of _ "Suc n"]) (simp add: io_bind_def)
  next
    case (Some e)
    then have "copyClientToTarget network (SrcPayload p) c = (Inl (Sentinel ErrShortWrite), c\<lparr>wcount := Suc (wcount c)\<rparr>)"
      using Cons.prems by (auto simp: copyClientToTarget_def Write_def io_map_err_def)
    then show ?thesis using delivered_fail [OF Some] by (auto simp: io_bind_def)
  qed
qed

lemma target_to_src_delivers:
  assumes "[] \<notin> set ps"
  shows "\<exists>r f' c' n. target_to_src (map (\<lambda>b. \<lparr>Status = Session, Body = DstPayload b\<rparr>) ps) f c = (r, f', c') \<and>
    delivered c c' ps n r \<and> fw_local f' = fw_local f \<and>
    rx (fw_stats f') = rx (fw_stats f) + of_nat (length (concat (take n ps))) \<and>
    rx (fw_global f') = rx (fw_global f) + of_nat (length (concat (take n ps)))"
  using assms
proof (induction ps arbitrary: c f)
  case Nil
  show ?case by (simp add: delivered_def)
next
  case (Cons p ps)
  show ?case
  proof (cases "wfail c (wcount c)")
    case None
    let ?c = "c\<lparr>outs := outs c @ [p], wcount := Suc (wcount c)\<rparr>"
    let ?f = "addRx (int (length p)) f"
    obtain r f' c' n where "target_to_src (map (\<lambda>b. \<lparr>Status = Session, Body = DstPayload b\<rparr>) ps) ?f ?c = (r, f', c')"
      "delivered ?c c' ps n r" "fw_local f' = fw_local ?f"
      "rx (fw_stats f') = rx (fw_stats ?f) + of_nat (length (concat (take n ps)))"
      "rx (fw_global f') = rx (fw_global ?f) + of_nat (length (concat (take n ps)))"
      using Cons.IH [of ?f ?c] Cons.prems by auto
    moreover have "copyTargetToSRC \<lparr>Status = Session, Body = DstPayload p\<rparr> f c = (Inr (), ?f, ?c)"
      using Cons.prems None by (auto simp: copyTargetToSRC_def Write_def)
    ultimately show ?thesis using delivered_Cons [OF None, of p c' ps n r]
      by (intro exI [of _ r] exI [of _ f'] exI [of _ c'] exI [of _ "Suc n"]) simp
  next
    case (Some e)
    then have "copyTargetToSRC \<lparr>Status = Session, Body = DstPayload p\<rparr> f c = (Inl e, f, c\<lparr>wcount := Suc (wcount c)\<rparr>)"
      using Cons.prems by (auto simp: copyTargetToSRC_def Write_def)
    then show ?thesis using delivered_fail [OF Some, of p ps e]
      by (intro exI [of _ "Inl e"] exI [of _ f] exI [of _ "c\<lparr>wcount := Suc (wcount c)\<rparr>"] exI [of _ 0]) simp
  qed
qed

text \<open>Reading a sequence of datagrams, each with a buffer of \<open>n\<close> bytes.\<close>

fun read_datagrams :: "nat \<Rightarrow> nat \<Rightarrow> recv_event list \<Rightarrow> (bytes \<times> goerror option) result list" where
  "read_datagrams 0 n es = []"
| "read_datagrams (Suc k) n es =
     (case ReadFrom n es of None \<Rightarrow> [] | Some (r, es') \<Rightarrow> r # read_datagrams k n es')"

lemma target_to_client_udp:
  assumes "isUDPNetwork network"
  shows "target_to_client network (map (\<lambda>b. ((b, None), None)) ps) =
    (map (\<lambda>b. \<lparr>Status = Session, Body = DstPayload b\<rparr>) ps, None)"
  using assms by (induction ps) (simp_all add: copyTargetToClient_def)

lemma read_datagrams_payloads:
  assumes "\<forall>p \<in> set ps. length p \<le> n"
  shows "read_datagrams (length ps) n (map (\<lambda>b. Received \<lparr>Status = Session, Body = DstPayload b\<rparr>) ps) =
    map (\<lambda>p. Inr (p, None)) ps"
  using assms by (induction ps) auto

lemma read_datagrams_accept:
  "read_datagrams k n (Received (accept_message local) # es) = read_datagrams k n es"
  by (cases k) (simp_all add: accept_message_def)

section \<open>Deadlines\<close>

definition deadline_inv :: "pipeDeadline \<Rightarrow> bool" where
  "deadline_inv d \<longleftrightarrow>
     ((\<exists>t. dl_timer d = Armed t) \<or> dl_timer d = Firing \<longrightarrow> \<not> dl_isclosed d) \<and>
     (dl_timer d = Expired \<longrightarrow> dl_isclosed d) \<and>
     dl_chan d < dl_next d \<and> (\<forall>c \<in> dl_closed d. c < dl_next d)"

lemma deadline_inv_set: "deadline_inv d \<Longrightarrow> deadline_set t now d = Some d' \<Longrightarrow> deadline_inv d'"
  by (auto simp: deadline_inv_def deadline_set_def fresh_chan_def dl_isclosed_def Let_def less_Suc_eq
      split: if_splits option.splits)

lemma deadline_inv_step: "deadline_step d d' \<Longrightarrow> deadline_inv d \<Longrightarrow> deadline_inv d'"
proof (induction rule: deadline_step.induct)
  case (Set_deadline t now d d')
  then show ?case using deadline_inv_set by blast
next
  case (Timer_fires d t)
  then show ?case by (auto simp: deadline_inv_def dl_isclosed_def)
next
  case (Callback d d')
  then show ?case by (auto simp: deadline_inv_def deadline_callback_def dl_isclosed_def split: if_splits)
qed

lemma deadline_reachable_inv: "deadline_reachable d \<Longrightarrow> deadline_inv d"
proof (induction rule: deadline_reachable.induct)
  case Deadline_init
  show ?case by (simp add: deadline_inv_def makePipeDeadline_def dl_isclosed_def)
next
  case (Deadline_step d d')
  then show ?case using deadline_inv_step by blast
qed

section \<open>Properties\<close>

text \<open>C12: A TCP session carries bytes unchanged and in order, whatever fails. Upwards the chunks
  that count are those the client read before its first read error, empty read or failed send;
  a chunk that comes together with a read error is not one of them. Downwards they are those the
  server read from the target before its first error, one that comes together with the error
  included, or before its first failed send. In both directions exactly the chunks up to the
  first failing write reach the other connection, all of them if no write fails, the loop
  reports an error exactly if a write failed, the announced address is passed on, and the
  receive counters of the session and of the process grow by what was written.\<close>

theorem tcp_session_faithful:
  assumes "\<not> isUDPNetwork network"
  shows "\<exists>r1 c' n r2 f' d' k.
    client_to_target network (fst (src_to_target reads)) c = (r1, c') \<and>
    delivered c c' (map (\<lambda>x. fst (fst x)) (takeWhile (\<lambda>x. snd (fst x) = None \<and> fst (fst x) \<noteq> [] \<and> snd x = None) reads)) n r1 \<and>
    target_to_src (accept_message local # fst (target_to_client network rs)) f d = (r2, f', d') \<and>
    delivered d d' (sent_chunks rs) k r2 \<and> fw_local f' = fw_local f @ [local] \<and>
    rx (fw_stats f') = rx (fw_stats f) + of_nat (length (concat (take k (sent_chunks rs)))) \<and>
    rx (fw_global f') = rx (fw_global f) + of_nat (length (concat (take k (sent_chunks rs))))"
proof -
  let ?ps = "map (\<lambda>x. fst (fst x)) (takeWhile forwardable reads)"
  have fw: "(\<lambda>x. snd (fst x) = None \<and> fst (fst x) \<noteq> [] \<and> snd x = None) = forwardable"
    by (simp add: fun_eq_iff forwardable_def)
  have "[] \<notin> set ?ps" by (auto simp: forwardable_def dest!: set_takeWhileD)
  then obtain r1 c' n where up: "client_to_target network (map SrcPayload ?ps) c = (r1, c')" "delivered c c' ?ps n r1"
    using client_to_target_delivers [of ?ps network c] by blast
  let ?f = "f\<lparr>fw_local := fw_local f @ [local]\<rparr>"
  obtain r2 f' d' k where down: "target_to_src (map (\<lambda>b. \<lparr>Status = Session, Body = DstPayload b\<rparr>) (sent_chunks rs)) ?f d = (r2, f', d')"
    "delivered d d' (sent_chunks rs) k r2" "fw_local f' = fw_local ?f"
    "rx (fw_stats f') = rx (fw_stats ?f) + of_nat (length (concat (take k (sent_chunks rs))))"
    "rx (fw_global f') = rx (fw_global ?f) + of_nat (length (concat (take k (sent_chunks rs))))"
    using target_to_src_delivers [OF sent_chunks_nonempty, of rs ?f d] by blast
  have "target_to_src (accept_message local # fst (target_to_client network rs)) f d = (r2, f', d')"
    using down(1) by (simp add: target_to_client_sent [OF assms] accept_message_def copyTargetToSRC_def)
  then show ?thesis using up down unfolding fw src_to_target_sent
    by (intro exI [of _ r1] exI [of _ c'] exI [of _ n] exI [of _ r2] exI [of _ f'] exI [of _ d'] exI [of _ k]) simp
qed

theorem tcp_session_faithful_witness:
  "\<exists>c'. client_to_target ''tcp'' (fst (src_to_target
       [(([1, 2], None), None), (([3], None), None), (([], Some (Sentinel EOF)), None)])) (conn_of []) = (Inr (), c') \<and>
     outs c' = [[1, 2], [3]]"
proof -
  let ?rs = "[(([1, 2], None), None), (([3], None), None), (([], Some (Sentinel EOF)), None)]"
  have n: "\<not> isUDPNetwork ''tcp''" by (simp add: isUDPNetwork_def)
  have s: "map (\<lambda>x. fst (fst x)) (takeWhile (\<lambda>x. snd (fst x) = None \<and> fst (fst x) \<noteq> [] \<and> snd x = None) ?rs) = [[1, 2], [3]]"
    by simp
  obtain r1 c' k where r: "client_to_target ''tcp'' (fst (src_to_target ?rs)) (conn_of []) = (r1, c')"
    "delivered (conn_of []) c' [[1, 2], [3]] k r1"
    using tcp_session_faithful [OF n, of ?rs "conn_of []" _ "[]" undefined "conn_of []", unfolded s] by blast
  have "k = 2" using r(2) by (auto simp: delivered_def conn_of_def split: if_splits)
  then have "r1 = Inr ()" "outs c' = [[1, 2], [3]]" using r(2) by (simp_all add: delivered_def conn_of_def)
  with r(1) show ?thesis by blast
qed

text \<open>The two directions differ on a read that returns data together with an error: the
  server forwards the data before it ends the loop, the client drops it.\<close>

theorem final_chunk_asymmetry:
  "fst (target_to_client network [((b, Some e), None)]) =
     (if b = [] then [] else [\<lparr>Status = Session, Body = DstPayload b\<rparr>]) \<and>
   src_to_target [((b, Some e), None)] = ([], Some e)"
  by (simp add: copyTargetToClient_def copySRCtoTarget_def)

text \<open>A UDP flow through the tunnel keeps datagrams whole, in order and one to one, empty
  ones included: every datagram given to \<open>WriteTo\<close> is written to the target as one datagram,
  and every datagram the server reads from the target is returned by one \<open>ReadFrom\<close>, without
  truncation when the caller's buffer is large enough; the accept message in front is
  skipped.\<close>

theorem udp_datagrams_preserved:
  assumes "wfail c = (\<lambda>_. None)" and "isUDPNetwork network" and "\<forall>p \<in> set qs. length p \<le> n"
  shows "\<exists>c'. client_to_target network (concat (map (\<lambda>p. snd (WriteTo False False SendOk p)) ps)) c = (Inr (), c') \<and>
      outs c' = outs c @ ps \<and>
    read_datagrams (length qs) n (map Received (accept_message local #
        fst (target_to_client network (map (\<lambda>b. ((b, None), None)) qs)))) = map (\<lambda>q. Inr (q, None)) qs"
proof -
  have "concat (map (\<lambda>p. snd (WriteTo False False SendOk p)) ps) = map SrcPayload ps"
    by (induction ps) (simp_all add: WriteTo_def)
  then obtain c' where "client_to_target network (concat (map (\<lambda>p. snd (WriteTo False False SendOk p)) ps)) c = (Inr (), c')"
    "outs c' = outs c @ ps"
    using client_to_target_payloads [OF assms(1), of network ps] assms(2) by auto
  moreover have "read_datagrams (length qs) n (map Received (accept_message local #
        fst (target_to_client network (map (\<lambda>b. ((b, None), None)) qs)))) = map (\<lambda>q. Inr (q, None)) qs"
    using read_datagrams_payloads [OF assms(3)]
    by (simp only: target_to_client_udp [OF assms(2)] fst_conv list.map read_datagrams_accept
        list.map_comp comp_def)
  ultimately show ?thesis by blast
qed

theorem udp_datagrams_preserved_witness:
  "read_datagrams 3 4 (map Received (accept_message ''x'' #
      fst (target_to_client ''udp'' (map (\<lambda>b. ((b, None), None)) [[1], [], [2, 3]])))) =
   [Inr ([1], None), Inr ([], None), Inr ([2, 3], None)]"
proof -
  let ?qs = "[[1], [], [2, 3]] :: bytes list"
  have w: "wfail (conn_of []) = (\<lambda>_. None)" by (simp add: conn_of_def)
  have n: "isUDPNetwork ''udp''" by (simp add: isUDPNetwork_def)
  have l: "\<forall>p \<in> set ?qs. length p \<le> 4" by simp
  have "length ?qs = 3" by simp
  then have "read_datagrams 3 4 (map Received (accept_message ''x'' #
      fst (target_to_client ''udp'' (map (\<lambda>b. ((b, None), None)) ?qs)))) = map (\<lambda>q. Inr (q, None)) ?qs"
    using udp_datagrams_preserved [OF w n l, of "[]" "''x''"] by metis
  also have "\<dots> = [Inr ([1], None), Inr ([], None), Inr ([2, 3], None)]" by simp
  finally show ?thesis .
qed

text \<open>C30: Deadlines are safe and are observed. In every reachable state the timer's callback
  finds an open channel (so it never closes twice) and an expired deadline has its channel
  closed; and whenever \<open>set\<close> runs, an operation that was blocked on the channel before it is
  woken by a deadline in the past, keeps its channel under a deadline in the future if it was
  still open, and after a zero time the channel is open.\<close>

theorem deadline_safe:
  assumes "deadline_reachable d"
  shows "(dl_timer d = Firing \<longrightarrow> deadline_callback d \<noteq> None) \<and> (dl_timer d = Expired \<longrightarrow> dl_isclosed d) \<and>
    (dl_timer d \<noteq> Firing \<longrightarrow> (\<exists>d'. deadline_set t now d = Some d' \<and>
       (t = None \<longrightarrow> \<not> dl_isclosed d') \<and>
       (\<forall>u. t = Some u \<longrightarrow> now < u \<longrightarrow> \<not> dl_isclosed d' \<and> dl_timer d' = Armed u \<and>
          (\<not> dl_isclosed d \<longrightarrow> dl_chan d' = dl_chan d)) \<and>
       (\<forall>u. t = Some u \<longrightarrow> u \<le> now \<longrightarrow> dl_chan d \<in> dl_closed d')))"
proof -
  have inv: "deadline_inv d" by (rule deadline_reachable_inv [OF assms])
  then have fresh: "dl_next d \<notin> dl_closed d" by (auto simp: deadline_inv_def)
  show ?thesis using inv fresh
    by (auto simp: deadline_inv_def deadline_callback_def deadline_set_def fresh_chan_def dl_isclosed_def
        Let_def split: option.splits)
qed

theorem deadline_safe_witness:
  "\<exists>d d'. deadline_reachable d \<and> deadline_set (Some 5) 9 d = Some d' \<and> dl_chan d \<in> dl_closed d'"
proof -
  have t: "dl_timer makePipeDeadline \<noteq> Firing" by (simp add: makePipeDeadline_def)
  show ?thesis
    using deadline_safe [OF Deadline_init, of "Some 5" 9] t Deadline_init by auto
qed

text \<open>The server dials what the client asked for. An address without a legacy scheme is
  dialed unchanged, over UDP exactly when the header says so (with a TCP network configured);
  and once IPv6 is disabled no header, legacy or not, makes the server dial a dual-stack or
  IPv6 network.\<close>

theorem resolveTarget_network:
  assumes "network_opt ts \<in> {''tcp'', ''tcp4'', ''tcp6''}"
  shows "(splitLegacyScheme addr = None \<longrightarrow> snd (resolveTarget ts addr net) = addr \<and>
      (isUDPNetwork (fst (resolveTarget ts addr net)) \<longleftrightarrow> net = UDP)) \<and>
    fst (resolveTarget (DisableIPv6 ts) addr net) \<in> {''tcp4'', ''udp4''}"
proof -
  have "fst (resolveTarget (DisableIPv6 ts) addr net) \<in> {''tcp4'', ''udp4''}"
    by (auto simp: resolveTarget_def splitLegacyScheme_def DialNetwork_def DisableIPv6_def SetNetwork_def
        split: option.splits Network.splits)
  moreover have "splitLegacyScheme addr = None \<longrightarrow> snd (resolveTarget ts addr net) = addr \<and>
      (isUDPNetwork (fst (resolveTarget ts addr net)) \<longleftrightarrow> net = UDP)"
    using assms by (cases net) (auto simp: resolveTarget_def isUDPNetwork_def DialNetwork_def)
  ultimately show ?thesis by blast
qed

theorem resolveTarget_network_witness:
  "resolveTarget init_settings ''a:53'' UDP = (''udp'', ''a:53'') \<and>
   fst (resolveTarget (DisableIPv6 init_settings) ''tcp://a:53'' UDP) \<in> {''tcp4'', ''udp4''}"
proof -
  have h: "network_opt init_settings \<in> {''tcp'', ''tcp4'', ''tcp6''}" by (simp add: init_settings_def)
  have e: "resolveTarget init_settings ''a:53'' UDP = (''udp'', ''a:53'')" by code_simp
  show ?thesis using resolveTarget_network [OF h, of "''tcp://a:53''" UDP] e by simp
qed

end
