(* ===== verification/ClientSession.thy ===== *)
theory ClientSession
  imports RpcTunnel
begin

text \<open>
  \<open>internal/transport/rpc/client/forwarder.go\<close>, a TCP session as a whole: \<open>Start\<close> with the three
  goroutines of its error group, the two inner goroutines of the copy directions, the
  one-place channel that carries the acknowledged local address, and the contexts that tear
  the session down. A step runs one goroutine up to its next interaction; what the network,
  the local connection and the clock answer is quantified in the rules. The data part of a
  step is that of the copy functions in \<open>RpcTunnel\<close>.
\<close>

section \<open>State\<close>

datatype down_pc = Receiving | PassingAddr string | DownEnded goerror
datatype outer_pc = Watching | Aborting | Returned
datatype up_pc = Uploading | UpEnded goerror
datatype ack_pc = AckWaiting | AckPassing string | AckReturned

text \<open>
  \<open>ss_chan\<close> is the buffer of \<open>f.localAddr\<close>, \<open>ss_accepted\<close> records what was put into it,
  \<open>ss_received\<close> the messages the stream delivered,
  \<open>ss_announced\<close> what the caller of \<open>Proxy\<close> received. \<open>ss_ctxDone\<close> is the group's context,
  \<open>ss_streamDown\<close> that \<open>f.cancel\<close> was called, \<open>ss_group\<close> the first error of the group.
\<close>

record client_session =
  ss_down :: down_pc
  ss_downOuter :: outer_pc
  ss_up :: up_pc
  ss_upOuter :: outer_pc
  ss_ack :: ack_pc
  ss_chan :: "string option"
  ss_chanClosed :: bool
  ss_ctxDone :: bool
  ss_streamDown :: bool
  ss_group :: "goerror option"
  ss_fw :: forwarder
  ss_writer :: conn
  ss_out :: "ProxySRC list"
  ss_received :: "ProxyDST list"
  ss_accepted :: "string list"
  ss_announced :: "string list"

definition start_session :: "string \<Rightarrow> forwarder \<Rightarrow> conn \<Rightarrow> client_session" where
  "start_session addr f w =
     \<lparr>ss_down = Receiving, ss_downOuter = Watching, ss_up = Uploading, ss_upOuter = Watching, ss_ack = AckWaiting,
      ss_chan = None, ss_chanClosed = False, ss_ctxDone = False, ss_streamDown = False, ss_group = None,
      ss_fw = f, ss_writer = w, ss_out = [SrcHeader addr TCP], ss_received = [], ss_accepted = [], ss_announced = []\<rparr>"

text \<open>A goroutine of the group returns an error: the first one is kept and ends the context.\<close>

definition group_error :: "goerror \<Rightarrow> client_session \<Rightarrow> client_session" where
  "group_error e s = s\<lparr>ss_group := (case ss_group s of None \<Rightarrow> Some e | Some e0 \<Rightarrow> Some e0), ss_ctxDone := True\<rparr>"

definition tagged :: "string \<Rightarrow> goerror \<Rightarrow> goerror" where
  "tagged tag e = (if e = Sentinel EOF then e else Wrap tag e)"

text \<open>
  One message in the receive goroutine. \<open>Accepted\<close> sends on the channel, which blocks while
  the buffer is full; everything else is \<open>copyTargetToSRC\<close>.
\<close>

definition receive :: "ProxyDST \<Rightarrow> client_session \<Rightarrow> client_session" where
  "receive m s =
     (case copyTargetToSRC m (ss_fw s) (ss_writer s) of
        (r, f, w) \<Rightarrow>
          let s1 = s\<lparr>ss_writer := w, ss_fw := f, ss_received := ss_received s @ [m]\<rparr> in
          (case r of
             Inl e \<Rightarrow> s1\<lparr>ss_down := DownEnded e, ss_chanClosed := ss_chanClosed s \<or> Status m = StError\<rparr>
           | Inr _ \<Rightarrow>
               (case (Status m, Body m) of
                  (Accepted, DstHeader a) \<Rightarrow>
                    if ss_chan s = None then s1\<lparr>ss_chan := Some a, ss_accepted := ss_accepted s @ [a]\<rparr>
                    else s1\<lparr>ss_down := PassingAddr a\<rparr>
                | _ \<Rightarrow> s1)))"

text \<open>A breakdown of the connection ends the session like an end of file.\<close>

definition recv_failed :: "goerror \<Rightarrow> bool \<Rightarrow> client_session \<Rightarrow> client_session" where
  "recv_failed e unavailable s = s\<lparr>ss_down := DownEnded (if unavailable then Sentinel EOF else e)\<rparr>"

definition upload :: "read_result \<Rightarrow> goerror option \<Rightarrow> client_session \<Rightarrow> client_session" where
  "upload r sendErr s =
     (case copySRCtoTarget r sendErr of
        (ms, None) \<Rightarrow> s\<lparr>ss_out := ss_out s @ ms, ss_fw := addTx (int (length (fst r))) (ss_fw s)\<rparr>
      | (ms, Some e) \<Rightarrow> s\<lparr>ss_out := ss_out s @ ms, ss_up := UpEnded e\<rparr>)"

section \<open>Steps\<close>

text \<open>Steps are labelled with the goroutine that moves and, where it matters, with what moves it.\<close>

datatype client_action =
  ARecv | ARecvErr | AAddr | ADown | AUpload | AUp | AAck | ATimeout | AAnnounce | ACancel

inductive client_step :: "client_action \<Rightarrow> client_session \<Rightarrow> client_session \<Rightarrow> bool" where
  Recv: "ss_down s = Receiving \<Longrightarrow> client_step ARecv s (receive m s)"
| Recv_err: "ss_down s = Receiving \<Longrightarrow> client_step ARecvErr s (recv_failed e unavailable s)"
| Addr_passed: "ss_down s = PassingAddr a \<Longrightarrow> ss_chan s = None \<Longrightarrow>
    client_step AAddr s (s\<lparr>ss_down := Receiving, ss_chan := Some a, ss_accepted := ss_accepted s @ [a]\<rparr>)"
| Down_return: "ss_downOuter s = Watching \<Longrightarrow> ss_down s = DownEnded e \<Longrightarrow>
    client_step ADown s (group_error (tagged ''download'' e) (s\<lparr>ss_downOuter := Returned\<rparr>))"
| Down_abort: "ss_downOuter s = Watching \<Longrightarrow> ss_ctxDone s \<Longrightarrow>
    client_step ADown s (s\<lparr>ss_downOuter := Aborting, ss_streamDown := True\<rparr>)"
| Down_aborted: "ss_downOuter s = Aborting \<Longrightarrow> ss_down s = DownEnded e \<Longrightarrow>
    client_step ADown s (group_error (Wrap ''download'' (Sentinel Canceled)) (s\<lparr>ss_downOuter := Returned\<rparr>))"
| Up: "ss_up s = Uploading \<Longrightarrow> client_step AUpload s (upload r sendErr s)"
| Up_return: "ss_upOuter s = Watching \<Longrightarrow> ss_up s = UpEnded e \<Longrightarrow>
    client_step AUp s (group_error (tagged ''upload'' e) (s\<lparr>ss_upOuter := Returned\<rparr>))"
| Up_abort: "ss_upOuter s = Watching \<Longrightarrow> ss_ctxDone s \<Longrightarrow>
    client_step AUp s (group_error (Wrap ''upload'' (Sentinel Canceled)) (s\<lparr>ss_upOuter := Returned\<rparr>))"
| Ack_done: "ss_ack s = AckWaiting \<Longrightarrow> ss_ctxDone s \<Longrightarrow>
    client_step AAck s (group_error (Sentinel Canceled) (s\<lparr>ss_ack := AckReturned\<rparr>))"
| Ack_timeout: "ss_ack s = AckWaiting \<Longrightarrow>
    client_step ATimeout s (group_error (Sentinel ErrServerAckTimeout) (s\<lparr>ss_ack := AckReturned\<rparr>))"
| Ack_received: "ss_ack s = AckWaiting \<Longrightarrow> ss_chan s = Some a \<Longrightarrow>
    client_step AAck s (s\<lparr>ss_ack := AckPassing a, ss_chan := None\<rparr>)"
| Ack_rejected: "ss_ack s = AckWaiting \<Longrightarrow> ss_chan s = None \<Longrightarrow> ss_chanClosed s \<Longrightarrow>
    client_step AAck s (group_error (Sentinel ErrServerRejected) (s\<lparr>ss_ack := AckReturned\<rparr>))"
| Ack_passed: "ss_ack s = AckPassing a \<Longrightarrow>
    client_step AAnnounce s (s\<lparr>ss_ack := AckReturned, ss_announced := ss_announced s @ [a]\<rparr>)"
| Ack_unwanted: "ss_ack s = AckPassing a \<Longrightarrow> ss_ctxDone s \<Longrightarrow>
    client_step AAck s (group_error (Sentinel Canceled) (s\<lparr>ss_ack := AckReturned\<rparr>))"
| Cancelled: "client_step ACancel s (s\<lparr>ss_ctxDone := True\<rparr>)"

inductive session_reachable :: "client_session \<Rightarrow> client_session \<Rightarrow> bool" for s0 where
  Session_init: "session_reachable s0 s0"
| Session_step: "session_reachable s0 s \<Longrightarrow> client_step a s s' \<Longrightarrow> session_reachable s0 s'"

text \<open>\<open>Start\<close> returns when the three goroutines of the group have; an end of file is no error.\<close>

definition session_over :: "client_session \<Rightarrow> bool" where
  "session_over s \<longleftrightarrow> ss_downOuter s = Returned \<and> ss_upOuter s = Returned \<and> ss_ack s = AckReturned"

definition Start_result :: "client_session \<Rightarrow> goerror option" where
  "Start_result s = (if ss_group s = Some (Sentinel EOF) then None else ss_group s)"

text \<open>\<open>Client.Proxy\<close> around it: the handshake must have been sent, a cancelled session is no error.\<close>

definition client_Proxy_result :: "unit result \<Rightarrow> client_session \<Rightarrow> goerror option" where
  "client_Proxy_result handshake s =
     (case handshake of
        Inl e \<Rightarrow> let e' = Wrap ''handshake'' e in if errors_Is e' Canceled then None else Some e'
      | Inr _ \<Rightarrow> (case Start_result s of
                   None \<Rightarrow> None
                 | Some e \<Rightarrow> if errors_Is e Canceled then None else Some e))"

section \<open>Invariant\<close>

text \<open>
  The receive goroutine has ended when its direction has returned; the channel holds what was
  accepted and not yet taken, and the caller is told the first accepted address or nothing.
\<close>

fun ack_ok :: "ack_pc \<Rightarrow> string list \<Rightarrow> string list \<Rightarrow> string option \<Rightarrow> bool" where
  "ack_ok AckWaiting announced accepted chan \<longleftrightarrow> announced = [] \<and> accepted = (case chan of None \<Rightarrow> [] | Some a \<Rightarrow> [a])"
| "ack_ok (AckPassing a) announced accepted chan \<longleftrightarrow> announced = [] \<and> (\<exists>rest. accepted = a # rest)"
| "ack_ok AckReturned announced accepted chan \<longleftrightarrow> announced = [] \<or> (\<exists>a rest. announced = [a] \<and> accepted = a # rest)"

definition session_inv :: "client_session \<Rightarrow> bool" where
  "session_inv s \<longleftrightarrow>
     (ss_downOuter s = Returned \<longrightarrow> (\<exists>e. ss_down s = DownEnded e)) \<and>
     ss_upOuter s \<noteq> Aborting \<and>
     (ss_chan s \<noteq> None \<longrightarrow> ss_accepted s \<noteq> []) \<and>
     (\<forall>a. ss_down s = PassingAddr a \<longrightarrow> ss_accepted s \<noteq> []) \<and>
     (ss_group s \<noteq> None \<longrightarrow> ss_ctxDone s) \<and>
     (ss_downOuter s = Returned \<or> ss_upOuter s = Returned \<longrightarrow> ss_group s \<noteq> None) \<and>
     ack_ok (ss_ack s) (ss_announced s) (ss_accepted s) (ss_chan s)"

lemma group_error_fields [simp]:
  "ss_down (group_error e s) = ss_down s" "ss_downOuter (group_error e s) = ss_downOuter s"
  "ss_up (group_error e s) = ss_up s" "ss_upOuter (group_error e s) = ss_upOuter s"
  "ss_ack (group_error e s) = ss_ack s" "ss_chan (group_error e s) = ss_chan s"
  "ss_chanClosed (group_error e s) = ss_chanClosed s" "ss_ctxDone (group_error e s)"
  "ss_streamDown (group_error e s) = ss_streamDown s" "ss_writer (group_error e s) = ss_writer s"
  "ss_accepted (group_error e s) = ss_accepted s" "ss_announced (group_error e s) = ss_announced s"
  "ss_out (group_error e s) = ss_out s" "ss_received (group_error e s) = ss_received s" "ss_fw (group_error e s) = ss_fw s"
  "ss_group (group_error e s) \<noteq> None"
  by (simp_all add: group_error_def split: option.split)

lemma upload_fields [simp]:
  "ss_down (upload r e s) = ss_down s" "ss_downOuter (upload r e s) = ss_downOuter s"
  "ss_upOuter (upload r e s) = ss_upOuter s" "ss_ack (upload r e s) = ss_ack s" "ss_chan (upload r e s) = ss_chan s"
  "ss_ctxDone (upload r e s) = ss_ctxDone s" "ss_group (upload r e s) = ss_group s"
  "ss_writer (upload r e s) = ss_writer s" "ss_received (upload r e s) = ss_received s" "ss_accepted (upload r e s) = ss_accepted s"
  "ss_announced (upload r e s) = ss_announced s" "ss_chanClosed (upload r e s) = ss_chanClosed s"
  by (simp_all add: upload_def split: prod.split option.split)

lemma receive_fields [simp]:
  "ss_downOuter (receive m s) = ss_downOuter s" "ss_upOuter (receive m s) = ss_upOuter s"
  "ss_ack (receive m s) = ss_ack s" "ss_ctxDone (receive m s) = ss_ctxDone s" "ss_group (receive m s) = ss_group s"
  "ss_announced (receive m s) = ss_announced s" "ss_up (receive m s) = ss_up s"
  "ss_received (receive m s) = ss_received s @ [m]"
  by (simp_all add: receive_def Let_def split: prod.split sum.split ProxyStatus.split dst_body.split)

text \<open>What a message does to the channel.\<close>

lemma receive_cases:
  assumes "ss_down s = Receiving"
  obtains (other) "ss_chan (receive m s) = ss_chan s" "ss_accepted (receive m s) = ss_accepted s"
      "\<And>a. ss_down (receive m s) \<noteq> PassingAddr a"
    | (buffered) a where "ss_chan s = None" "ss_chan (receive m s) = Some a"
      "ss_accepted (receive m s) = ss_accepted s @ [a]" "ss_down (receive m s) = Receiving"
    | (blocked) a where "ss_chan s \<noteq> None" "ss_chan (receive m s) = ss_chan s"
      "ss_accepted (receive m s) = ss_accepted s" "ss_down (receive m s) = PassingAddr a"
  using assms that
  by (fastforce simp: receive_def Let_def split: prod.splits sum.splits ProxyStatus.splits dst_body.splits if_splits)

lemma ack_ok_buffered: "ack_ok k announced accepted None \<Longrightarrow> ack_ok k announced (accepted @ [a]) (Some a)"
  by (cases k) auto

lemma ack_ok_taken: "ack_ok AckWaiting announced accepted (Some a) \<Longrightarrow> ack_ok (AckPassing a) announced accepted None"
  by simp

lemma session_inv_start: "session_inv (start_session addr f w)"
  by (simp add: session_inv_def start_session_def)

lemma session_inv_receive:
  assumes "session_inv s" and d: "ss_down s = Receiving"
  shows "session_inv (receive m s)"
proof -
  have o: "ss_downOuter s \<noteq> Returned" using assms by (auto simp: session_inv_def)
  from d show ?thesis
  proof (cases rule: receive_cases [where m = m])
    case other
    with assms o show ?thesis by (simp add: session_inv_def)
  next
    case (buffered a)
    with assms o show ?thesis by (simp add: session_inv_def ack_ok_buffered)
  next
    case (blocked a)
    with assms o show ?thesis by (simp add: session_inv_def)
  qed
qed

lemma session_inv_step: "client_step a s s' \<Longrightarrow> session_inv s \<Longrightarrow> session_inv s'"
proof (induction rule: client_step.induct)
  case (Recv s m)
  then show ?case by (simp add: session_inv_receive)
next
  case (Addr_passed s a)
  then show ?case by (auto simp: session_inv_def ack_ok_buffered)
qed (auto simp: session_inv_def recv_failed_def)

lemma session_reachable_inv: "session_reachable (start_session addr f w) s \<Longrightarrow> session_inv s"
  by (induction rule: session_reachable.induct) (auto simp: session_inv_start intro: session_inv_step)

text \<open>The addresses announced in a list of messages: those accepted so far and the one that is being passed on.\<close>

definition accept_addr :: "ProxyDST \<Rightarrow> string list" where
  "accept_addr m = (case (Status m, Body m) of (Accepted, DstHeader a) \<Rightarrow> [a] | _ \<Rightarrow> [])"

definition received_inv :: "client_session \<Rightarrow> bool" where
  "received_inv s \<longleftrightarrow>
     concat (map accept_addr (ss_received s)) = ss_accepted s @ (case ss_down s of PassingAddr a \<Rightarrow> [a] | _ \<Rightarrow> [])"

lemma received_inv_receive:
  assumes "ss_down s = Receiving" and "received_inv s"
  shows "received_inv (receive m s)"
proof (cases "Status m")
  case Accepted
  with assms show ?thesis
    by (cases "Body m") (auto simp: received_inv_def accept_addr_def receive_def copyTargetToSRC_def Let_def)
next
  case Session
  with assms show ?thesis
    by (cases "Body m") (auto simp: received_inv_def accept_addr_def receive_def copyTargetToSRC_def Let_def split: prod.split sum.split)
qed (use assms in \<open>auto simp: received_inv_def accept_addr_def receive_def copyTargetToSRC_def Let_def\<close>)

lemma received_inv_step: "client_step a s s' \<Longrightarrow> received_inv s \<Longrightarrow> received_inv s'"
proof (induction rule: client_step.induct)
  case (Recv s m)
  then show ?case by (simp add: received_inv_receive)
qed (auto simp: received_inv_def recv_failed_def)

lemma received_inv_start: "received_inv (start_session addr f w)"
  by (simp add: received_inv_def start_session_def)

lemma session_reachable_received: "session_reachable (start_session addr f w) s \<Longrightarrow> received_inv s"
  by (induction rule: session_reachable.induct) (auto simp: received_inv_start intro: received_inv_step)

section \<open>Shutdown\<close>

text \<open>
  Once the context is done: the receive fails because the stream is cancelled, the outer
  goroutines notice. Reads of the caller's connection, a caller that still takes the address,
  and the timer are not needed.
\<close>

definition shutdown_actions :: "client_action set" where
  "shutdown_actions = {ARecvErr, AAddr, ADown, AUp, AAck}"

definition shutdown_step :: "client_session \<Rightarrow> client_session \<Rightarrow> bool" where
  "shutdown_step s s' \<longleftrightarrow> (\<exists>a \<in> shutdown_actions. client_step a s s')"

definition shutting_down :: "client_session \<Rightarrow> bool" where
  "shutting_down s \<longleftrightarrow> session_inv s \<and> ss_ctxDone s \<and> (\<forall>a. ss_down s \<noteq> PassingAddr a)"

fun down_work :: "down_pc \<Rightarrow> nat" where
  "down_work Receiving = 1" | "down_work (PassingAddr a) = 2" | "down_work (DownEnded e) = 0"

fun outer_work :: "outer_pc \<Rightarrow> nat" where
  "outer_work Watching = 2" | "outer_work Aborting = 1" | "outer_work Returned = 0"

fun ack_work :: "ack_pc \<Rightarrow> nat" where
  "ack_work AckWaiting = 2" | "ack_work (AckPassing a) = 1" | "ack_work AckReturned = 0"

definition session_work :: "client_session \<Rightarrow> nat" where
  "session_work s = down_work (ss_down s) + outer_work (ss_downOuter s) + outer_work (ss_upOuter s) + ack_work (ss_ack s)"

lemma session_work_bound: "session_work s \<le> 8"
  unfolding session_work_def
  by (cases "ss_down s"; cases "ss_downOuter s"; cases "ss_upOuter s"; cases "ss_ack s") simp_all

lemma shutdown_step_work: "client_step a s s' \<Longrightarrow> a \<in> shutdown_actions \<Longrightarrow> session_work s' < session_work s"
  by (induction rule: client_step.induct) (auto simp: session_work_def shutdown_actions_def recv_failed_def)

lemma shutdown_step_inv: "client_step a s s' \<Longrightarrow> a \<in> shutdown_actions \<Longrightarrow> shutting_down s \<Longrightarrow> shutting_down s'"
proof -
  assume step: "client_step a s s'" and a: "a \<in> shutdown_actions" and s: "shutting_down s"
  have "ss_ctxDone s' \<and> (\<forall>a. ss_down s' \<noteq> PassingAddr a)"
    using step a s by (induction rule: client_step.induct) (auto simp: shutting_down_def shutdown_actions_def recv_failed_def)
  then show "shutting_down s'" using s session_inv_step [OF step] by (simp add: shutting_down_def)
qed

lemma shutdown_progress:
  assumes s: "shutting_down s" and "\<not> session_over s"
  shows "\<exists>s'. shutdown_step s s'"
proof -
  have c: "ss_ctxDone s" using s by (simp add: shutting_down_def)
  consider "ss_ack s \<noteq> AckReturned" | "ss_upOuter s \<noteq> Returned" | "ss_downOuter s \<noteq> Returned"
    using assms(2) by (auto simp: session_over_def)
  then show ?thesis
  proof cases
    case 1
    then have "\<exists>s'. client_step AAck s s'"
      using Ack_done [OF _ c] Ack_unwanted [OF _ c] by (cases "ss_ack s") auto
    then show ?thesis by (auto simp: shutdown_step_def shutdown_actions_def)
  next
    case 2
    then have "ss_upOuter s = Watching" using s by (cases "ss_upOuter s") (auto simp: shutting_down_def session_inv_def)
    then show ?thesis using Up_abort [OF _ c] by (auto simp: shutdown_step_def shutdown_actions_def)
  next
    case 3
    then have "(\<exists>s'. client_step ADown s s') \<or> (\<exists>s'. client_step ARecvErr s s')"
      using Down_abort [OF _ c] Down_aborted [of s] Recv_err [of s "Sentinel Canceled" False] s
      by (cases "ss_downOuter s"; cases "ss_down s") (auto simp: shutting_down_def)
    then show ?thesis by (auto simp: shutdown_step_def shutdown_actions_def)
  qed
qed

interpretation teardown: draining shutdown_step shutting_down session_over session_work
proof
  show "shutting_down s \<Longrightarrow> shutdown_step s s' \<Longrightarrow> shutting_down s'" for s s'
    using shutdown_step_inv by (auto simp: shutdown_step_def)
  show "shutting_down s \<Longrightarrow> shutdown_step s s' \<Longrightarrow> session_work s' < session_work s" for s s'
    using shutdown_step_work by (auto simp: shutdown_step_def)
qed (rule shutdown_progress)

section \<open>Properties\<close>

text \<open>A session whose server accepts and whose caller is told, cut short by its context.\<close>

definition ex_forwarder :: forwarder where
  "ex_forwarder = \<lparr>fw_local = [], fw_rejected = False, fw_stats = \<lparr>tx = 0, rx = 0\<rparr>, fw_global = \<lparr>tx = 0, rx = 0\<rparr>\<rparr>"

definition ex_start :: client_session where
  "ex_start = start_session ''a:1'' ex_forwarder (conn_of [])"

definition ex_cancelled :: client_session where
  "ex_cancelled = (receive (accept_message ''l:1'') ex_start)\<lparr>ss_ctxDone := True\<rparr>"

lemma ex_cancelled_reachable: "session_reachable ex_start ex_cancelled"
proof -
  have "client_step ARecv ex_start (receive (accept_message ''l:1'') ex_start)"
    by (rule Recv) (simp add: ex_start_def start_session_def)
  then have "session_reachable ex_start (receive (accept_message ''l:1'') ex_start)"
    by (rule Session_step [OF Session_init])
  then show ?thesis unfolding ex_cancelled_def by (rule Session_step [OF _ Cancelled])
qed

lemma shutdown_reachable: "shutdown_step\<^sup>*\<^sup>* s s' \<Longrightarrow> session_reachable s0 s \<Longrightarrow> session_reachable s0 s'"
  by (induction rule: rtranclp_induct) (auto simp: shutdown_step_def intro: Session_step)

lemma ex_cancelled_down: "ss_ctxDone ex_cancelled" "ss_down ex_cancelled = Receiving"
  by code_simp+

lemma ex_over: "\<exists>s. session_reachable ex_start s \<and> session_over s"
proof -
  have "shutting_down ex_cancelled"
    using session_reachable_inv [OF ex_cancelled_reachable [unfolded ex_start_def]] ex_cancelled_down
    by (simp add: shutting_down_def)
  then show ?thesis using teardown.can_finish shutdown_reachable [OF _ ex_cancelled_reachable] by blast
qed

text \<open>
  C10: A client session never outlives its call. When the three goroutines of \<open>Start\<close> have
  returned, no further step of the session writes to the caller's connection; and the caller
  is told at most one local address, the first one the server announced.
\<close>

theorem session_no_late_write:
  assumes "session_reachable (start_session addr f w) s"
  shows "(session_over s \<longrightarrow> client_step a s s' \<longrightarrow> ss_writer s' = ss_writer s \<and> session_over s') \<and>
    (ss_announced s = [] \<or> (\<exists>l rest. ss_announced s = [l] \<and> ss_accepted s = l # rest))"
proof -
  have inv: "session_inv s" by (rule session_reachable_inv [OF assms])
  have late: "ss_writer s' = ss_writer s \<and> session_over s'" if "session_over s" and "client_step a s s'"
    using that(2,1) inv by (cases rule: client_step.cases) (auto simp: session_over_def session_inv_def)
  have "ss_announced s = [] \<or> (\<exists>l rest. ss_announced s = [l] \<and> ss_accepted s = l # rest)"
    using inv by (cases "ss_ack s") (auto simp: session_inv_def)
  with late show ?thesis by blast
qed

theorem session_no_late_write_witness:
  "\<exists>s. session_over s \<and> (\<nexists>a s'. client_step a s s' \<and> ss_writer s' \<noteq> ss_writer s)"
proof -
  obtain s where s: "session_reachable ex_start s" "session_over s" using ex_over by blast
  show ?thesis using session_no_late_write [OF s(1) [unfolded ex_start_def]] s(2) by blast
qed

text \<open>
  Shutdown of a client session terminates: from every reachable state in which the context has
  ended and the receive goroutine is not passing an address on, at most eight steps of the
  goroutines remain, and the return of \<open>Start\<close> can be reached.
\<close>

lemma session_shutdown_terminates:
  assumes "session_reachable (start_session addr f w) s" and "ss_ctxDone s" and "\<forall>l. ss_down s \<noteq> PassingAddr l"
    and "(shutdown_step ^^ n) s s'"
  shows "n \<le> 8 \<and> (session_over s' \<or> (\<exists>s''. shutdown_step s' s'')) \<and> (\<exists>s''. shutdown_step\<^sup>*\<^sup>* s' s'' \<and> session_over s'')"
proof -
  have "shutting_down s" using assms session_reachable_inv by (auto simp: shutting_down_def)
  then show ?thesis by (rule teardown.drains [OF _ session_work_bound assms(4)])
qed

text \<open>The receive goroutine waits to pass an address on, and the only reader of the channel is gone.\<close>

definition hung :: "client_session \<Rightarrow> bool" where
  "hung s \<longleftrightarrow> (\<exists>l. ss_down s = PassingAddr l) \<and> ss_chan s \<noteq> None \<and> ss_ack s = AckReturned \<and> ss_downOuter s \<noteq> Returned"

lemma hung_step: "client_step a s s' \<Longrightarrow> hung s \<Longrightarrow> hung s'"
  by (induction rule: client_step.induct) (auto simp: hung_def)

definition ex_hung :: client_session where
  "ex_hung = receive (accept_message ''l:2'')
     (group_error (Sentinel ErrServerAckTimeout) ((receive (accept_message ''l:1'') ex_start)\<lparr>ss_ack := AckReturned\<rparr>))"

lemma ex_hung_reachable: "session_reachable ex_start ex_hung"
proof -
  let ?s1 = "receive (accept_message ''l:1'') ex_start"
  let ?s2 = "group_error (Sentinel ErrServerAckTimeout) (?s1\<lparr>ss_ack := AckReturned\<rparr>)"
  have "ss_down ex_start = Receiving" "ss_ack ?s1 = AckWaiting" "ss_down ?s2 = Receiving" by code_simp+
  then have "client_step ARecv ex_start ?s1" "client_step ATimeout ?s1 ?s2" "client_step ARecv ?s2 ex_hung"
    unfolding ex_hung_def by (auto intro: Recv Ack_timeout)
  then show ?thesis by (meson Session_init Session_step)
qed

text \<open>
  C40: A server that announces an address twice can hang the client. The receive goroutine blocks
  on the full channel; when its reader is gone, because the acknowledgement timed out, no
  sequence of steps whatsoever ends the session any more: \<open>Start\<close> waits for the receive
  goroutine for ever, although the context has ended.
\<close>

theorem repeated_accept_hangs:
  assumes "hung s" and "session_reachable s s'"
  shows "\<not> session_over s'"
proof -
  from assms(2,1) have "hung s'" by (induction rule: session_reachable.induct) (auto intro: hung_step)
  then show ?thesis by (simp add: hung_def session_over_def)
qed

theorem repeated_accept_hangs_witness:
  "session_reachable ex_start ex_hung \<and> ss_ctxDone ex_hung \<and> (\<nexists>s. session_reachable ex_hung s \<and> session_over s)"
proof -
  have "ss_down ex_hung = PassingAddr ''l:2''" "ss_chan ex_hung = Some ''l:1''" "ss_ack ex_hung = AckReturned"
    "ss_downOuter ex_hung = Watching" "ss_ctxDone ex_hung" by code_simp+
  moreover from this have "hung ex_hung" by (simp add: hung_def)
  ultimately show ?thesis using ex_hung_reachable repeated_accept_hangs [of ex_hung] by blast
qed

end
