(* ===== verification/ServerSession.thy ===== *)
theory ServerSession
  imports RpcTunnel
begin

text \<open>
  \<open>internal/transport/rpc/server/forwarder.go\<close> and \<open>Server.Proxy\<close> of \<open>server.go\<close>: the handler of
  one proxy stream, with the two goroutines of \<open>Start\<close>, the receive goroutine and the
  watcher they start, the \<open>Ack\<close> channel between them, the target connection and the messages
  sent to the client. The data part of a step is that of the copy functions in \<open>RpcTunnel\<close>.
\<close>

section \<open>State\<close>

datatype sup_pc = Handshaking | UpWatching | UpReturned
datatype inner_pc = NotStarted | InnerRecv | InnerEnded goerror
datatype sdown_pc = WaitAck | Accepting | Reading | DownReturned

text \<open>
  \<open>sv_ack\<close> is the buffered value of \<open>Ack\<close>, \<open>sv_closeOnce\<close> the \<open>closeOnce\<close> of the forwarder,
  \<open>sv_closes\<close> counts the calls of \<open>Conn.Close\<close>, \<open>sv_routes\<close> the routes taken and not closed.
\<close>

record server_session =
  sv_up :: sup_pc
  sv_inner :: inner_pc
  sv_down :: sdown_pc
  sv_ack :: bool
  sv_ackClosed :: bool
  sv_dialed :: bool
  sv_network :: string
  sv_closeOnce :: bool
  sv_closes :: nat
  sv_routes :: nat
  sv_ctxDone :: bool
  sv_group :: "goerror option"
  sv_conn :: conn
  sv_sent :: "ProxyDST list"
  sv_done :: bool

definition NewForwarder :: "conn \<Rightarrow> server_session" where
  "NewForwarder target =
     \<lparr>sv_up = Handshaking, sv_inner = NotStarted, sv_down = WaitAck, sv_ack = False, sv_ackClosed = False,
      sv_dialed = False, sv_network = [], sv_closeOnce = False, sv_closes = 0, sv_routes = 0, sv_ctxDone = False,
      sv_group = None, sv_conn = target, sv_sent = [], sv_done = False\<rparr>"

definition sv_error :: "goerror \<Rightarrow> server_session \<Rightarrow> server_session" where
  "sv_error e s = s\<lparr>sv_group := (case sv_group s of None \<Rightarrow> Some e | Some e0 \<Rightarrow> Some e0), sv_ctxDone := True\<rparr>"

definition Forwarder_Close :: "server_session \<Rightarrow> server_session" where
  "Forwarder_Close s =
     (if sv_closeOnce s then s
      else s\<lparr>sv_closeOnce := True, sv_closes := (if sv_dialed s then Suc (sv_closes s) else sv_closes s)\<rparr>)"

definition sv_tag :: "string \<Rightarrow> goerror \<Rightarrow> goerror" where
  "sv_tag tag e = (if e = Sentinel EOF then e else Wrap tag e)"

text \<open>
  The handshake with what it depends on: the first message, the router and the dialer. A
  status message it sends may be lost (its error is ignored). Routes are numbered handles; one
  that was obtained stays open.
\<close>

definition do_handshake ::
  "transport_settings \<Rightarrow> ProxySRC result \<Rightarrow> (string \<Rightarrow> nat result) \<Rightarrow> (nat \<Rightarrow> string \<Rightarrow> string \<Rightarrow> goerror option)
    \<Rightarrow> bool \<Rightarrow> server_session \<Rightarrow> server_session" where
  "do_handshake ts first getRoute dial lost s =
     (case server_handshake ts first getRoute dial of
        (Inl e, ms) \<Rightarrow>
          sv_error e (s\<lparr>sv_sent := sv_sent s @ (if lost then [] else ms), sv_up := UpReturned, sv_ackClosed := True,
            sv_routes := sv_routes s + length ms\<rparr>)
      | (Inr (network, addr), ms) \<Rightarrow>
          s\<lparr>sv_network := network, sv_dialed := True, sv_ack := True, sv_up := UpWatching, sv_inner := InnerRecv,
            sv_routes := Suc (sv_routes s)\<rparr>)"

definition sv_receive :: "ProxySRC \<Rightarrow> server_session \<Rightarrow> server_session" where
  "sv_receive m s =
     (case copyClientToTarget (sv_network s) m (sv_conn s) of
        (Inl e, c) \<Rightarrow> s\<lparr>sv_conn := c, sv_inner := InnerEnded e\<rparr>
      | (Inr _, c) \<Rightarrow> s\<lparr>sv_conn := c\<rparr>)"

definition sv_copy :: "read_result \<Rightarrow> goerror option \<Rightarrow> server_session \<Rightarrow> server_session" where
  "sv_copy r sendErr s =
     (case copyTargetToClient (sv_network s) sendErr r of
        (ms, None) \<Rightarrow> s\<lparr>sv_sent := sv_sent s @ ms\<rparr>
      | (ms, Some e) \<Rightarrow>
          sv_error (if sv_ctxDone s then Wrap ''download'' (Sentinel Canceled) else sv_tag ''download'' e)
            (s\<lparr>sv_sent := sv_sent s @ ms, sv_down := DownReturned\<rparr>))"

text \<open>
  The end of \<open>Server.Proxy\<close>: a status error with code \<open>Canceled\<close> returns at once, everything
  else sends the closing status, which may be lost; the deferred \<open>Close\<close> runs in either case.
\<close>

definition proxy_end :: "bool \<Rightarrow> bool \<Rightarrow> server_session \<Rightarrow> server_session" where
  "proxy_end canceledStatus lost s =
     (let quiet = (case sv_group s of
              None \<Rightarrow> True | Some e \<Rightarrow> e = Sentinel EOF \<or> errors_Is e Canceled);
          ms = (if \<not> quiet \<and> canceledStatus \<or> lost then [] else [\<lparr>Status = StEOF, Body = DstEmpty\<rparr>])
      in Forwarder_Close (s\<lparr>sv_sent := sv_sent s @ ms, sv_done := True\<rparr>))"

section \<open>Steps\<close>

datatype server_action = SHandshake | SRecv | SRecvErr | SUp | SDown | SAccept | SCopy | SCopyEnd | SWatch | SFinish | SCancel

inductive server_step :: "server_action \<Rightarrow> server_session \<Rightarrow> server_session \<Rightarrow> bool" where
  Handshake: "sv_up s = Handshaking \<Longrightarrow> server_step SHandshake s (do_handshake ts first getRoute dial lost s)"
| SrvRecv: "sv_inner s = InnerRecv \<Longrightarrow> server_step SRecv s (sv_receive m s)"
| SrvRecv_err: "sv_inner s = InnerRecv \<Longrightarrow> server_step SRecvErr s (s\<lparr>sv_inner := InnerEnded e\<rparr>)"
| SrvUp_return: "sv_up s = UpWatching \<Longrightarrow> sv_inner s = InnerEnded e \<Longrightarrow>
    server_step SUp s (sv_error (sv_tag ''upload'' e) (s\<lparr>sv_up := UpReturned, sv_ackClosed := True\<rparr>))"
| SrvUp_abort: "sv_up s = UpWatching \<Longrightarrow> sv_ctxDone s \<Longrightarrow>
    server_step SUp s (sv_error (Wrap ''upload'' (Sentinel Canceled))
      ((Forwarder_Close s)\<lparr>sv_up := UpReturned, sv_ackClosed := True\<rparr>))"
| Acked: "sv_down s = WaitAck \<Longrightarrow> sv_ack s \<Longrightarrow> server_step SDown s (s\<lparr>sv_down := Accepting, sv_ack := False\<rparr>)"
| Not_acked: "sv_down s = WaitAck \<Longrightarrow> \<not> sv_ack s \<Longrightarrow> sv_ackClosed s \<Longrightarrow>
    server_step SDown s (sv_error (Wrap ''download'' (Sentinel ErrTargetACKFailed)) (s\<lparr>sv_down := DownReturned\<rparr>))"
| Ack_ctx: "sv_down s = WaitAck \<Longrightarrow> sv_ctxDone s \<Longrightarrow>
    server_step SDown s (sv_error (Wrap ''download'' (Sentinel Canceled)) (s\<lparr>sv_down := DownReturned\<rparr>))"
| Accept_sent: "sv_down s = Accepting \<Longrightarrow>
    server_step SAccept s (s\<lparr>sv_sent := sv_sent s @ [accept_message local], sv_down := Reading\<rparr>)"
| Accept_failed: "sv_down s = Accepting \<Longrightarrow>
    server_step SAccept s (sv_error (Wrap ''download'' (Wrap ''send accept'' e)) (s\<lparr>sv_down := DownReturned\<rparr>))"
| Copied: "sv_down s = Reading \<Longrightarrow> copyTargetToClient (sv_network s) sendErr r = (ms, None) \<Longrightarrow>
    server_step SCopy s (sv_copy r sendErr s)"
| Copy_ended: "sv_down s = Reading \<Longrightarrow> copyTargetToClient (sv_network s) sendErr r = (ms, Some e) \<Longrightarrow>
    server_step SCopyEnd s (sv_copy r sendErr s)"
| Watcher: "sv_down s = Reading \<Longrightarrow> sv_ctxDone s \<Longrightarrow> server_step SWatch s (Forwarder_Close s)"
| Finish: "sv_up s = UpReturned \<Longrightarrow> sv_down s = DownReturned \<Longrightarrow> \<not> sv_done s \<Longrightarrow>
    server_step SFinish s (proxy_end canceledStatus lost s)"
| SrvCancelled: "server_step SCancel s (s\<lparr>sv_ctxDone := True\<rparr>)"

inductive server_reachable :: "server_session \<Rightarrow> server_session \<Rightarrow> bool" for s0 where
  Server_init: "server_reachable s0 s0"
| Server_step: "server_reachable s0 s \<Longrightarrow> server_step a s s' \<Longrightarrow> server_reachable s0 s'"

section \<open>Invariant\<close>

abbreviation payload_msg :: "bytes \<Rightarrow> ProxyDST" where "payload_msg p \<equiv> \<lparr>Status = Session, Body = DstPayload p\<rparr>"
abbreviation error_msg :: ProxyDST where "error_msg \<equiv> \<lparr>Status = StError, Body = DstEmpty\<rparr>"
abbreviation eof_msg :: ProxyDST where "eof_msg \<equiv> \<lparr>Status = StEOF, Body = DstEmpty\<rparr>"

text \<open>The body of a stream: nothing, one rejection, or one acceptance followed by data.\<close>

definition stream_body :: "bool \<Rightarrow> ProxyDST list \<Rightarrow> bool" where
  "stream_body dialed ms \<longleftrightarrow> ms = [] \<or>
     (if dialed then \<exists>l ps. ms = accept_message l # map payload_msg ps else ms = [error_msg])"

definition accepted_body :: "ProxyDST list \<Rightarrow> bool" where
  "accepted_body ms \<longleftrightarrow> (\<exists>l ps. ms = accept_message l # map payload_msg ps)"

definition stream_ok :: "bool \<Rightarrow> sdown_pc \<Rightarrow> bool \<Rightarrow> ProxyDST list \<Rightarrow> bool" where
  "stream_ok dialed down fin ms \<longleftrightarrow>
     (if fin then \<exists>b. stream_body dialed b \<and> (ms = b \<or> ms = b @ [eof_msg]) else stream_body dialed ms) \<and>
     (dialed \<and> down \<in> {WaitAck, Accepting} \<longrightarrow> ms = []) \<and> (down = Reading \<longrightarrow> accepted_body ms)"

definition server_inv :: "server_session \<Rightarrow> bool" where
  "server_inv s \<longleftrightarrow>
     (sv_up s = Handshaking \<longrightarrow> \<not> sv_dialed s \<and> \<not> sv_ack s \<and> sv_inner s = NotStarted \<and> sv_sent s = [] \<and>
        \<not> sv_closeOnce s \<and> sv_routes s = 0) \<and>
     (sv_up s = UpWatching \<longrightarrow> sv_dialed s) \<and>
     (sv_ack s \<or> sv_down s = Accepting \<or> sv_down s = Reading \<longrightarrow> sv_dialed s) \<and>
     (sv_done s \<longrightarrow> sv_up s = UpReturned \<and> sv_down s = DownReturned \<and> sv_closeOnce s) \<and>
     sv_closes s = (if sv_closeOnce s \<and> sv_dialed s then 1 else 0) \<and>
     (sv_dialed s \<longrightarrow> sv_routes s = 1) \<and>
     (sv_up s = UpReturned \<longrightarrow> sv_ackClosed s) \<and>
     (sv_down s = DownReturned \<or> sv_up s = UpReturned \<longrightarrow> sv_ctxDone s) \<and>
     stream_ok (sv_dialed s) (sv_down s) (sv_done s) (sv_sent s)"

lemma sv_error_fields [simp]:
  "sv_up (sv_error e s) = sv_up s" "sv_inner (sv_error e s) = sv_inner s" "sv_down (sv_error e s) = sv_down s"
  "sv_ack (sv_error e s) = sv_ack s" "sv_ackClosed (sv_error e s) = sv_ackClosed s"
  "sv_dialed (sv_error e s) = sv_dialed s" "sv_closeOnce (sv_error e s) = sv_closeOnce s"
  "sv_closes (sv_error e s) = sv_closes s" "sv_routes (sv_error e s) = sv_routes s" "sv_ctxDone (sv_error e s)"
  "sv_sent (sv_error e s) = sv_sent s" "sv_done (sv_error e s) = sv_done s" "sv_conn (sv_error e s) = sv_conn s"
  by (simp_all add: sv_error_def)

lemma Forwarder_Close_fields [simp]:
  "sv_up (Forwarder_Close s) = sv_up s" "sv_inner (Forwarder_Close s) = sv_inner s"
  "sv_down (Forwarder_Close s) = sv_down s" "sv_ack (Forwarder_Close s) = sv_ack s"
  "sv_ackClosed (Forwarder_Close s) = sv_ackClosed s" "sv_dialed (Forwarder_Close s) = sv_dialed s"
  "sv_routes (Forwarder_Close s) = sv_routes s" "sv_ctxDone (Forwarder_Close s) = sv_ctxDone s"
  "sv_sent (Forwarder_Close s) = sv_sent s" "sv_done (Forwarder_Close s) = sv_done s" "sv_closeOnce (Forwarder_Close s)"
  by (simp_all add: Forwarder_Close_def)

lemma Forwarder_Close_closes:
  "sv_closes s = (if sv_closeOnce s \<and> sv_dialed s then 1 else 0) \<Longrightarrow>
   sv_closes (Forwarder_Close s) = (if sv_dialed s then 1 else 0)"
  by (simp add: Forwarder_Close_def)

lemma handshake_messages:
  assumes "server_handshake ts first getRoute dial = (r, ms)"
  shows "(\<forall>x. r = Inr x \<longrightarrow> ms = []) \<and> (ms = [] \<or> ms = [error_msg])"
  using assms by (auto simp: server_handshake_def Let_def split: sum.splits ProxySRC.splits option.splits prod.splits)

lemma copyTargetToClient_messages:
  assumes "copyTargetToClient network sendErr r = (ms, e)"
  shows "\<exists>ps. ms = map payload_msg ps"
proof -
  obtain b err where r: "r = (b, err)" by force
  have c: "(if b \<noteq> [] \<or> (err = None \<and> isUDPNetwork network)
      then case sendErr of Some e \<Rightarrow> ([], Some e) | None \<Rightarrow> ([payload_msg b], err) else ([], err)) = (ms, e)"
    using assms unfolding copyTargetToClient_def r Let_def by simp
  have "ms = map payload_msg [] \<or> ms = map payload_msg [b]"
    using c by (cases "b \<noteq> [] \<or> (err = None \<and> isUDPNetwork network)"; cases sendErr) (simp_all only: if_True if_False option.case, simp_all)
  then show ?thesis by blast
qed

lemma server_inv_init: "server_inv (NewForwarder c)"
  by (simp add: server_inv_def NewForwarder_def stream_ok_def stream_body_def)

lemma server_inv_handshake:
  assumes "server_inv s" and "sv_up s = Handshaking"
  shows "server_inv (do_handshake ts first getRoute dial lost s)"
proof -
  obtain r ms where h: "server_handshake ts first getRoute dial = (r, ms)" by force
  have f: "\<not> sv_done s" "\<not> sv_dialed s" "sv_down s \<noteq> Accepting" "sv_down s \<noteq> Reading" "sv_sent s = []"
      "sv_routes s = 0" "sv_closes s = 0" "\<not> sv_closeOnce s"
    using assms by (auto simp: server_inv_def)
  show ?thesis
  proof (cases r)
    case (Inl e)
    have "stream_ok False (sv_down s) False (if lost then [] else ms)"
      using f handshake_messages [OF h] by (auto simp: stream_ok_def stream_body_def)
    with f assms Inl show ?thesis by (simp add: do_handshake_def h server_inv_def)
  next
    case (Inr x)
    have "stream_ok True (sv_down s) False []" using f by (simp add: stream_ok_def stream_body_def)
    with f assms Inr show ?thesis by (cases x) (simp add: do_handshake_def h server_inv_def)
  qed
qed

lemma accepted_append: "accepted_body ms \<Longrightarrow> accepted_body (ms @ map payload_msg ps)"
  unfolding accepted_body_def by (metis append_Cons map_append)

lemma stream_ok_Reading:
  "stream_ok dialed Reading False ms \<Longrightarrow> dialed \<Longrightarrow>
   stream_ok dialed Reading False (ms @ map payload_msg ps) \<and> stream_ok dialed DownReturned False (ms @ map payload_msg ps)"
  using accepted_append [of ms ps] by (auto simp: stream_ok_def stream_body_def accepted_body_def)

lemma server_inv_copy:
  assumes "server_inv s" and d: "sv_down s = Reading"
  shows "server_inv (sv_copy r sendErr s)"
proof -
  obtain ms e where c: "copyTargetToClient (sv_network s) sendErr r = (ms, e)" by force
  then obtain ps where ms: "ms = map payload_msg ps" using copyTargetToClient_messages by blast
  have f: "\<not> sv_done s" "sv_dialed s" "sv_up s \<noteq> Handshaking" using assms by (auto simp: server_inv_def)
  have "stream_ok True Reading False (sv_sent s)" using assms f by (simp add: server_inv_def)
  from stream_ok_Reading [OF this TrueI, of ps] assms f show ?thesis
    by (cases e) (auto simp: sv_copy_def c ms server_inv_def)
qed

lemma server_inv_finish:
  assumes "server_inv s" and "sv_up s = UpReturned" and "sv_down s = DownReturned" and "\<not> sv_done s"
  shows "server_inv (proxy_end canceledStatus lost s)"
proof -
  have c: "sv_closes (Forwarder_Close t) = (if sv_dialed t then 1 else 0)"
    if "sv_closes t = sv_closes s" "sv_closeOnce t = sv_closeOnce s" "sv_dialed t = sv_dialed s" for t
    using assms(1) that Forwarder_Close_closes [of t] by (simp add: server_inv_def)
  have "stream_body (sv_dialed s) (sv_sent s)" using assms by (simp add: server_inv_def stream_ok_def)
  then show ?thesis using assms by (simp add: proxy_end_def server_inv_def stream_ok_def Let_def c) blast
qed

lemma stream_ok_stop: "stream_ok d down f ms \<Longrightarrow> stream_ok d DownReturned f ms"
  by (simp add: stream_ok_def)

lemma stream_ok_WaitAck: "stream_ok d WaitAck f ms \<Longrightarrow> stream_ok d Accepting f ms"
  by (simp add: stream_ok_def)

text \<open>A goroutine that returns an error keeps the invariant.\<close>

lemma server_inv_down_error:
  assumes "server_inv s" and "sv_down s \<noteq> DownReturned"
  shows "server_inv (sv_error e (s\<lparr>sv_down := DownReturned\<rparr>))"
  using assms stream_ok_stop [of "sv_dialed s" "sv_down s" "sv_done s" "sv_sent s"] by (auto simp: server_inv_def)

lemma server_inv_up_error:
  assumes "server_inv s" and "sv_up s = UpWatching"
  shows "server_inv (sv_error e (s\<lparr>sv_up := UpReturned, sv_ackClosed := True\<rparr>))"
  using assms by (auto simp: server_inv_def)

lemma server_inv_Close:
  assumes "server_inv s" and "sv_up s \<noteq> Handshaking"
  shows "server_inv (Forwarder_Close s)"
  using assms Forwarder_Close_closes [of s] by (auto simp: server_inv_def)

lemma server_inv_step: "server_step a s s' \<Longrightarrow> server_inv s \<Longrightarrow> server_inv s'"
proof (induction rule: server_step.induct)
  case (Handshake s ts first getRoute dial lost)
  then show ?case by (simp add: server_inv_handshake)
next
  case (SrvRecv s m)
  then show ?case
    by (cases "copyClientToTarget (sv_network s) m (sv_conn s)"; cases "fst (copyClientToTarget (sv_network s) m (sv_conn s))")
      (auto simp: sv_receive_def server_inv_def)
next
  case (SrvRecv_err s e)
  then show ?case by (auto simp: server_inv_def)
next
  case (SrvUp_return s e)
  then show ?case by (simp add: server_inv_up_error)
next
  case (SrvUp_abort s)
  then show ?case using server_inv_Close [of s] by (auto intro: server_inv_up_error)
next
  case (Acked s)
  then show ?case using stream_ok_WaitAck by (auto simp: server_inv_def)
next
  case (Accept_sent s l)
  then have "sv_sent s = []" "sv_dialed s" "\<not> sv_done s" by (auto simp: server_inv_def stream_ok_def)
  moreover have "accepted_body [accept_message l]" unfolding accepted_body_def by (metis list.simps(8))
  ultimately have "stream_ok True Reading False [accept_message l]"
    by (simp add: stream_ok_def stream_body_def accepted_body_def)
  with \<open>sv_sent s = []\<close> \<open>sv_dialed s\<close> \<open>\<not> sv_done s\<close> Accept_sent show ?case by (simp add: server_inv_def)
next
  case (Watcher s)
  then have "sv_up s \<noteq> Handshaking" by (auto simp: server_inv_def)
  with Watcher show ?case by (simp add: server_inv_Close)
next
  case (Finish s canceledStatus lost)
  then show ?case by (simp add: server_inv_finish)
next
  case (SrvCancelled s)
  then show ?case by (simp add: server_inv_def)
qed (simp_all add: server_inv_copy server_inv_down_error)

lemma server_reachable_inv: "server_reachable (NewForwarder c) s \<Longrightarrow> server_inv s"
  by (induction rule: server_reachable.induct) (auto simp: server_inv_init intro: server_inv_step)

lemma server_sent_shape:
  assumes "server_reachable (NewForwarder c) s"
  shows "\<exists>body tail. sv_sent s = body @ tail \<and> (tail = [] \<or> tail = [eof_msg] \<and> sv_done s) \<and>
    (body = [] \<or> body = [error_msg] \<and> \<not> sv_dialed s \<or>
     sv_dialed s \<and> (\<exists>l ps. body = accept_message l # map payload_msg ps))"
proof -
  have "stream_ok (sv_dialed s) (sv_down s) (sv_done s) (sv_sent s)"
    using server_reachable_inv [OF assms] by (simp add: server_inv_def)
  then obtain b where b: "stream_body (sv_dialed s) b"
    "sv_sent s = b @ [] \<or> sv_sent s = b @ [eof_msg] \<and> sv_done s"
    by (auto simp: stream_ok_def split: if_splits)
  from b(1) have "b = [] \<or> b = [error_msg] \<and> \<not> sv_dialed s \<or>
     sv_dialed s \<and> (\<exists>l ps. b = accept_message l # map payload_msg ps)"
    by (auto simp: stream_body_def split: if_splits)
  with b(2) show ?thesis by blast
qed

section \<open>Teardown\<close>

text \<open>
  Once the group's context has ended: the handshake, if still running, fails or succeeds; the
  watcher closes the target connection, which is what ends a blocked read; the goroutines
  notice and the handler returns. A second close changes nothing and is not counted.
\<close>

definition server_teardown_step :: "server_session \<Rightarrow> server_session \<Rightarrow> bool" where
  "server_teardown_step s s' \<longleftrightarrow>
     (\<exists>a \<in> {SHandshake, SUp, SDown, SAccept, SCopyEnd, SWatch, SFinish}.
        server_step a s s' \<and> (a = SCopyEnd \<longrightarrow> sv_closeOnce s)) \<and> s' \<noteq> s"

definition server_tearing_down :: "server_session \<Rightarrow> bool" where
  "server_tearing_down s \<longleftrightarrow> server_inv s \<and> sv_ctxDone s"

fun sup_work :: "sup_pc \<Rightarrow> nat" where
  "sup_work Handshaking = 2" | "sup_work UpWatching = 1" | "sup_work UpReturned = 0"

fun sdown_work :: "sdown_pc \<Rightarrow> nat" where
  "sdown_work WaitAck = 3" | "sdown_work Accepting = 2" | "sdown_work Reading = 1" | "sdown_work DownReturned = 0"

definition server_work :: "server_session \<Rightarrow> nat" where
  "server_work s = sup_work (sv_up s) + sdown_work (sv_down s) + of_bool (\<not> sv_closeOnce s) + of_bool (\<not> sv_done s)"

lemma server_work_bound: "server_work s \<le> 7"
  unfolding server_work_def by (cases "sv_up s"; cases "sv_down s") simp_all

lemma do_handshake_work: "sv_up s = Handshaking \<Longrightarrow> server_work (do_handshake ts first getRoute dial lost s) < server_work s"
  unfolding do_handshake_def server_work_def by (simp split: prod.split sum.split)

lemma do_handshake_ctxDone: "sv_ctxDone s \<Longrightarrow> sv_ctxDone (do_handshake ts first getRoute dial lost s)"
  unfolding do_handshake_def by (simp split: prod.split sum.split)

lemma sv_copy_ended:
  assumes "copyTargetToClient (sv_network s) sendErr r = (ms, Some e)"
  shows "sv_down (sv_copy r sendErr s) = DownReturned" "sv_ctxDone (sv_copy r sendErr s)"
    "sv_up (sv_copy r sendErr s) = sv_up s" "sv_closeOnce (sv_copy r sendErr s) = sv_closeOnce s"
    "sv_done (sv_copy r sendErr s) = sv_done s"
  using assms by (simp_all add: sv_copy_def)

lemma proxy_end_fields [simp]:
  "sv_up (proxy_end c lost s) = sv_up s" "sv_down (proxy_end c lost s) = sv_down s"
  "sv_closeOnce (proxy_end c lost s)" "sv_done (proxy_end c lost s)" "sv_ctxDone (proxy_end c lost s) = sv_ctxDone s"
  by (simp_all add: proxy_end_def Let_def)

lemma server_step_ctxDone: "server_step a s s' \<Longrightarrow> sv_ctxDone s \<Longrightarrow> sv_ctxDone s'"
  by (induction rule: server_step.induct)
    (simp_all add: do_handshake_ctxDone sv_receive_def sv_copy_def split: prod.split sum.split option.split)

lemma server_step_work:
  "server_step a s s' \<Longrightarrow> a \<notin> {SRecv, SRecvErr, SCopy, SCancel} \<Longrightarrow> s' \<noteq> s \<Longrightarrow> server_work s' < server_work s"
proof (induction rule: server_step.induct)
  case (Watcher s)
  then show ?case by (auto simp: server_work_def Forwarder_Close_def split: if_splits)
next
  case (Handshake s ts first getRoute dial lost)
  then show ?case by (simp add: do_handshake_work)
next
  case (SrvUp_abort s)
  then show ?case by (simp add: server_work_def)
qed (simp_all add: server_work_def sv_copy_ended)

lemma teardown_stepI:
  "server_step a s s' \<Longrightarrow> a \<in> {SHandshake, SUp, SDown, SAccept, SWatch, SFinish} \<or> a = SCopyEnd \<and> sv_closeOnce s \<Longrightarrow>
   server_work s' < server_work s \<Longrightarrow> \<exists>s'. server_teardown_step s s'"
  unfolding server_teardown_step_def by blast

lemma server_up_progress:
  assumes "sv_ctxDone s" and "sv_up s \<noteq> UpReturned"
  shows "\<exists>s'. server_teardown_step s s'"
proof (cases "sv_up s")
  case Handshaking
  show ?thesis
    by (rule teardown_stepI [OF server_step.Handshake [OF Handshaking] _ do_handshake_work [OF Handshaking]]) simp
next
  case UpWatching
  show ?thesis
    by (rule teardown_stepI [OF SrvUp_abort [OF UpWatching assms(1)]]) (simp_all add: server_work_def UpWatching)
qed (use assms in simp)

lemma server_down_progress:
  assumes c: "sv_ctxDone s" and "sv_down s \<noteq> DownReturned"
  shows "\<exists>s'. server_teardown_step s s'"
proof (cases "sv_down s")
  case WaitAck
  show ?thesis by (rule teardown_stepI [OF Ack_ctx [OF WaitAck c]]) (simp_all add: server_work_def WaitAck)
next
  case Accepting
  show ?thesis by (rule teardown_stepI [OF Accept_failed [OF Accepting]]) (simp_all add: server_work_def Accepting)
next
  case Reading
  show ?thesis
  proof (cases "sv_closeOnce s")
    case True
    have e: "copyTargetToClient (sv_network s) None ([], Some (Sentinel NetErrClosed)) = ([], Some (Sentinel NetErrClosed))"
      by (simp add: copyTargetToClient_def)
    show ?thesis
      by (rule teardown_stepI [OF Copy_ended [OF Reading e]]) (simp_all add: server_work_def Reading True sv_copy_ended [OF e])
  next
    case False
    show ?thesis by (rule teardown_stepI [OF Watcher [OF Reading c]]) (simp_all add: server_work_def False)
  qed
qed (use assms in simp)

lemma server_teardown_progress:
  assumes "server_tearing_down s" and "\<not> sv_done s"
  shows "\<exists>s'. server_teardown_step s s'"
proof (cases "sv_up s = UpReturned \<and> sv_down s = DownReturned")
  case True
  show ?thesis
    by (rule teardown_stepI [OF Finish [of s False False]]) (use True assms in \<open>simp_all add: server_work_def\<close>)
next
  case False
  then show ?thesis using assms server_up_progress server_down_progress by (auto simp: server_tearing_down_def)
qed

interpretation server_teardown: draining server_teardown_step server_tearing_down sv_done server_work
proof
  show "server_tearing_down s \<Longrightarrow> server_teardown_step s s' \<Longrightarrow> server_tearing_down s'" for s s'
    using server_inv_step server_step_ctxDone by (auto simp: server_teardown_step_def server_tearing_down_def)
  show "server_tearing_down s \<Longrightarrow> server_teardown_step s s' \<Longrightarrow> server_work s' < server_work s" for s s'
    using server_step_work unfolding server_teardown_step_def by blast
qed (rule server_teardown_progress)

section \<open>Properties\<close>

text \<open>A stream that is accepted, carries one chunk and is cut short by the client.\<close>

definition ex_accepted :: server_session where
  "ex_accepted =
     (let s1 = do_handshake init_settings (Inr (SrcHeader ''h:1'' TCP)) (\<lambda>_. Inr 0) (\<lambda>_ _ _. None) False
                 (NewForwarder (conn_of []));
          s2 = s1\<lparr>sv_down := Accepting, sv_ack := False\<rparr>;
          s3 = s2\<lparr>sv_sent := sv_sent s2 @ [accept_message ''l:1''], sv_down := Reading\<rparr>
      in (sv_copy ([7], None) None s3)\<lparr>sv_ctxDone := True\<rparr>)"

lemma ex_accepted_reachable: "server_reachable (NewForwarder (conn_of [])) ex_accepted"
proof -
  let ?s0 = "NewForwarder (conn_of [])"
  let ?s1 = "do_handshake init_settings (Inr (SrcHeader ''h:1'' TCP)) (\<lambda>_. Inr 0) (\<lambda>_ _ _. None) False ?s0"
  let ?s2 = "?s1\<lparr>sv_down := Accepting, sv_ack := False\<rparr>"
  let ?s3 = "?s2\<lparr>sv_sent := sv_sent ?s2 @ [accept_message ''l:1''], sv_down := Reading\<rparr>"
  have p: "sv_up ?s0 = Handshaking" "sv_down ?s1 = WaitAck" "sv_ack ?s1" "sv_down ?s2 = Accepting" "sv_down ?s3 = Reading"
    "copyTargetToClient (sv_network ?s3) None ([7], None) = ([payload_msg [7]], None)"
    by code_simp+
  note server_step.Handshake [OF p(1)] and Acked [OF p(2,3)] and Accept_sent [OF p(4)] and Copied [OF p(5,6)]
  moreover have "server_step SCancel (sv_copy ([7], None) None ?s3) ex_accepted"
    unfolding ex_accepted_def Let_def by (rule SrvCancelled)
  ultimately show ?thesis by (meson Server_init Server_step)
qed

text \<open>
  C9: The messages of a stream follow the protocol of \<open>api.proto\<close>, whatever the client, the target
  and the scheduler do: nothing, or a single error status, or a single acceptance followed by
  payloads only; an end-of-stream status comes last and only when the handler returns, and an
  acceptance is only ever sent for a target that was dialed.
\<close>

theorem server_stream_protocol:
  assumes "server_reachable (NewForwarder c) s"
  shows "\<exists>body tail. sv_sent s = body @ tail \<and> (tail = [] \<or> tail = [eof_msg] \<and> sv_done s) \<and>
    (body = [] \<or> body = [error_msg] \<and> \<not> sv_dialed s \<or>
     sv_dialed s \<and> (\<exists>l ps. body = accept_message l # map payload_msg ps))"
  by (rule server_sent_shape [OF assms])

theorem server_stream_protocol_witness:
  "sv_sent ex_accepted = [accept_message ''l:1'', payload_msg [7]] \<and> sv_dialed ex_accepted \<and>
   (\<exists>l ps. sv_sent ex_accepted = accept_message l # map payload_msg ps)"
proof -
  have e: "sv_sent ex_accepted = [accept_message ''l:1'', payload_msg [7]]" "sv_dialed ex_accepted" "\<not> sv_done ex_accepted"
    by code_simp+
  with server_stream_protocol [OF ex_accepted_reachable] show ?thesis by auto
qed

text \<open>
  Shutdown of a server stream terminates. From every reachable state in which the group's
  context has ended at most seven steps of its goroutines remain, a schedule that cannot be
  continued has returned from \<open>Server.Proxy\<close>, and one can always be continued to it.
\<close>

theorem server_shutdown_terminates:
  assumes "server_reachable (NewForwarder c) s" and "sv_ctxDone s" and "(server_teardown_step ^^ n) s s'"
  shows "n \<le> 7 \<and> (sv_done s' \<or> (\<exists>s''. server_teardown_step s' s'')) \<and>
    (\<exists>s''. server_teardown_step\<^sup>*\<^sup>* s' s'' \<and> sv_done s'')"
proof -
  have "server_tearing_down s" using assms server_reachable_inv by (simp add: server_tearing_down_def)
  then show ?thesis by (rule server_teardown.drains [OF _ server_work_bound assms(3)])
qed

lemma ex_accepted_ctxDone: "sv_ctxDone ex_accepted" "sv_dialed ex_accepted"
  by code_simp+

theorem server_shutdown_terminates_witness:
  "\<exists>s. server_teardown_step\<^sup>*\<^sup>* ex_accepted s \<and> sv_done s"
  using server_shutdown_terminates [OF ex_accepted_reachable ex_accepted_ctxDone(1), of 0 ex_accepted] by simp

lemma server_step_dialed: "server_step a s s' \<Longrightarrow> sv_dialed s \<Longrightarrow> sv_dialed s'"
  by (induction rule: server_step.induct)
    (simp_all add: do_handshake_def sv_receive_def sv_copy_def proxy_end_def Let_def split: prod.split sum.split option.split)

lemma teardown_reachable:
  "server_teardown_step\<^sup>*\<^sup>* s s' \<Longrightarrow> server_reachable s0 s \<Longrightarrow> sv_dialed s \<Longrightarrow> server_reachable s0 s' \<and> sv_dialed s'"
  by (induction rule: rtranclp_induct) (auto simp: server_teardown_step_def dest: server_step_dialed intro: Server_step)

text \<open>
  Resources of a server stream. The target connection is never closed twice and, once the
  handler of a dialed stream has returned, was closed exactly once; the route object obtained
  for the stream is never closed, neither before nor after the handler's return.
\<close>

theorem server_session_resources:
  assumes "server_reachable (NewForwarder c) s"
  shows "sv_closes s \<le> 1 \<and> (sv_done s \<and> sv_dialed s \<longrightarrow> sv_closes s = 1) \<and> (sv_dialed s \<longrightarrow> sv_routes s = 1)"
  using server_reachable_inv [OF assms] by (auto simp: server_inv_def)

theorem server_session_resources_witness:
  "\<exists>s :: server_session. sv_done s \<and> sv_closes s = 1 \<and> sv_routes s = 1"
proof -
  have "server_tearing_down ex_accepted"
    using server_reachable_inv [OF ex_accepted_reachable] ex_accepted_ctxDone by (simp add: server_tearing_down_def)
  then obtain s where s: "server_teardown_step\<^sup>*\<^sup>* ex_accepted s" "sv_done s" using server_teardown.can_finish by blast
  then have "server_reachable (NewForwarder (conn_of [])) s" "sv_dialed s"
    using teardown_reachable [OF _ ex_accepted_reachable ex_accepted_ctxDone(2)] by auto
  with server_session_resources [of "conn_of []" s] s(2) show ?thesis by blast
qed

end
