(* ===== verification/Tunnel.thy ===== *)
theory Tunnel
  imports ClientSession ServerSession "HOL-Library.Sublist"
begin

text \<open>
  The two ends of one proxy stream together: a client session (\<open>rpc/client/forwarder.go\<close>, called
  from \<open>Client.Proxy\<close>) and the handler of its stream (\<open>rpc/server/forwarder.go\<close>, called from
  \<open>Server.Proxy\<close>), with the messages that are on their way between them. gRPC delivers the
  messages of a stream in order and each at most once; a receive may fail at any time. The
  steps are those of the two components, synchronised on the messages, in every
  interleaving.
\<close>

section \<open>State and steps\<close>

text \<open>
  \<open>tn_up\<close> and \<open>tn_down\<close> are the messages in flight, \<open>tn_read\<close> records the bytes the client read from
  its caller and \<open>tn_fetched\<close> those the server read from the target.
\<close>

record tunnel =
  tn_client :: client_session
  tn_server :: server_session
  tn_up :: "ProxySRC list"
  tn_down :: "ProxyDST list"
  tn_read :: bytes
  tn_fetched :: bytes

definition tunnel_start :: "string \<Rightarrow> forwarder \<Rightarrow> conn \<Rightarrow> conn \<Rightarrow> tunnel" where
  "tunnel_start addr f w c =
     \<lparr>tn_client = start_session addr f w, tn_server = NewForwarder c, tn_up = [SrcHeader addr TCP], tn_down = [],
      tn_read = [], tn_fetched = []\<rparr>"

text \<open>One end moves; what it sent is in flight from then on.\<close>

definition client_moves :: "client_session \<Rightarrow> tunnel \<Rightarrow> tunnel" where
  "client_moves s T = T\<lparr>tn_client := s, tn_up := tn_up T @ drop (length (ss_out (tn_client T))) (ss_out s)\<rparr>"

definition server_moves :: "server_session \<Rightarrow> tunnel \<Rightarrow> tunnel" where
  "server_moves t T = T\<lparr>tn_server := t, tn_down := tn_down T @ drop (length (sv_sent (tn_server T))) (sv_sent t)\<rparr>"

datatype tunnel_action = AtClient client_action | AtServer server_action

inductive tunnel_step :: "tunnel_action \<Rightarrow> tunnel \<Rightarrow> tunnel \<Rightarrow> bool" where
  Tn_client: "client_step a (tn_client T) s \<Longrightarrow> a \<notin> {ARecv, AUpload} \<Longrightarrow>
    tunnel_step (AtClient a) T (client_moves s T)"
| Tn_upload: "ss_up (tn_client T) = Uploading \<Longrightarrow>
    tunnel_step (AtClient AUpload) T ((client_moves (upload r sendErr (tn_client T)) T)\<lparr>tn_read := tn_read T @ fst r\<rparr>)"
| Tn_recv: "ss_down (tn_client T) = Receiving \<Longrightarrow> tn_down T = m # ms \<Longrightarrow>
    tunnel_step (AtClient ARecv) T (client_moves (receive m (tn_client T)) (T\<lparr>tn_down := ms\<rparr>))"
| Tn_server: "server_step a (tn_server T) t \<Longrightarrow> a \<notin> {SHandshake, SRecv, SCopy, SCopyEnd} \<Longrightarrow>
    tunnel_step (AtServer a) T (server_moves t T)"
| Tn_copy: "sv_down (tn_server T) = Reading \<Longrightarrow>
    copyTargetToClient (sv_network (tn_server T)) sendErr r = (ms, e) \<Longrightarrow>
    tunnel_step (AtServer (if e = None then SCopy else SCopyEnd)) T
      ((server_moves (sv_copy r sendErr (tn_server T)) T)\<lparr>tn_fetched := tn_fetched T @ fst r\<rparr>)"
| Tn_handshake: "sv_up (tn_server T) = Handshaking \<Longrightarrow> tn_up T = m # ms \<Longrightarrow>
    tunnel_step (AtServer SHandshake) T
      (server_moves (do_handshake ts (Inr m) getRoute dial lost (tn_server T)) (T\<lparr>tn_up := ms\<rparr>))"
| Tn_handshake_err: "sv_up (tn_server T) = Handshaking \<Longrightarrow>
    tunnel_step (AtServer SHandshake) T (server_moves (do_handshake ts (Inl e) getRoute dial lost (tn_server T)) T)"
| Tn_srv_recv: "sv_inner (tn_server T) = InnerRecv \<Longrightarrow> tn_up T = m # ms \<Longrightarrow>
    tunnel_step (AtServer SRecv) T (server_moves (sv_receive m (tn_server T)) (T\<lparr>tn_up := ms\<rparr>))"

inductive tunnel_reachable :: "tunnel \<Rightarrow> tunnel \<Rightarrow> bool" for T0 where
  Tunnel_init: "tunnel_reachable T0 T0"
| Tunnel_step: "tunnel_reachable T0 T \<Longrightarrow> tunnel_step a T T' \<Longrightarrow> tunnel_reachable T0 T'"

section \<open>The two ends of a run\<close>

lemma moves_fields [simp]:
  "tn_client (client_moves s T) = s" "tn_server (client_moves s T) = tn_server T" "tn_down (client_moves s T) = tn_down T"
  "tn_read (client_moves s T) = tn_read T" "tn_fetched (client_moves s T) = tn_fetched T"
  "tn_server (server_moves t T) = t" "tn_client (server_moves t T) = tn_client T" "tn_up (server_moves t T) = tn_up T"
  "tn_read (server_moves t T) = tn_read T" "tn_fetched (server_moves t T) = tn_fetched T"
  by (simp_all add: client_moves_def server_moves_def)

lemma client_moves_up: "ss_out s = ss_out (tn_client T) @ ms \<Longrightarrow> tn_up (client_moves s T) = tn_up T @ ms"
  by (simp add: client_moves_def)

lemma server_moves_down: "sv_sent t = sv_sent (tn_server T) @ ms \<Longrightarrow> tn_down (server_moves t T) = tn_down T @ ms"
  by (simp add: server_moves_def)

text \<open>Every step of the tunnel is a step of one end, and the other end does not move.\<close>

lemma tunnel_step_ends:
  assumes "tunnel_step a T T'"
  shows "(\<exists>b. a = AtClient b \<and> client_step b (tn_client T) (tn_client T') \<and> tn_server T' = tn_server T) \<or>
    (\<exists>b. a = AtServer b \<and> server_step b (tn_server T) (tn_server T') \<and> tn_client T' = tn_client T)"
  using assms
proof (cases rule: tunnel_step.cases)
  case (Tn_copy sendErr r ms e)
  then show ?thesis by (cases e) (auto intro: Copied Copy_ended)
qed (auto intro: Up Recv server_step.Handshake SrvRecv)

lemma tunnel_reachable_ends:
  assumes "tunnel_reachable (tunnel_start addr f w c) T"
  shows "session_reachable (start_session addr f w) (tn_client T) \<and> server_reachable (NewForwarder c) (tn_server T)"
  using assms
proof (induction rule: tunnel_reachable.induct)
  case Tunnel_init
  show ?case by (simp add: tunnel_start_def Session_init Server_init)
next
  case (Tunnel_step T a T')
  then show ?case using tunnel_step_ends by (metis Session_step Server_step)
qed

lemma tunnel_reachable_inv:
  assumes "tunnel_reachable (tunnel_start addr f w c) T"
  shows "session_inv (tn_client T)" "received_inv (tn_client T)" "server_inv (tn_server T)"
  using tunnel_reachable_ends [OF assms] session_reachable_inv session_reachable_received server_reachable_inv by blast+

section \<open>Bytes in flight\<close>

fun src_bytes :: "ProxySRC list \<Rightarrow> bytes" where
  "src_bytes [] = []"
| "src_bytes (SrcPayload p # ms) = p @ src_bytes ms"
| "src_bytes (m # ms) = src_bytes ms"

definition dst_chunk :: "ProxyDST \<Rightarrow> bytes" where
  "dst_chunk m = (case (Status m, Body m) of (Session, DstPayload p) \<Rightarrow> p | _ \<Rightarrow> [])"

definition dst_bytes :: "ProxyDST list \<Rightarrow> bytes" where
  "dst_bytes ms = concat (map dst_chunk ms)"

lemma src_bytes_append [simp]: "src_bytes (ms @ ms') = src_bytes ms @ src_bytes ms'"
  by (induction ms rule: src_bytes.induct) simp_all

lemma dst_bytes_simps [simp]:
  "dst_bytes [] = []" "dst_bytes (m # ms) = dst_chunk m @ dst_bytes ms" "dst_bytes (ms @ ms') = dst_bytes ms @ dst_bytes ms'"
  by (simp_all add: dst_bytes_def)

lemma dst_chunk_simps [simp]:
  "dst_chunk (payload_msg p) = p" "dst_chunk error_msg = []" "dst_chunk eof_msg = []" "dst_chunk (accept_message l) = []"
  by (simp_all add: dst_chunk_def accept_message_def)

section \<open>What a step does to the data\<close>

lemma client_step_quiet:
  assumes "client_step a s s'" and "a \<notin> {ARecv, AUpload}"
  shows "ss_out s' = ss_out s" "ss_received s' = ss_received s" "ss_writer s' = ss_writer s" "ss_up s' = ss_up s"
    "ss_down s = DownEnded e \<Longrightarrow> ss_down s' = DownEnded e"
  using assms by (cases rule: client_step.cases; simp add: recv_failed_def)+

lemma upload_out: "ss_out (upload r sendErr s) = ss_out s @ fst (copySRCtoTarget r sendErr)"
  by (simp add: upload_def split: prod.split option.split)

lemma upload_bytes:
  "ss_up s = Uploading \<Longrightarrow>
   \<exists>unsent. fst r = src_bytes (fst (copySRCtoTarget r sendErr)) @ unsent \<and>
     (ss_up (upload r sendErr s) = Uploading \<longrightarrow> unsent = [])"
  by (cases r) (auto simp: upload_def copySRCtoTarget_def split: option.splits)

lemma receive_out [simp]: "ss_out (receive m s) = ss_out s"
  by (simp add: receive_def Let_def split: prod.split sum.split ProxyStatus.split dst_body.split)

lemma Write_bytes:
  "Write p c = (r, c') \<Longrightarrow> concat (outs c') = concat (outs c) @ (case r of Inl _ \<Rightarrow> [] | Inr _ \<Rightarrow> p)"
  by (auto simp: Write_def split: option.splits)

text \<open>A message is written in full, or it is the last one of its direction.\<close>

lemma receive_bytes:
  assumes "ss_down s = Receiving"
  shows "\<exists>ws lost. dst_chunk m = ws @ lost \<and> concat (outs (ss_writer (receive m s))) = concat (outs (ss_writer s)) @ ws \<and>
    (lost = [] \<or> (\<exists>e. ss_down (receive m s) = DownEnded e))"
proof (cases "\<exists>p. Status m = Session \<and> Body m = DstPayload p \<and> p \<noteq> []")
  case True
  then obtain p where p: "Status m = Session" "Body m = DstPayload p" "p \<noteq> []" by blast
  obtain r c where "Write p (ss_writer s) = (r, c)" by force
  with p Write_bytes [OF this] show ?thesis
    by (cases r) (auto simp: receive_def copyTargetToSRC_def Let_def dst_chunk_def)
next
  case False
  then have "dst_chunk m = []" by (auto simp: dst_chunk_def split: ProxyStatus.splits dst_body.splits)
  moreover have "ss_writer (receive m s) = ss_writer s"
    using False by (cases "Status m"; cases "Body m") (auto simp: receive_def copyTargetToSRC_def Let_def)
  ultimately show ?thesis by simp
qed

lemma sv_receive_bytes:
  "\<exists>ws lost. src_bytes [m] = ws @ lost \<and> concat (outs (sv_conn (sv_receive m t))) = concat (outs (sv_conn t)) @ ws \<and>
    (lost = [] \<or> (\<exists>e. sv_inner (sv_receive m t) = InnerEnded e))"
proof (cases m)
  case (SrcPayload p)
  obtain r c where w: "Write p (sv_conn t) = (r, c)" by force
  show ?thesis
  proof (cases "p = []")
    case True
    with w Write_bytes [OF w] SrcPayload show ?thesis
      by (cases r) (auto simp: sv_receive_def copyClientToTarget_def io_fail_def)
  next
    case False
    with w Write_bytes [OF w] SrcPayload show ?thesis
      by (cases r) (auto simp: sv_receive_def copyClientToTarget_def io_map_err_def)
  qed
qed (simp_all add: sv_receive_def copyClientToTarget_def io_fail_def)

lemma sv_receive_fields [simp]:
  "sv_sent (sv_receive m t) = sv_sent t" "sv_down (sv_receive m t) = sv_down t" "sv_up (sv_receive m t) = sv_up t"
  by (simp_all add: sv_receive_def split: prod.split sum.split)

lemma sv_copy_fields [simp]:
  "sv_sent (sv_copy r sendErr t) = sv_sent t @ fst (copyTargetToClient (sv_network t) sendErr r)"
  "sv_conn (sv_copy r sendErr t) = sv_conn t" "sv_inner (sv_copy r sendErr t) = sv_inner t" "sv_up (sv_copy r sendErr t) = sv_up t"
  by (simp_all add: sv_copy_def split: prod.split option.split)

lemma sv_copy_bytes:
  assumes "sv_down t = Reading"
  shows "\<exists>unsent. fst r = dst_bytes (fst (copyTargetToClient (sv_network t) sendErr r)) @ unsent \<and>
    (unsent = [] \<or> sv_down (sv_copy r sendErr t) = DownReturned)"
proof -
  obtain b err where r: "r = (b, err)" by force
  show ?thesis using assms unfolding r
    by (cases "b \<noteq> [] \<or> (err = None \<and> isUDPNetwork (sv_network t))"; cases sendErr)
      (auto simp: sv_copy_def copyTargetToClient_def)
qed

lemma do_handshake_fields [simp]:
  "sv_conn (do_handshake ts first getRoute dial lost t) = sv_conn t"
  "sv_down (do_handshake ts first getRoute dial lost t) = sv_down t"
  "sv_up (do_handshake ts first getRoute dial lost t) \<noteq> Handshaking"
  by (simp_all add: do_handshake_def split: prod.split sum.split)

lemma do_handshake_sent:
  "\<exists>ms. sv_sent (do_handshake ts first getRoute dial lost t) = sv_sent t @ ms \<and> dst_bytes ms = []"
proof -
  obtain r ms where h: "server_handshake ts first getRoute dial = (r, ms)" by force
  have "dst_bytes ms = []" using handshake_messages [OF h] by auto
  then show ?thesis by (cases r) (auto simp: do_handshake_def h)
qed

lemma Forwarder_Close_conn [simp]: "sv_conn (Forwarder_Close s) = sv_conn s"
  by (simp add: Forwarder_Close_def)

lemma server_step_quiet:
  assumes "server_step a t t'" and "a \<notin> {SHandshake, SRecv, SCopy, SCopyEnd}"
  shows "sv_conn t' = sv_conn t" "\<exists>ms. sv_sent t' = sv_sent t @ ms \<and> dst_bytes ms = []"
    "sv_inner t = InnerEnded e \<Longrightarrow> sv_inner t' = InnerEnded e" "sv_down t = DownReturned \<Longrightarrow> sv_down t' = DownReturned"
    "sv_up t' = Handshaking \<Longrightarrow> sv_up t = Handshaking"
    "sv_inner t' = sv_inner t \<or> sv_inner t = InnerRecv"
  using assms by (cases rule: server_step.cases; simp add: proxy_end_def Let_def)+

section \<open>Invariants\<close>

text \<open>
  What was sent is what was received and what is in flight; a server that has not shaken hands
  has taken nothing, and the first message waiting for it is the header.
\<close>

fun proper_payload :: "ProxySRC \<Rightarrow> bool" where
  "proper_payload (SrcPayload p) \<longleftrightarrow> p \<noteq> []"
| "proper_payload m \<longleftrightarrow> False"

definition stream_inv :: "string \<Rightarrow> tunnel \<Rightarrow> bool" where
  "stream_inv addr T \<longleftrightarrow>
     sv_sent (tn_server T) = ss_received (tn_client T) @ tn_down T \<and>
     (\<exists>ms. ss_out (tn_client T) = SrcHeader addr TCP # ms \<and> list_all proper_payload ms) \<and>
     (sv_up (tn_server T) = Handshaking \<longrightarrow> tn_up T = ss_out (tn_client T))"

text \<open>
  One direction: what came in is what went out, then what was lost where the far end broke off,
  what is in flight and what was not sent where the near end broke off.
\<close>

definition conveyed :: "bytes \<Rightarrow> conn \<Rightarrow> conn \<Rightarrow> bool \<Rightarrow> bytes \<Rightarrow> bool \<Rightarrow> bool" where
  "conveyed got sink0 sink sinkEnded flight sourceEnded \<longleftrightarrow>
     (\<exists>ws lost unsent. concat (outs sink) = concat (outs sink0) @ ws \<and> got = ws @ lost @ flight @ unsent \<and>
        (lost = [] \<or> sinkEnded) \<and> (unsent = [] \<or> sourceEnded))"

definition up_conveyed :: "conn \<Rightarrow> tunnel \<Rightarrow> bool" where
  "up_conveyed c T \<longleftrightarrow>
     conveyed (tn_read T) c (sv_conn (tn_server T)) (\<exists>e. sv_inner (tn_server T) = InnerEnded e)
       (src_bytes (tn_up T)) (ss_up (tn_client T) \<noteq> Uploading)"

definition down_conveyed :: "conn \<Rightarrow> tunnel \<Rightarrow> bool" where
  "down_conveyed w T \<longleftrightarrow>
     conveyed (tn_fetched T) w (ss_writer (tn_client T)) (\<exists>e. ss_down (tn_client T) = DownEnded e)
       (dst_bytes (tn_down T)) (sv_down (tn_server T) = DownReturned)"

text \<open>The three ways in which a direction moves: the source reads, the sink writes, an end breaks off.\<close>

lemma conveyed_source:
  assumes "conveyed got sink0 sink se flight False" and "b = sent @ unsent" and "unsent = [] \<or> re"
  shows "conveyed (got @ b) sink0 sink se (flight @ sent) re"
proof -
  obtain ws lost where u: "concat (outs sink) = concat (outs sink0) @ ws" "got = ws @ lost @ flight" "lost = [] \<or> se"
    using assms(1) unfolding conveyed_def by auto
  have "got @ b = ws @ lost @ (flight @ sent) @ unsent" using u(2) assms(2) by simp
  with u(1,3) assms(3) show ?thesis unfolding conveyed_def by blast
qed

lemma conveyed_sink:
  assumes "conveyed got sink0 sink False (ws @ lost @ flight) re"
    and "concat (outs sink') = concat (outs sink) @ ws" and "lost = [] \<or> se"
  shows "conveyed got sink0 sink' se flight re"
proof -
  obtain ws0 unsent where u: "concat (outs sink) = concat (outs sink0) @ ws0"
    "got = ws0 @ (ws @ lost @ flight) @ unsent" "unsent = [] \<or> re"
    using assms(1) unfolding conveyed_def by auto
  have "concat (outs sink') = concat (outs sink0) @ (ws0 @ ws)" "got = (ws0 @ ws) @ lost @ flight @ unsent"
    using u assms(2) by simp_all
  with u(3) assms(3) show ?thesis unfolding conveyed_def by blast
qed

lemma conveyed_mono:
  "conveyed got sink0 sink se flight re \<Longrightarrow> (se \<longrightarrow> se') \<Longrightarrow> (re \<longrightarrow> re') \<Longrightarrow> conveyed got sink0 sink se' flight re'"
  unfolding conveyed_def by blast

lemma copySRCtoTarget_messages: "list_all proper_payload (fst (copySRCtoTarget r sendErr))"
  by (cases r) (simp add: copySRCtoTarget_def split: option.split)

lemma stream_inv_step:
  assumes "tunnel_step a T T'" and "stream_inv addr T" and "server_inv (tn_server T)"
  shows "stream_inv addr T'"
  using assms(1)
proof (cases rule: tunnel_step.cases)
  case (Tn_client a s)
  then show ?thesis using assms(2) client_step_quiet [OF Tn_client(3,4)]
    by (simp add: stream_inv_def client_moves_def)
next
  case (Tn_upload r sendErr)
  show ?thesis using assms(2) copySRCtoTarget_messages [of r sendErr]
    by (auto simp: Tn_upload(2) stream_inv_def client_moves_up [OF upload_out] upload_out)
next
  case (Tn_server a t)
  then obtain ms where "sv_sent t = sv_sent (tn_server T) @ ms" using server_step_quiet(2) [OF Tn_server(3,4)] by blast
  then show ?thesis using assms(2) server_step_quiet(5) [OF Tn_server(3,4)]
    by (auto simp: Tn_server(2) stream_inv_def server_moves_down)
next
  case (Tn_handshake m ms ts getRoute dial lost)
  then show ?thesis using assms(2) do_handshake_sent [of ts "Inr m" getRoute dial lost "tn_server T"]
    by (auto simp: stream_inv_def server_moves_def)
next
  case (Tn_handshake_err ts e getRoute dial lost)
  then show ?thesis using assms(2) do_handshake_sent [of ts "Inl e" getRoute dial lost "tn_server T"]
    by (auto simp: stream_inv_def server_moves_def)
qed (use assms(2,3) in \<open>auto simp: stream_inv_def server_inv_def client_moves_def server_moves_def\<close>)

lemma up_conveyed_step:
  assumes step: "tunnel_step a T T'" and up: "up_conveyed c T" and inv: "stream_inv addr T" "server_inv (tn_server T)"
  shows "up_conveyed c T'"
  using step
proof (cases rule: tunnel_step.cases)
  case (Tn_client a s)
  then show ?thesis using up client_step_quiet [OF Tn_client(3,4)] by (simp add: up_conveyed_def client_moves_def)
next
  case (Tn_upload r sendErr)
  obtain unsent where "fst r = src_bytes (fst (copySRCtoTarget r sendErr)) @ unsent"
    "unsent = [] \<or> ss_up (upload r sendErr (tn_client T)) \<noteq> Uploading" using upload_bytes [OF Tn_upload(3)] by blast
  then show ?thesis using up Tn_upload(3)
    by (auto simp: Tn_upload(2) up_conveyed_def client_moves_up [OF upload_out] intro: conveyed_source)
next
  case (Tn_recv m ms)
  then show ?thesis using up by (simp add: up_conveyed_def client_moves_def)
next
  case (Tn_server a t)
  then show ?thesis using up server_step_quiet(1,3) [OF Tn_server(3,4)]
    by (auto simp: up_conveyed_def intro: conveyed_mono)
next
  case (Tn_copy sendErr r ms e)
  then show ?thesis using up by (simp add: up_conveyed_def)
next
  case (Tn_handshake m ms ts getRoute dial lost)
  then have "src_bytes ms = src_bytes (tn_up T)" using inv(1) by (auto simp: stream_inv_def)
  moreover have "sv_inner (tn_server T) = NotStarted" using Tn_handshake(3) inv(2) by (simp add: server_inv_def)
  ultimately show ?thesis using up by (auto simp: Tn_handshake(2) up_conveyed_def intro: conveyed_mono)
next
  case (Tn_handshake_err ts e getRoute dial lost)
  have "sv_inner (tn_server T) = NotStarted" using Tn_handshake_err(3) inv(2) by (simp add: server_inv_def)
  then show ?thesis using up by (auto simp: Tn_handshake_err(2) up_conveyed_def intro: conveyed_mono)
next
  case (Tn_srv_recv m ms)
  have "src_bytes (tn_up T) = src_bytes [m] @ src_bytes ms" using Tn_srv_recv(4) src_bytes_append [of "[m]" ms] by simp
  moreover obtain ws lost where "src_bytes [m] = ws @ lost"
    "concat (outs (sv_conn (sv_receive m (tn_server T)))) = concat (outs (sv_conn (tn_server T))) @ ws"
    "lost = [] \<or> (\<exists>e. sv_inner (sv_receive m (tn_server T)) = InnerEnded e)" using sv_receive_bytes by blast
  ultimately show ?thesis using up Tn_srv_recv(3)
    by (auto simp: Tn_srv_recv(2) up_conveyed_def intro: conveyed_sink)
qed

lemma down_conveyed_step:
  assumes step: "tunnel_step a T T'" and down: "down_conveyed w T"
  shows "down_conveyed w T'"
  using step
proof (cases rule: tunnel_step.cases)
  case (Tn_client a s)
  then show ?thesis using down client_step_quiet [OF Tn_client(3,4)]
    by (auto simp: down_conveyed_def intro: conveyed_mono)
next
  case (Tn_upload r sendErr)
  then show ?thesis using down by (simp add: down_conveyed_def)
next
  case (Tn_recv m ms)
  obtain ws lost where "dst_chunk m = ws @ lost"
    "concat (outs (ss_writer (receive m (tn_client T)))) = concat (outs (ss_writer (tn_client T))) @ ws"
    "lost = [] \<or> (\<exists>e. ss_down (receive m (tn_client T)) = DownEnded e)" using receive_bytes [OF Tn_recv(3)] by blast
  then show ?thesis using down Tn_recv(3,4) by (auto simp: Tn_recv(2) down_conveyed_def intro: conveyed_sink)
next
  case (Tn_server a t)
  obtain ms where ms: "sv_sent t = sv_sent (tn_server T) @ ms" "dst_bytes ms = []"
    using server_step_quiet(2) [OF Tn_server(3,4)] by blast
  then show ?thesis using down server_step_quiet(4) [OF Tn_server(3,4)]
    by (auto simp: Tn_server(2) down_conveyed_def server_moves_down intro: conveyed_mono)
next
  case (Tn_copy sendErr r ms e)
  obtain unsent where "fst r = dst_bytes ms @ unsent" "unsent = [] \<or> sv_down (sv_copy r sendErr (tn_server T)) = DownReturned"
    using sv_copy_bytes [OF Tn_copy(3), of r sendErr] Tn_copy(4) by auto
  then show ?thesis using down Tn_copy(3,4)
    by (auto simp: Tn_copy(2) down_conveyed_def server_moves_down intro: conveyed_source)
next
  case (Tn_handshake m ms ts getRoute dial lost)
  obtain ms' where "sv_sent (do_handshake ts (Inr m) getRoute dial lost (tn_server T)) = sv_sent (tn_server T) @ ms'" "dst_bytes ms' = []"
    using do_handshake_sent by blast
  then show ?thesis using down by (simp add: Tn_handshake(2) down_conveyed_def server_moves_down)
next
  case (Tn_handshake_err ts e getRoute dial lost)
  obtain ms where "sv_sent (do_handshake ts (Inl e) getRoute dial lost (tn_server T)) = sv_sent (tn_server T) @ ms" "dst_bytes ms = []"
    using do_handshake_sent by blast
  then show ?thesis using down by (simp add: Tn_handshake_err(2) down_conveyed_def server_moves_down)
next
  case (Tn_srv_recv m ms)
  then show ?thesis using down by (simp add: down_conveyed_def server_moves_def)
qed

lemma tunnel_reachable_data:
  assumes "tunnel_reachable (tunnel_start addr f w c) T"
  shows "stream_inv addr T \<and> up_conveyed c T \<and> down_conveyed w T"
  using assms
proof (induction rule: tunnel_reachable.induct)
  case Tunnel_init
  show ?case
    by (simp add: tunnel_start_def start_session_def NewForwarder_def stream_inv_def up_conveyed_def down_conveyed_def conveyed_def)
next
  case (Tunnel_step T a T')
  then show ?case
    using stream_inv_step up_conveyed_step down_conveyed_step tunnel_reachable_inv(3) by blast
qed

section \<open>Counting\<close>

text \<open>
  The counters of a session: what was sent on the stream, and what was written to the caller, in
  bytes and modulo \<open>2 ^ 64\<close>. \<open>f\<close> and \<open>w\<close> are forwarder and connection at the start.
\<close>

definition session_counted :: "(forwarder \<Rightarrow> stats) \<Rightarrow> forwarder \<Rightarrow> conn \<Rightarrow> client_session \<Rightarrow> bool" where
  "session_counted stat f w s \<longleftrightarrow>
     tx (stat (ss_fw s)) = tx (stat f) + of_nat (length (src_bytes (ss_out s))) \<and>
     rx (stat (ss_fw s)) + of_nat (length (concat (outs w))) = rx (stat f) + of_nat (length (concat (outs (ss_writer s))))"

lemma client_step_fw: "client_step a s s' \<Longrightarrow> a \<notin> {ARecv, AUpload} \<Longrightarrow> ss_fw s' = ss_fw s"
  by (induction rule: client_step.induct) (auto simp: recv_failed_def)

lemma upload_counts:
  assumes "stat \<in> {fw_stats, fw_global}"
  shows "tx (stat (ss_fw (upload r sendErr s))) = tx (stat (ss_fw s)) + of_nat (length (src_bytes (fst (copySRCtoTarget r sendErr)))) \<and>
    rx (stat (ss_fw (upload r sendErr s))) = rx (stat (ss_fw s))"
proof -
  obtain b err where r: "r = (b, err)" by force
  show ?thesis using assms unfolding r by (cases err; cases sendErr) (auto simp: upload_def copySRCtoTarget_def)
qed

lemma receive_counts:
  assumes "stat \<in> {fw_stats, fw_global}"
  shows "\<exists>ws. concat (outs (ss_writer (receive m s))) = concat (outs (ss_writer s)) @ ws \<and>
    rx (stat (ss_fw (receive m s))) = rx (stat (ss_fw s)) + of_nat (length ws) \<and> tx (stat (ss_fw (receive m s))) = tx (stat (ss_fw s))"
proof (cases "\<exists>p. Status m = Session \<and> Body m = DstPayload p \<and> p \<noteq> []")
  case True
  then obtain p where p: "Status m = Session" "Body m = DstPayload p" "p \<noteq> []" by blast
  obtain r c where "Write p (ss_writer s) = (r, c)" by force
  with p Write_bytes [OF this] assms show ?thesis
    by (cases r) (auto simp: receive_def copyTargetToSRC_def Let_def)
next
  case False
  with assms have "ss_writer (receive m s) = ss_writer s" "stat (ss_fw (receive m s)) = stat (ss_fw s)"
    by (cases "Status m"; cases "Body m"; auto simp: receive_def copyTargetToSRC_def Let_def)+
  then show ?thesis by simp
qed

lemma session_counted_step:
  assumes "client_step a s s'" and "session_counted stat f w s" and "stat \<in> {fw_stats, fw_global}"
  shows "session_counted stat f w s'"
proof (cases "a \<in> {ARecv, AUpload}")
  case False
  then show ?thesis using assms client_step_fw [OF assms(1)] client_step_quiet(1,3) [OF assms(1)] by (simp add: session_counted_def)
next
  case True
  have "(\<exists>m. s' = receive m s) \<or> (\<exists>r sendErr. s' = upload r sendErr s)"
    using assms(1) True by (cases rule: client_step.cases) auto
  then consider m where "s' = receive m s" | r sendErr where "s' = upload r sendErr s" by blast
  then show ?thesis
  proof cases
    case 1
    then show ?thesis using receive_counts [OF assms(3), of m s] assms(2) by (auto simp: session_counted_def algebra_simps)
  next
    case 2
    then show ?thesis using upload_counts [OF assms(3), of r sendErr s] assms(2) by (simp add: session_counted_def upload_out)
  qed
qed

lemma session_reachable_counted:
  "session_reachable (start_session addr f w) s \<Longrightarrow> stat \<in> {fw_stats, fw_global} \<Longrightarrow> session_counted stat f w s"
proof (induction rule: session_reachable.induct)
  case Session_init
  show ?case by (simp add: session_counted_def start_session_def)
next
  case (Session_step s a s')
  then show ?case using session_counted_step by blast
qed

section \<open>One announcement\<close>

text \<open>
  A server stream announces one address at most: the messages a client session received, if
  they come from one, never make it wait on a full channel.
\<close>

lemma accept_addr_other [simp]:
  "accept_addr (payload_msg p) = []" "accept_addr error_msg = []" "accept_addr eof_msg = []"
  "accept_addr (accept_message l) = [l]"
  by (simp_all add: accept_message_def accept_addr_def)

lemma concat_accept_payloads: "concat (map (accept_addr \<circ> payload_msg) ps) = []"
  by (induction ps) simp_all

lemma server_announces_once:
  assumes "server_reachable (NewForwarder c) t"
  shows "concat (map accept_addr (sv_sent t)) = [] \<or>
    (\<exists>l rest. sv_sent t = accept_message l # rest \<and> concat (map accept_addr (sv_sent t)) = [l])"
proof -
  obtain body tail where b: "sv_sent t = body @ tail" "concat (map accept_addr tail) = []"
    "body = [] \<or> body = [error_msg] \<or> (\<exists>l ps. body = accept_message l # map payload_msg ps)"
  proof -
    from server_sent_shape [OF assms] obtain body tail where h: "sv_sent t = body @ tail" "tail = [] \<or> tail = [eof_msg]"
      "body = [] \<or> body = [error_msg] \<or> (\<exists>l ps. body = accept_message l # map payload_msg ps)" by blast
    from h(2) have "concat (map accept_addr tail) = []" by (elim disjE) (simp_all)
    with h that show thesis by blast
  qed
  from b(3) show ?thesis
    by (elim disjE exE) (simp_all add: b(1,2) concat_accept_payloads)
qed

lemma tunnel_received:
  assumes "session_reachable (start_session addr f w) s" and "server_reachable (NewForwarder c) t"
    and "sv_sent t = ss_received s @ inFlight"
  shows "(\<forall>l. ss_down s \<noteq> PassingAddr l) \<and>
    (ss_announced s = [] \<or> (\<exists>l rest. ss_announced s = [l] \<and> sv_sent t = accept_message l # rest))"
proof -
  have inv: "session_inv s" "received_inv s"
    using session_reachable_inv [OF assms(1)] session_reachable_received [OF assms(1)] by auto
  let ?a = "concat (map accept_addr (ss_received s))"
  have one: "?a = [] \<or> (\<exists>l rest. sv_sent t = accept_message l # rest \<and> ?a = [l])"
    using server_announces_once [OF assms(2)] by (auto simp: assms(3) append_eq_Cons_conv)
  have "ss_down s \<noteq> PassingAddr l" for l
    using inv one by (auto simp: session_inv_def received_inv_def append_eq_Cons_conv)
  moreover have "ss_announced s = [] \<or> (\<exists>l rest. ss_announced s = [l] \<and> ss_accepted s = l # rest)"
    using inv(1) by (cases "ss_ack s") (auto simp: session_inv_def)
  moreover have "ss_accepted s = ?a" using calculation(1) inv(2) by (auto simp: received_inv_def split: down_pc.splits)
  ultimately show ?thesis using one by (elim disjE exE conjE) simp_all
qed

section \<open>The end of a tunnel\<close>

text \<open>
  The stream is dead for the server when the client has called \<open>f.cancel\<close>, or when \<open>Client.Proxy\<close> has
  returned and its deferred \<open>cancel\<close> has run.
\<close>

definition stream_dead :: "tunnel \<Rightarrow> bool" where
  "stream_dead T \<longleftrightarrow> ss_streamDown (tn_client T) \<or> session_over (tn_client T)"

text \<open>
  The steps that do not depend on the caller or the target: a message in flight is delivered; a
  receive of the client fails once its stream is cancelled, or once the handler has returned
  and everything was delivered; a receive of the server fails once the stream is dead; a read
  of the target fails once its connection is closed; timers, reads that deliver data and
  a caller that takes the address are left out.
\<close>

fun forced :: "tunnel \<Rightarrow> tunnel_action \<Rightarrow> bool" where
  "forced T (AtClient a) \<longleftrightarrow> a \<in> {ARecv, AAddr, ADown, AUp, AAck} \<or>
     a = ARecvErr \<and> (ss_streamDown (tn_client T) \<or> sv_done (tn_server T) \<and> tn_down T = [])"
| "forced T (AtServer a) \<longleftrightarrow> a \<in> {SHandshake, SRecv, SUp, SDown, SAccept, SFinish} \<or> a = SRecvErr \<and> stream_dead T \<or>
     a = SCopyEnd \<and> sv_closeOnce (tn_server T) \<or> a = SWatch \<and> \<not> sv_closeOnce (tn_server T)"

definition tunnel_closing_step :: "tunnel \<Rightarrow> tunnel \<Rightarrow> bool" where
  "tunnel_closing_step T T' \<longleftrightarrow> (\<exists>a. tunnel_step a T T' \<and> forced T a)"

definition tunnel_over :: "tunnel \<Rightarrow> bool" where
  "tunnel_over T \<longleftrightarrow> session_over (tn_client T) \<and> sv_done (tn_server T)"

definition tunnel_closing :: "tunnel \<Rightarrow> bool" where
  "tunnel_closing T \<longleftrightarrow> (\<exists>addr f w c. tunnel_reachable (tunnel_start addr f w c) T) \<and>
     (ss_ctxDone (tn_client T) \<or> sv_ctxDone (tn_server T))"

fun inner_work :: "inner_pc \<Rightarrow> nat" where
  "inner_work NotStarted = 2" | "inner_work InnerRecv = 1" | "inner_work (InnerEnded e) = 0"

definition tunnel_work :: "tunnel \<Rightarrow> nat" where
  "tunnel_work T = session_work (tn_client T) + 2 * server_work (tn_server T) + inner_work (sv_inner (tn_server T)) +
     length (tn_up T) + length (tn_down T)"

lemma tunnel_work_bound: "tunnel_work T \<le> 24 + length (tn_up T) + length (tn_down T)"
  using session_work_bound [of "tn_client T"] server_work_bound [of "tn_server T"]
  by (cases "sv_inner (tn_server T)") (simp_all add: tunnel_work_def)

text \<open>Control flow of the two ends, beyond their own invariants.\<close>

definition control_inv :: "tunnel \<Rightarrow> bool" where
  "control_inv T \<longleftrightarrow>
     (ss_downOuter (tn_client T) = Aborting \<longrightarrow> ss_streamDown (tn_client T) \<and> ss_ctxDone (tn_client T)) \<and>
     (sv_up (tn_server T) = UpWatching \<longrightarrow> sv_inner (tn_server T) \<noteq> NotStarted)"

lemma client_control_step:
  "client_step a s s' \<Longrightarrow> (ss_downOuter s = Aborting \<longrightarrow> ss_streamDown s \<and> ss_ctxDone s) \<Longrightarrow>
   (ss_downOuter s' = Aborting \<longrightarrow> ss_streamDown s' \<and> ss_ctxDone s')"
  by (cases rule: client_step.cases)
    (auto simp: recv_failed_def receive_def upload_def Let_def split: prod.splits sum.splits option.splits ProxyStatus.splits dst_body.splits if_splits)

lemma server_control_step:
  "server_step a t t' \<Longrightarrow> (sv_up t = UpWatching \<longrightarrow> sv_inner t \<noteq> NotStarted) \<Longrightarrow>
   (sv_up t' = UpWatching \<longrightarrow> sv_inner t' \<noteq> NotStarted)"
  by (cases rule: server_step.cases)
    (auto simp: sv_receive_def do_handshake_def proxy_end_def Let_def split: prod.splits sum.splits if_splits)

lemma tunnel_reachable_control:
  "tunnel_reachable (tunnel_start addr f w c) T \<Longrightarrow> control_inv T"
proof (induction rule: tunnel_reachable.induct)
  case Tunnel_init
  show ?case by (simp add: control_inv_def tunnel_start_def start_session_def NewForwarder_def)
next
  case (Tunnel_step T a T')
  from tunnel_step_ends [OF Tunnel_step.hyps(2)] Tunnel_step.IH show ?case
    unfolding control_inv_def using client_control_step server_control_step by metis
qed

lemma tunnel_not_passing:
  assumes "tunnel_reachable (tunnel_start addr f w c) T"
  shows "ss_down (tn_client T) \<noteq> PassingAddr l"
  using tunnel_received [of addr f w "tn_client T" c "tn_server T" "tn_down T"]
    tunnel_reachable_ends [OF assms] tunnel_reachable_data [OF assms] by (auto simp: stream_inv_def)

lemma client_step_ctxDone: "client_step a s s' \<Longrightarrow> ss_ctxDone s \<Longrightarrow> ss_ctxDone s'"
  by (induction rule: client_step.induct) (auto simp: recv_failed_def)

lemma tunnel_closing_keeps:
  assumes "tunnel_closing T" and "tunnel_step a T T'"
  shows "tunnel_closing T'"
  using assms(1) tunnel_step_ends [OF assms(2)] Tunnel_step [OF _ assms(2)]
  unfolding tunnel_closing_def by (metis client_step_ctxDone server_step_ctxDone)

subsection \<open>Every step is one of finitely many\<close>

lemma receive_work:
  "ss_down s = Receiving \<Longrightarrow> (\<And>l. ss_down (receive m s) \<noteq> PassingAddr l) \<Longrightarrow> session_work (receive m s) \<le> session_work s"
  by (cases "ss_down (receive m s)") (auto simp: session_work_def)

lemma sv_receive_work:
  "sv_inner t = InnerRecv \<Longrightarrow> inner_work (sv_inner (sv_receive m t)) \<le> 1 \<and> server_work (sv_receive m t) = server_work t"
  by (simp add: sv_receive_def server_work_def split: prod.split sum.split)

lemma copyTargetToClient_one: "length (fst (copyTargetToClient network sendErr r)) \<le> 1"
  by (cases r) (simp add: copyTargetToClient_def split: option.split)

lemma do_handshake_one:
  "sv_inner t = NotStarted \<Longrightarrow>
   \<exists>ms. sv_sent (do_handshake ts first getRoute dial lost t) = sv_sent t @ ms \<and> length ms \<le> 1 \<and>
     inner_work (sv_inner (do_handshake ts first getRoute dial lost t)) \<le> 2"
proof -
  assume i: "sv_inner t = NotStarted"
  obtain r ms where h: "server_handshake ts first getRoute dial = (r, ms)" by force
  have "length ms \<le> 1" using handshake_messages [OF h] by auto
  with i show ?thesis by (cases r) (auto simp: do_handshake_def h)
qed

lemma server_step_one:
  assumes "server_step a t t'" and "a \<notin> {SHandshake, SRecv, SCopy, SCopyEnd}"
  shows "\<exists>ms. sv_sent t' = sv_sent t @ ms \<and> length ms \<le> 1"
  using assms by (cases rule: server_step.cases) (simp_all add: proxy_end_def Let_def)

lemma server_quiet_work:
  assumes "server_step a t t'" and "a \<in> {SUp, SDown, SAccept, SFinish} \<or> a = SWatch \<and> \<not> sv_closeOnce t"
  shows "server_work t' < server_work t" and "sv_inner t' = sv_inner t"
  using assms by (induction rule: server_step.induct) (auto simp: server_work_def proxy_end_def Let_def)

text \<open>A move of the server that costs it a unit of work, sends one message at most and does not refill its receive loop.\<close>

lemma server_moves_work:
  assumes "sv_sent t = sv_sent (tn_server T) @ ms" and "length ms \<le> 1" and "server_work t < server_work (tn_server T)"
    and "inner_work (sv_inner t) \<le> inner_work (sv_inner (tn_server T))"
  shows "tunnel_work (server_moves t T) < tunnel_work T"
  using assms by (simp add: tunnel_work_def server_moves_down)

lemma server_moves_recv_work:
  assumes "server_work t = server_work (tn_server T)" and "sv_sent t = sv_sent (tn_server T)"
  shows "tunnel_work (server_moves t T) + inner_work (sv_inner (tn_server T)) = tunnel_work T + inner_work (sv_inner t)"
  using assms by (simp add: tunnel_work_def server_moves_def)

lemma handshake_moves_work:
  assumes "sv_up (tn_server T) = Handshaking" and i: "sv_inner (tn_server T) = NotStarted"
  shows "tunnel_work (server_moves (do_handshake ts first getRoute dial lost (tn_server T)) T) < tunnel_work T"
  using do_handshake_one [OF i] do_handshake_work [OF assms(1)] i
    server_moves_work [of "do_handshake ts first getRoute dial lost (tn_server T)" T] by fastforce

lemma quiet_moves_work:
  assumes step: "server_step a (tn_server T) t" and "a \<notin> {SHandshake, SRecv, SCopy, SCopyEnd}" and "forced T (AtServer a)"
  shows "tunnel_work (server_moves t T) < tunnel_work T"
proof (cases "a = SRecvErr")
  case True
  with step obtain e where "t = (tn_server T)\<lparr>sv_inner := InnerEnded e\<rparr>" "sv_inner (tn_server T) = InnerRecv"
    by (auto elim: server_step.cases)
  then show ?thesis using server_moves_recv_work [of t T] by (simp add: server_work_def)
next
  case False
  then have "a \<in> {SUp, SDown, SAccept, SFinish} \<or> a = SWatch \<and> \<not> sv_closeOnce (tn_server T)" using assms(2,3) by auto
  then show ?thesis using server_step_one [OF step assms(2)] server_quiet_work [OF step] by (auto intro: server_moves_work)
qed

lemma tunnel_closing_work:
  assumes step: "tunnel_step a T T'" and "forced T a" and T: "tunnel_closing T"
  shows "tunnel_work T' < tunnel_work T"
proof -
  have inv: "server_inv (tn_server T)" using T tunnel_reachable_inv(3) unfolding tunnel_closing_def by blast
  from step show ?thesis
  proof (cases rule: tunnel_step.cases)
    case (Tn_client a s)
    then have "session_work s < session_work (tn_client T)"
      using assms(2) shutdown_step_work [OF Tn_client(3)] by (auto simp: shutdown_actions_def)
    then show ?thesis using client_step_quiet(1) [OF Tn_client(3,4)]
      by (simp add: Tn_client(2) tunnel_work_def client_moves_def)
  next
    case (Tn_recv m ms)
    obtain addr f w c where "tunnel_reachable (tunnel_start addr f w c) T'"
      using tunnel_closing_keeps [OF T step] unfolding tunnel_closing_def by blast
    then have "ss_down (receive m (tn_client T)) \<noteq> PassingAddr l" for l
      using tunnel_not_passing by (fastforce simp: Tn_recv(2))
    then show ?thesis using receive_work [OF Tn_recv(3), of m] Tn_recv(4)
      by (simp add: Tn_recv(2) tunnel_work_def client_moves_def)
  next
    case (Tn_server a t)
    then show ?thesis using quiet_moves_work [OF Tn_server(3,4)] assms(2) by simp
  next
    case (Tn_copy sendErr r ms e)
    then obtain x where "e = Some x" using assms(2) by (cases e) auto
    then have "server_work (sv_copy r sendErr (tn_server T)) < server_work (tn_server T)"
      using Tn_copy(3,4) sv_copy_ended [of "tn_server T" sendErr r ms x] by (simp add: server_work_def)
    then have "tunnel_work (server_moves (sv_copy r sendErr (tn_server T)) T) < tunnel_work T"
      using server_moves_work [of "sv_copy r sendErr (tn_server T)" T] copyTargetToClient_one by simp
    then show ?thesis by (simp add: Tn_copy(2) tunnel_work_def)
  next
    case (Tn_handshake m ms ts getRoute dial lost)
    have "sv_inner (tn_server T) = NotStarted" using inv Tn_handshake(3) by (simp add: server_inv_def)
    then have "tunnel_work T' < tunnel_work (T\<lparr>tn_up := ms\<rparr>)"
      using handshake_moves_work [of "T\<lparr>tn_up := ms\<rparr>"] Tn_handshake(2,3) by simp
    then show ?thesis using Tn_handshake(4) by (simp add: tunnel_work_def)
  next
    case (Tn_handshake_err ts e getRoute dial lost)
    then show ?thesis using handshake_moves_work inv by (simp add: server_inv_def)
  next
    case (Tn_srv_recv m ms)
    then show ?thesis using sv_receive_work [OF Tn_srv_recv(3), of m] server_moves_recv_work [of "sv_receive m (tn_server T)" "T\<lparr>tn_up := ms\<rparr>"]
      by (simp add: Tn_srv_recv(2) tunnel_work_def)
  qed (use assms(2) in simp)
qed

subsection \<open>Some step is possible until both ends have returned\<close>

lemma closing_stepI: "tunnel_step a T T' \<Longrightarrow> forced T a \<Longrightarrow> \<exists>T'. tunnel_closing_step T T'"
  unfolding tunnel_closing_step_def by blast

lemma closing_client:
  "client_step a (tn_client T) s \<Longrightarrow> a \<notin> {ARecv, AUpload} \<Longrightarrow> forced T (AtClient a) \<Longrightarrow> \<exists>T'. tunnel_closing_step T T'"
  by (rule closing_stepI [OF Tn_client])

lemma closing_server:
  "server_step a (tn_server T) t \<Longrightarrow> a \<notin> {SHandshake, SRecv, SCopy, SCopyEnd} \<Longrightarrow> forced T (AtServer a) \<Longrightarrow>
   \<exists>T'. tunnel_closing_step T T'"
  by (rule closing_stepI [OF Tn_server])

lemma closing_handshake: "sv_up (tn_server T) = Handshaking \<Longrightarrow> \<exists>T'. tunnel_closing_step T T'"
  by (rule closing_stepI [OF Tn_handshake_err]) simp_all

lemma server_closes:
  assumes c: "sv_ctxDone (tn_server T)" and "\<not> sv_done (tn_server T)"
  shows "\<exists>T'. tunnel_closing_step T T'"
proof (cases "sv_up (tn_server T)")
  case UpWatching
  show ?thesis by (rule closing_server [OF SrvUp_abort [OF UpWatching c]]) simp_all
next
  case up: UpReturned
  show ?thesis
  proof (cases "sv_down (tn_server T)")
    case WaitAck
    show ?thesis by (rule closing_server [OF Ack_ctx [OF WaitAck c]]) simp_all
  next
    case Accepting
    show ?thesis by (rule closing_server [OF Accept_failed [OF Accepting]]) simp_all
  next
    case Reading
    show ?thesis
    proof (cases "sv_closeOnce (tn_server T)")
      case True
      have e: "copyTargetToClient (sv_network (tn_server T)) None ([], Some (Sentinel NetErrClosed)) = ([], Some (Sentinel NetErrClosed))"
        by (simp add: copyTargetToClient_def)
      show ?thesis by (rule closing_stepI [OF Tn_copy [OF Reading e]]) (simp add: True)
    next
      case False
      show ?thesis by (rule closing_server [OF Watcher [OF Reading c]]) (simp_all add: False)
    qed
  next
    case DownReturned
    show ?thesis by (rule closing_server [OF Finish [OF up DownReturned assms(2)]]) simp_all
  qed
qed (rule closing_handshake)

lemma dead_stream_closes_server:
  assumes "stream_dead T" and "\<not> sv_ctxDone (tn_server T)" and inv: "server_inv (tn_server T)" "control_inv T"
  shows "\<exists>T'. tunnel_closing_step T T'"
proof (cases "sv_up (tn_server T)")
  case UpWatching
  show ?thesis
  proof (cases "sv_inner (tn_server T)")
    case InnerRecv
    show ?thesis by (rule closing_server [OF SrvRecv_err [OF InnerRecv]]) (simp_all add: assms(1))
  next
    case (InnerEnded e)
    show ?thesis by (rule closing_server [OF SrvUp_return [OF UpWatching InnerEnded]]) simp_all
  qed (use inv(2) UpWatching in \<open>simp add: control_inv_def\<close>)
next
  case UpReturned
  then show ?thesis using assms(2) inv(1) by (simp add: server_inv_def)
qed (rule closing_handshake)

lemma client_closes:
  assumes c: "ss_ctxDone (tn_client T)" and "\<not> session_over (tn_client T)" and s: "session_inv (tn_client T)" "control_inv T"
    and p: "\<And>l. ss_down (tn_client T) \<noteq> PassingAddr l"
  shows "\<exists>T'. tunnel_closing_step T T'"
proof -
  let ?s = "tn_client T"
  consider "ss_ack ?s \<noteq> AckReturned" | "ss_upOuter ?s = Watching" | "ss_downOuter ?s = Watching" | "ss_downOuter ?s = Aborting"
    using assms(2) s(1) by (cases "ss_upOuter ?s"; cases "ss_downOuter ?s") (auto simp: session_over_def session_inv_def)
  then show ?thesis
  proof cases
    case 1
    then have "\<exists>s'. client_step AAck ?s s'" using Ack_done [OF _ c] Ack_unwanted [OF _ c] by (cases "ss_ack ?s") auto
    then show ?thesis by (auto intro: closing_client)
  next
    case 2
    show ?thesis by (rule closing_client [OF Up_abort [OF 2 c]]) simp_all
  next
    case 3
    show ?thesis by (rule closing_client [OF Down_abort [OF 3 c]]) simp_all
  next
    case 4
    show ?thesis
    proof (cases "ss_down ?s")
      case Receiving
      show ?thesis by (rule closing_client [OF Recv_err [OF Receiving]]) (use 4 s(2) in \<open>simp_all add: control_inv_def\<close>)
    next
      case (DownEnded e)
      show ?thesis by (rule closing_client [OF Down_aborted [OF 4 DownEnded]]) simp_all
    qed (use p in simp)
  qed
qed

lemma ended_handler_closes_client:
  assumes "sv_done (tn_server T)" and c: "\<not> ss_ctxDone (tn_client T)" and s: "session_inv (tn_client T)" "control_inv T"
    and p: "\<And>l. ss_down (tn_client T) \<noteq> PassingAddr l"
  shows "\<exists>T'. tunnel_closing_step T T'"
proof (cases "ss_down (tn_client T)")
  case Receiving
  show ?thesis
  proof (cases "tn_down T")
    case Nil
    show ?thesis by (rule closing_client [OF Recv_err [OF Receiving]]) (simp_all add: Nil assms(1))
  next
    case (Cons m ms)
    show ?thesis by (rule closing_stepI [OF Tn_recv [OF Receiving Cons]]) simp
  qed
next
  case (DownEnded e)
  have "ss_downOuter (tn_client T) = Watching"
    using c s by (cases "ss_downOuter (tn_client T)") (auto simp: session_inv_def control_inv_def)
  then show ?thesis by (intro closing_client [OF Down_return [OF _ DownEnded]]) simp_all
qed (use p in simp)

lemma tunnel_closing_progress:
  assumes "tunnel_closing T" and "\<not> tunnel_over T"
  shows "\<exists>T'. tunnel_closing_step T T'"
proof -
  obtain addr f w c where r: "tunnel_reachable (tunnel_start addr f w c) T" using assms(1) by (auto simp: tunnel_closing_def)
  note inv = tunnel_reachable_inv [OF r] tunnel_reachable_control [OF r] tunnel_not_passing [OF r]
  consider "sv_ctxDone (tn_server T)" "\<not> sv_done (tn_server T)"
    | "\<not> sv_ctxDone (tn_server T)" "ss_ctxDone (tn_client T)" "\<not> session_over (tn_client T)"
    | "\<not> sv_ctxDone (tn_server T)" "session_over (tn_client T)"
    | "sv_done (tn_server T)" "\<not> session_over (tn_client T)"
    using assms unfolding tunnel_closing_def tunnel_over_def by blast
  then show ?thesis
  proof cases
    case 1
    then show ?thesis by (rule server_closes)
  next
    case 2
    then show ?thesis using client_closes inv by blast
  next
    case 3
    then show ?thesis using dead_stream_closes_server inv unfolding stream_dead_def by blast
  next
    case 4
    then show ?thesis using client_closes ended_handler_closes_client inv by blast
  qed
qed

interpretation tunnel_end: draining tunnel_closing_step tunnel_closing tunnel_over tunnel_work
proof
  show "tunnel_closing T \<Longrightarrow> tunnel_closing_step T T' \<Longrightarrow> tunnel_closing T'" for T T'
    using tunnel_closing_keeps by (auto simp: tunnel_closing_step_def)
  show "tunnel_closing T \<Longrightarrow> tunnel_closing_step T T' \<Longrightarrow> tunnel_work T' < tunnel_work T" for T T'
    using tunnel_closing_work by (auto simp: tunnel_closing_step_def)
qed (rule tunnel_closing_progress)

section \<open>Two pipes\<close>

text \<open>
  The specification of a tunnel: a pipe in each direction. A pipe takes bytes in, and gives
  out bytes it has taken in and not yet given out, in their order.
\<close>

record pipe =
  pp_in :: bytes
  pp_out :: bytes

definition empty_pipe :: pipe where
  "empty_pipe = \<lparr>pp_in = [], pp_out = []\<rparr>"

inductive pipe_step :: "pipe \<Rightarrow> pipe \<Rightarrow> bool" where
  Pipe_in: "pipe_step p (p\<lparr>pp_in := pp_in p @ b\<rparr>)"
| Pipe_out: "pp_in p = pp_out p @ b @ rest \<Longrightarrow> pipe_step p (p\<lparr>pp_out := pp_out p @ b\<rparr>)"

definition pipes_step :: "pipe \<times> pipe \<Rightarrow> pipe \<times> pipe \<Rightarrow> bool" where
  "pipes_step x y \<longleftrightarrow> pipe_step (fst x) (fst y) \<and> snd y = snd x \<or> fst y = fst x \<and> pipe_step (snd x) (snd y)"

text \<open>What the specification promises: a pipe never gives out anything but a prefix of what it took in.\<close>

lemma pipe_step_prefix: "pipe_step p p' \<Longrightarrow> prefix (pp_out p) (pp_in p) \<Longrightarrow> prefix (pp_out p') (pp_in p')"
  by (induction rule: pipe_step.induct) (auto simp: prefix_def)

lemma pipes_prefix:
  "pipes_step\<^sup>*\<^sup>* (empty_pipe, empty_pipe) x \<Longrightarrow> prefix (pp_out (fst x)) (pp_in (fst x)) \<and> prefix (pp_out (snd x)) (pp_in (snd x))"
proof (induction rule: rtranclp_induct)
  case base
  show ?case by (simp add: empty_pipe_def)
next
  case (step x y)
  from step.hyps(2) show ?case unfolding pipes_step_def
    by (elim disjE conjE) (use step.IH pipe_step_prefix [of "fst x" "fst y"] pipe_step_prefix [of "snd x" "snd y"] in simp_all)
qed

text \<open>The pipes a tunnel implements: what its ends have read, and what they have written since the start.\<close>

definition written_since :: "conn \<Rightarrow> conn \<Rightarrow> bytes" where
  "written_since c0 c = drop (length (concat (outs c0))) (concat (outs c))"

definition tunnel_pipes :: "conn \<Rightarrow> conn \<Rightarrow> tunnel \<Rightarrow> pipe \<times> pipe" where
  "tunnel_pipes w c T =
     (\<lparr>pp_in = tn_read T, pp_out = written_since c (sv_conn (tn_server T))\<rparr>,
      \<lparr>pp_in = tn_fetched T, pp_out = written_since w (ss_writer (tn_client T))\<rparr>)"

lemma written_since_append:
  "conveyed got c0 c se flight re \<Longrightarrow> concat (outs c') = concat (outs c) @ ws \<Longrightarrow>
   written_since c0 c' = written_since c0 c @ ws"
  by (auto simp: conveyed_def written_since_def)

lemma conveyed_deliver:
  assumes "conveyed got c0 c False (ws @ flight) re" and "concat (outs c') = concat (outs c) @ ws"
  shows "pipe_step \<lparr>pp_in = got, pp_out = written_since c0 c\<rparr> \<lparr>pp_in = got, pp_out = written_since c0 c'\<rparr>"
proof -
  obtain unsent where "got = written_since c0 c @ ws @ (flight @ unsent)"
    using assms(1) by (auto simp: conveyed_def written_since_def)
  then show ?thesis
    using Pipe_out [of "\<lparr>pp_in = got, pp_out = written_since c0 c\<rparr>" ws] written_since_append [OF assms] by simp
qed

lemma conveyed_written:
  "conveyed got c0 c se flight re \<Longrightarrow>
   \<exists>rest. got = written_since c0 c @ rest \<and> (\<not> re \<and> \<not> se \<longrightarrow> rest = flight)"
  by (auto simp: conveyed_def written_since_def)

lemma pipe_read: "pipe_step \<lparr>pp_in = got, pp_out = gone\<rparr> \<lparr>pp_in = got @ b, pp_out = gone\<rparr>"
  using Pipe_in [of "\<lparr>pp_in = got, pp_out = gone\<rparr>" b] by simp

lemma tunnel_step_pipes:
  assumes step: "tunnel_step a T T'" and r: "tunnel_reachable (tunnel_start addr f w c) T"
  shows "tunnel_pipes w c T' = tunnel_pipes w c T \<or> pipes_step (tunnel_pipes w c T) (tunnel_pipes w c T')"
  using step
proof (cases rule: tunnel_step.cases)
  case (Tn_client a s)
  then show ?thesis using client_step_quiet [OF Tn_client(3,4)] by (simp add: tunnel_pipes_def)
next
  case (Tn_upload r sendErr)
  then show ?thesis by (simp add: tunnel_pipes_def pipes_step_def pipe_read)
next
  case (Tn_recv m ms)
  obtain ws lost where "dst_chunk m = ws @ lost"
    "concat (outs (ss_writer (receive m (tn_client T)))) = concat (outs (ss_writer (tn_client T))) @ ws"
    using receive_bytes [OF Tn_recv(3)] by blast
  then show ?thesis using tunnel_reachable_data [OF r] Tn_recv(3,4)
    by (auto simp: Tn_recv(2) tunnel_pipes_def pipes_step_def down_conveyed_def intro: conveyed_deliver)
next
  case (Tn_server a t)
  then show ?thesis using server_step_quiet(1) [OF Tn_server(3,4)] by (simp add: tunnel_pipes_def)
next
  case (Tn_copy sendErr r ms e)
  then show ?thesis by (simp add: tunnel_pipes_def pipes_step_def pipe_read)
next
  case (Tn_srv_recv m ms)
  have "src_bytes (tn_up T) = src_bytes [m] @ src_bytes ms" using Tn_srv_recv(4) src_bytes_append [of "[m]" ms] by simp
  moreover obtain ws lost where "src_bytes [m] = ws @ lost"
    "concat (outs (sv_conn (sv_receive m (tn_server T)))) = concat (outs (sv_conn (tn_server T))) @ ws"
    using sv_receive_bytes by blast
  ultimately show ?thesis using tunnel_reachable_data [OF r] Tn_srv_recv(3)
    by (auto simp: Tn_srv_recv(2) tunnel_pipes_def pipes_step_def up_conveyed_def intro: conveyed_deliver)
qed (simp_all add: tunnel_pipes_def)

definition tunnel_move :: "tunnel \<Rightarrow> tunnel \<Rightarrow> bool" where
  "tunnel_move T T' \<longleftrightarrow> (\<exists>a. tunnel_step a T T')"

definition carries :: "conn \<Rightarrow> conn \<Rightarrow> tunnel \<Rightarrow> pipe \<times> pipe \<Rightarrow> bool" where
  "carries w c T x \<longleftrightarrow> (\<exists>addr f. tunnel_reachable (tunnel_start addr f w c) T) \<and> x = tunnel_pipes w c T"

interpretation tunnel_spec: refining tunnel_move pipes_step "carries w c" for w c
proof
  show "carries w c T x \<Longrightarrow> tunnel_move T T' \<Longrightarrow> \<exists>y. (y = x \<or> pipes_step x y) \<and> carries w c T' y" for T x T'
    unfolding carries_def tunnel_move_def using tunnel_step_pipes Tunnel_step by metis
qed

lemma tunnel_reachable_moves: "tunnel_reachable T0 T \<Longrightarrow> tunnel_move\<^sup>*\<^sup>* T0 T"
  by (induction rule: tunnel_reachable.induct) (auto simp: tunnel_move_def intro: rtranclp.rtrancl_into_rtrancl)

lemma carries_start: "carries w c (tunnel_start addr f w c) (empty_pipe, empty_pipe)"
  unfolding carries_def
  by (auto simp: tunnel_pipes_def written_since_def empty_pipe_def tunnel_start_def start_session_def NewForwarder_def intro: Tunnel_init)

end
