(* ===== verification/Transports.thy ===== *)
theory Transports
  imports TransportBase GoNet
begin

text \<open>
  The egress transports \<open>internal/transport/direct\<close>, \<open>forward\<close> and \<open>blackhole\<close> with
  \<open>CopyWithContext\<close> of \<open>copy.go\<close>. \<open>Direct.Proxy\<close> and \<open>Forward.Proxy\<close> are the same code after
  the dial: two copying goroutines, a session context, a \<open>closeOnce\<close> that closes both ends.
  The session is a step relation; what the two ends deliver and refuse is quantified in the
  rules. Sockets, the resolver and the upstream dialer are arguments.
\<close>

section \<open>Dialing\<close>

definition Direct_Dial :: "transport_settings \<Rightarrow> (string \<Rightarrow> string \<Rightarrow> int \<Rightarrow> 'c result) \<Rightarrow> string \<Rightarrow> string \<Rightarrow> 'c result" where
  "Direct_Dial ts dialTO network addr = dialTO (DialNetwork ts network) addr (dialTimeout ts)"

definition Forward_Dial :: "(string \<Rightarrow> string \<Rightarrow> 'c result) option \<Rightarrow> string \<Rightarrow> string \<Rightarrow> 'c result" where
  "Forward_Dial dialer network addr =
     (case dialer of Some d \<Rightarrow> d network addr | None \<Rightarrow> Inl (Errorf ''forward: dialer not attached''))"

definition BlackHole_Dial :: "string \<Rightarrow> string \<Rightarrow> 'c result" where
  "BlackHole_Dial network addr = Inl (Wrap ''blackHole'' (Sentinel ErrNotImplemented))"

text \<open>A resolved UDP address: the IP (empty for Go's \<open>nil\<close>) and the port.\<close>

definition DialPacketTarget ::
  "transport_settings \<Rightarrow> (string \<Rightarrow> string \<Rightarrow> (net_IP \<times> nat) result) \<Rightarrow> (string \<Rightarrow> net_IP \<times> nat \<Rightarrow> 'c result)
    \<Rightarrow> string \<Rightarrow> string \<Rightarrow> ('c \<times> (net_IP \<times> nat)) result" where
  "DialPacketTarget ts resolve dialUDP network addr =
     (let network = DialNetwork ts network in
      case resolve network addr of
        Inl e \<Rightarrow> Inl (Wrap ''direct: resolve packet addr'' e)
      | Inr (ip, port) \<Rightarrow>
          if ip = [] \<or> IP_IsUnspecified ip \<or> port = 0 then Inl (Errorf ''direct: invalid packet target'')
          else
            let dialNetwork = (if network = ''udp4'' \<or> IP_To4 ip \<noteq> None then ''udp4'' else ''udp6'') in
            if dialNetwork = ''udp6'' \<and> preferIPv4 ts
            then Inl (Errorf ''direct: IPv6 disabled, cannot dial packet target'')
            else case dialUDP dialNetwork (ip, port) of
                Inl e \<Rightarrow> Inl (Wrap ''direct: dial packet'' e)
              | Inr c \<Rightarrow> Inr (c, ip, port))"

definition DialPacket ::
  "transport_settings \<Rightarrow> (string \<Rightarrow> string \<Rightarrow> (net_IP \<times> nat) result) \<Rightarrow> (string \<Rightarrow> net_IP \<times> nat \<Rightarrow> 'c result)
    \<Rightarrow> string \<Rightarrow> string \<Rightarrow> 'c result" where
  "DialPacket ts resolve dialUDP network addr =
     (case DialPacketTarget ts resolve dialUDP network addr of Inl e \<Rightarrow> Inl e | Inr (c, _) \<Rightarrow> Inr c)"

text \<open>
  Names, and the dialer of a forward transport: \<open>Attach\<close> sets the one later transports are created
  with, the method replaces that of one transport. Closing a local egress does nothing.
\<close>

datatype local_egress = Direct | Forward | BlackHole

fun egress_String :: "local_egress \<Rightarrow> string" where
  "egress_String Direct = ''direct''"
| "egress_String Forward = ''forward''"
| "egress_String BlackHole = ''blackHole''"

definition egress_Close :: "local_egress \<Rightarrow> goerror option" where
  "egress_Close t = None"

definition forward_Attach :: "'d \<Rightarrow> 'd option \<Rightarrow> 'd option" where
  "forward_Attach d dialer = Some d"

record 'd Forward =
  fd_dialer :: "'d option"

definition forward_New :: "'d option \<Rightarrow> 'd Forward" where
  "forward_New dialer = \<lparr>fd_dialer = dialer\<rparr>"

definition Forward_Attach :: "'d \<Rightarrow> 'd Forward \<Rightarrow> 'd Forward" where
  "Forward_Attach d f = f\<lparr>fd_dialer := Some d\<rparr>"

text \<open>A transport created before a dialer was attached keeps refusing; one created later uses it.\<close>

lemma forward_attach:
  "Forward_Dial (fd_dialer (forward_New None)) network addr = Inl (Errorf ''forward: dialer not attached'') \<and>
   Forward_Dial (fd_dialer (forward_New (forward_Attach d dialer))) network addr = d network addr \<and>
   Forward_Dial (fd_dialer (Forward_Attach d f)) network addr = d network addr"
  by (simp add: Forward_Dial_def forward_New_def forward_Attach_def Forward_Attach_def)

section \<open>Connected packet sockets (direct.go)\<close>

text \<open>
  A connected UDP socket: its peer, the datagrams that reached it with their senders, and what was
  written. The kernel drops what does not come from the peer; a read returns one datagram,
  cut to the buffer.
\<close>

record connectedPacketConn =
  cp_remote :: "net_IP \<times> nat"
  cp_arrived :: "((net_IP \<times> nat) \<times> bytes) list"
  cp_written :: "((net_IP \<times> nat) \<times> bytes) list"

fun udp_Read :: "net_IP \<times> nat \<Rightarrow> nat \<Rightarrow> ((net_IP \<times> nat) \<times> bytes) list \<Rightarrow> (bytes \<times> ((net_IP \<times> nat) \<times> bytes) list) option" where
  "udp_Read peer n [] = None"
| "udp_Read peer n ((from, d) # ds) = (if from = peer then Some (take n d, ds) else udp_Read peer n ds)"

definition connected_ReadFrom :: "nat \<Rightarrow> connectedPacketConn \<Rightarrow> ((bytes \<times> (net_IP \<times> nat)) \<times> connectedPacketConn) option" where
  "connected_ReadFrom n c =
     map_option (\<lambda>(d, rest). ((d, cp_remote c), c\<lparr>cp_arrived := rest\<rparr>)) (udp_Read (cp_remote c) n (cp_arrived c))"

definition connected_WriteTo :: "bytes \<Rightarrow> net_IP \<times> nat \<Rightarrow> connectedPacketConn \<Rightarrow> connectedPacketConn" where
  "connected_WriteTo p addr c = c\<lparr>cp_written := cp_written c @ [(cp_remote c, p)]\<rparr>"

fun read_all :: "nat \<Rightarrow> nat \<Rightarrow> connectedPacketConn \<Rightarrow> (bytes \<times> (net_IP \<times> nat)) list" where
  "read_all 0 n c = []"
| "read_all (Suc k) n c = (case connected_ReadFrom n c of None \<Rightarrow> [] | Some (r, c') \<Rightarrow> r # read_all k n c')"

lemma udp_Read_Some:
  "udp_Read peer n ds = Some (d, rest) \<Longrightarrow>
   \<exists>d0. filter (\<lambda>x. fst x = peer) ds = (peer, d0) # filter (\<lambda>x. fst x = peer) rest \<and> d = take n d0 \<and> length rest < length ds"
  by (induction peer n ds rule: udp_Read.induct) (auto split: if_splits)

lemma udp_Read_None: "udp_Read peer n ds = None \<longleftrightarrow> filter (\<lambda>x. fst x = peer) ds = []"
  by (induction peer n ds rule: udp_Read.induct) auto

text \<open>
  Nothing can be injected into a relayed flow. What is read from a connected socket are the
  datagrams of the dialed peer, all of them, in order, each under the peer's own address,
  whatever else arrived at its port.
\<close>

lemma connected_no_injection:
  assumes "length (cp_arrived c) \<le> k"
  shows "read_all k n c = map (\<lambda>x. (take n (snd x), cp_remote c)) (filter (\<lambda>x. fst x = cp_remote c) (cp_arrived c))"
  using assms
proof (induction k arbitrary: c)
  case (Suc k)
  show ?case
  proof (cases "udp_Read (cp_remote c) n (cp_arrived c)")
    case None
    moreover have "filter (\<lambda>x. fst x = cp_remote c) (cp_arrived c) = []" using None by (simp only: udp_Read_None)
    ultimately show ?thesis by (simp add: connected_ReadFrom_def)
  next
    case (Some r)
    obtain d rest where r: "r = (d, rest)" by (cases r)
    from udp_Read_Some [OF Some [unfolded r]] obtain d0 where d0:
      "filter (\<lambda>x. fst x = cp_remote c) (cp_arrived c) = (cp_remote c, d0) # filter (\<lambda>x. fst x = cp_remote c) rest"
      "d = take n d0" "length rest < length (cp_arrived c)" by blast
    then show ?thesis using Suc.IH [of "c\<lparr>cp_arrived := rest\<rparr>"] Suc.prems Some r by (simp add: connected_ReadFrom_def)
  qed
qed simp

section \<open>Copying with a context\<close>

text \<open>
  One direction: what the source will still deliver, what was written, the goroutine that
  copies with its result, and the caller of \<open>CopyWithContext\<close>.
\<close>

datatype copy_pc = Copying | CopyDone int "goerror option"
datatype dir_pc = DirWaiting | DirUnblocked | DirFinished "goerror option"

record copy_dir =
  cd_src :: bytes
  cd_dst :: bytes
  cd_n :: int
  cd_pc :: copy_pc
  cd_outer :: dir_pc

definition new_dir :: "bytes \<Rightarrow> copy_dir" where
  "new_dir bs = \<lparr>cd_src = bs, cd_dst = [], cd_n = 0, cd_pc = Copying, cd_outer = DirWaiting\<rparr>"

text \<open>
  The loop of \<open>io.CopyBuffer\<close>: a read of at most \<open>k\<close> bytes of which the writer takes \<open>w\<close>, with
  or without an error; and a read that returns an error, end of file being none.
\<close>

definition copy_chunk :: "nat \<Rightarrow> nat \<Rightarrow> goerror option \<Rightarrow> copy_dir \<Rightarrow> copy_dir" where
  "copy_chunk k w ew d =
     (let p = take k (cd_src d); w = min w (length p);
          d1 = d\<lparr>cd_src := drop k (cd_src d), cd_dst := cd_dst d @ take w p, cd_n := cd_n d + int w\<rparr>
      in case ew of
           Some e \<Rightarrow> d1\<lparr>cd_pc := CopyDone (cd_n d1) (Some e)\<rparr>
         | None \<Rightarrow> if w \<noteq> length p then d1\<lparr>cd_pc := CopyDone (cd_n d1) (Some (Sentinel ErrShortWrite))\<rparr> else d1)"

definition copy_end :: "goerror \<Rightarrow> copy_dir \<Rightarrow> copy_dir" where
  "copy_end er d = d\<lparr>cd_pc := CopyDone (cd_n d) (if er = Sentinel EOF then None else Some er)\<rparr>"

section \<open>A session\<close>

text \<open>
  \<open>ps_closed\<close> lists the calls of \<open>Close\<close> by the identity of what is closed. \<open>ps_reads\<close> is the
  connection the source reads from: the source itself, or, for the buffered reader of a SOCKS
  client, the connection that is passed as the destination.
\<close>

record proxy_session =
  ps_out :: copy_dir
  ps_in :: copy_dir
  ps_src :: closable
  ps_dst :: closable
  ps_reads :: nat
  ps_conn :: nat
  ps_halfCloses :: bool
  ps_ctxDone :: bool
  ps_closeOnce :: bool
  ps_closed :: "nat list"
  ps_halfClosed :: bool
  ps_responseDone :: bool
  ps_group :: "goerror option"
  ps_stats :: stats
  ps_announced :: "string list"
  ps_returned :: bool

definition start_proxy ::
  "bytes \<Rightarrow> bytes \<Rightarrow> closable \<Rightarrow> closable \<Rightarrow> nat \<Rightarrow> nat \<Rightarrow> bool \<Rightarrow> stats \<Rightarrow> string \<Rightarrow> proxy_session" where
  "start_proxy request response src dst reads conn half st local =
     \<lparr>ps_out = new_dir request, ps_in = new_dir response, ps_src = src, ps_dst = dst, ps_reads = reads,
      ps_conn = conn, ps_halfCloses = half, ps_ctxDone = False, ps_closeOnce = False, ps_closed = [],
      ps_halfClosed = False, ps_responseDone = False, ps_group = None, ps_stats = st, ps_announced = [local],
      ps_returned = False\<rparr>"

fun get_dir :: "Direction \<Rightarrow> proxy_session \<Rightarrow> copy_dir" where
  "get_dir DirectionOut s = ps_out s"
| "get_dir DirectionIn s = ps_in s"

fun set_dir :: "Direction \<Rightarrow> copy_dir \<Rightarrow> proxy_session \<Rightarrow> proxy_session" where
  "set_dir DirectionOut d s = s\<lparr>ps_out := d\<rparr>"
| "set_dir DirectionIn d s = s\<lparr>ps_in := d\<rparr>"

definition closeSession :: "proxy_session \<Rightarrow> proxy_session" where
  "closeSession s =
     (if ps_closeOnce s then s
      else s\<lparr>ps_closeOnce := True, ps_closed := ps_closed s @ CloseAll [ps_src s, ps_dst s, Closer (ps_conn s)]\<rparr>)"

definition cancel_session :: "proxy_session \<Rightarrow> proxy_session" where
  "cancel_session s = s\<lparr>ps_ctxDone := True\<rparr>"

definition group_return :: "goerror option \<Rightarrow> proxy_session \<Rightarrow> proxy_session" where
  "group_return err s = s\<lparr>ps_group := (case ps_group s of None \<Rightarrow> err | Some e \<Rightarrow> Some e)\<rparr>"

text \<open>What the two goroutines do with the result of \<open>CopyWithContext\<close>.\<close>

definition benign :: "goerror option \<Rightarrow> bool" where
  "benign err = (case err of None \<Rightarrow> True | Some e \<Rightarrow> errors_Is e EOF)"

definition half_close_conn :: "proxy_session \<Rightarrow> proxy_session" where
  "half_close_conn s =
     (case CloseWriteOrClose (ps_halfCloses s) True of
        Some CloseWriteCall \<Rightarrow> s\<lparr>ps_halfClosed := True\<rparr>
      | Some CloseCall \<Rightarrow> s\<lparr>ps_closed := ps_closed s @ [ps_conn s]\<rparr>
      | None \<Rightarrow> s)"

definition out_returns :: "goerror option \<Rightarrow> proxy_session \<Rightarrow> proxy_session" where
  "out_returns err s =
     group_return err (if \<not> benign err then closeSession (cancel_session s) else half_close_conn s)"

definition in_returns :: "goerror option \<Rightarrow> proxy_session \<Rightarrow> proxy_session" where
  "in_returns err s =
     group_return err (closeSession (cancel_session (if benign err then s\<lparr>ps_responseDone := True\<rparr> else s)))"

fun dir_returns :: "Direction \<Rightarrow> goerror option \<Rightarrow> proxy_session \<Rightarrow> proxy_session" where
  "dir_returns DirectionOut err s = out_returns err s"
| "dir_returns DirectionIn err s = in_returns err s"

text \<open>The result channel is read: the bytes are counted, the direction has finished.\<close>

definition take_result :: "Direction \<Rightarrow> int \<Rightarrow> goerror option \<Rightarrow> proxy_session \<Rightarrow> proxy_session" where
  "take_result i n err s =
     dir_returns i err
       (set_dir i ((get_dir i s)\<lparr>cd_outer := DirFinished err\<rparr>) (s\<lparr>ps_stats := stats_Add i n (ps_stats s)\<rparr>))"

definition both_finished :: "proxy_session \<Rightarrow> bool" where
  "both_finished s = (\<forall>i \<in> {DirectionOut, DirectionIn}. case cd_outer (get_dir i s) of DirFinished _ \<Rightarrow> True | _ \<Rightarrow> False)"

definition Proxy_result :: "string \<Rightarrow> proxy_session \<Rightarrow> goerror option" where
  "Proxy_result name s =
     (case ps_group s of
        None \<Rightarrow> None
      | Some e \<Rightarrow> if errors_Is e EOF then None else if ps_responseDone s then None else Some (Wrap name e))"

text \<open>\<open>Proxy\<close> up to its goroutines: a failed dial returns its error and announces nothing.\<close>

definition egress_Proxy :: "(string \<times> nat) result \<Rightarrow> (string \<Rightarrow> nat \<Rightarrow> proxy_session) \<Rightarrow> goerror option \<times> proxy_session option" where
  "egress_Proxy dialed session =
     (case dialed of Inl e \<Rightarrow> (Some e, None) | Inr (local, conn) \<Rightarrow> (None, Some (session local conn)))"

datatype proxy_action = PCopy | PEnd Direction | PTake Direction | PCtx Direction | PReturn | PCancel

inductive proxy_step :: "proxy_action \<Rightarrow> proxy_session \<Rightarrow> proxy_session \<Rightarrow> bool" where
  Chunk: "cd_pc (get_dir i s) = Copying \<Longrightarrow> proxy_step PCopy s (set_dir i (copy_chunk k w ew (get_dir i s)) s)"
| End: "cd_pc (get_dir i s) = Copying \<Longrightarrow> er = Sentinel EOF \<longrightarrow> cd_src (get_dir i s) = [] \<Longrightarrow>
    proxy_step (PEnd i) s (set_dir i (copy_end er (get_dir i s)) s)"
| Result: "cd_outer (get_dir i s) = DirWaiting \<Longrightarrow> cd_pc (get_dir i s) = CopyDone n err \<Longrightarrow>
    proxy_step (PTake i) s (take_result i n err s)"
| Ctx: "cd_outer (get_dir i s) = DirWaiting \<Longrightarrow> ps_ctxDone s \<Longrightarrow>
    proxy_step (PCtx i) s (closeSession (set_dir i ((get_dir i s)\<lparr>cd_outer := DirUnblocked\<rparr>) s))"
| Unblocked: "cd_outer (get_dir i s) = DirUnblocked \<Longrightarrow> cd_pc (get_dir i s) = CopyDone n err \<Longrightarrow>
    proxy_step (PTake i) s (take_result i n (Some (Sentinel Canceled)) s)"
| Returns: "both_finished s \<Longrightarrow> \<not> ps_returned s \<Longrightarrow>
    proxy_step PReturn s (cancel_session (s\<lparr>ps_returned := True, ps_closed := ps_closed s @ [ps_conn s]\<rparr>))"
| Parent: "proxy_step PCancel s (cancel_session s)"

inductive proxy_reachable :: "proxy_session \<Rightarrow> proxy_session \<Rightarrow> bool" for s0 where
  Proxy_init: "proxy_reachable s0 s0"
| Proxy_step: "proxy_reachable s0 s \<Longrightarrow> proxy_step a s s' \<Longrightarrow> proxy_reachable s0 s'"

section \<open>The blackhole\<close>

text \<open>Events of \<open>BlackHole.Proxy\<close>: a read of the drain goroutine, or the end of the context.\<close>

datatype hole_event = HoleRead bytes "goerror option" | HoleCancelled

fun BlackHole_Proxy :: "hole_event list \<Rightarrow> stats \<Rightarrow> goerror option option \<times> stats" where
  "BlackHole_Proxy [] st = (None, st)"
| "BlackHole_Proxy (HoleCancelled # es) st = (Some (Some (Sentinel Canceled)), st)"
| "BlackHole_Proxy (HoleRead b err # es) st =
     (let st = (if b \<noteq> [] then AddRx (of_nat (length b)) st else st) in
      case err of
        None \<Rightarrow> BlackHole_Proxy es st
      | Some e \<Rightarrow> (Some (if e = Sentinel EOF then None else Some e), st))"

section \<open>Invariant of a direction\<close>

text \<open>
  What was written is a prefix of what the source had; bytes are lost only where the copy ended
  with an error, and a copy that ended without one has delivered everything.
\<close>

definition dir_inv :: "bytes \<Rightarrow> copy_dir \<Rightarrow> bool" where
  "dir_inv all d \<longleftrightarrow>
     cd_n d = int (length (cd_dst d)) \<and>
     (\<exists>lost. all = cd_dst d @ lost @ cd_src d \<and> (lost \<noteq> [] \<longrightarrow> (\<exists>n e. cd_pc d = CopyDone n (Some e)))) \<and>
     (\<forall>n err. cd_pc d = CopyDone n err \<longrightarrow> n = cd_n d \<and> (err = None \<longrightarrow> cd_src d = [])) \<and>
     (\<forall>err. cd_outer d = DirFinished err \<longrightarrow>
        (\<exists>n err'. cd_pc d = CopyDone n err' \<and> (err = err' \<or> err = Some (Sentinel Canceled))))"

lemma dir_inv_new: "dir_inv bs (new_dir bs)"
  by (simp add: dir_inv_def new_dir_def)

lemma dir_inv_chunk:
  assumes "dir_inv all d" and "cd_pc d = Copying"
  shows "dir_inv all (copy_chunk k w ew d)"
proof -
  let ?p = "take k (cd_src d)"
  let ?w = "min w (length ?p)"
  have n: "cd_n d = int (length (cd_dst d))" "all = cd_dst d @ cd_src d" "\<And>err. cd_outer d \<noteq> DirFinished err"
    using assms by (auto simp: dir_inv_def)
  have all: "all = (cd_dst d @ take ?w ?p) @ drop ?w ?p @ drop k (cd_src d)"
    using n(2) by (metis append_assoc append_take_drop_id)
  show ?thesis
  proof (cases "ew = None \<and> ?w = length ?p")
    case True
    moreover have "take (min (length xs) k) xs = take k xs" for xs :: bytes by (simp add: min_def)
    ultimately show ?thesis using n assms by (simp add: copy_chunk_def Let_def dir_inv_def)
  next
    case False
    with n(1,3) all assms show ?thesis
      by (cases ew) (auto simp: copy_chunk_def Let_def dir_inv_def intro!: exI [of _ "drop ?w ?p"])
  qed
qed

lemma dir_inv_end:
  assumes "dir_inv all d" and "cd_pc d = Copying" and "er = Sentinel EOF \<longrightarrow> cd_src d = []"
  shows "dir_inv all (copy_end er d)"
  using assms by (auto simp: dir_inv_def copy_end_def)

lemma dir_inv_unblock: "dir_inv all d \<Longrightarrow> cd_outer d = DirWaiting \<Longrightarrow> dir_inv all (d\<lparr>cd_outer := DirUnblocked\<rparr>)"
  by (auto simp: dir_inv_def)

lemma dir_inv_finish:
  assumes "dir_inv all d" and "cd_pc d = CopyDone n err" and "err' = err \<or> err' = Some (Sentinel Canceled)"
  shows "dir_inv all (d\<lparr>cd_outer := DirFinished err'\<rparr>)"
  using assms by (auto simp: dir_inv_def)

section \<open>Fields\<close>

lemma get_set_dir [simp]:
  "get_dir i (set_dir i d s) = d" "j \<noteq> i \<Longrightarrow> get_dir j (set_dir i d s) = get_dir j s"
  by (cases i; cases j; simp)+

lemma get_set_dir_if: "get_dir j (set_dir i d s) = (if j = i then d else get_dir j s)"
  by simp

lemma set_dir_fields [simp]:
  "ps_src (set_dir i d s) = ps_src s" "ps_dst (set_dir i d s) = ps_dst s" "ps_reads (set_dir i d s) = ps_reads s"
  "ps_conn (set_dir i d s) = ps_conn s" "ps_ctxDone (set_dir i d s) = ps_ctxDone s"
  "ps_closeOnce (set_dir i d s) = ps_closeOnce s" "ps_closed (set_dir i d s) = ps_closed s"
  "ps_responseDone (set_dir i d s) = ps_responseDone s" "ps_group (set_dir i d s) = ps_group s"
  "ps_stats (set_dir i d s) = ps_stats s" "ps_returned (set_dir i d s) = ps_returned s"
  "ps_halfCloses (set_dir i d s) = ps_halfCloses s"
  by (cases i; simp)+

lemma closeSession_fields [simp]:
  "get_dir i (closeSession s) = get_dir i s" "ps_src (closeSession s) = ps_src s" "ps_dst (closeSession s) = ps_dst s"
  "ps_reads (closeSession s) = ps_reads s" "ps_conn (closeSession s) = ps_conn s"
  "ps_ctxDone (closeSession s) = ps_ctxDone s" "ps_closeOnce (closeSession s)"
  "ps_responseDone (closeSession s) = ps_responseDone s" "ps_group (closeSession s) = ps_group s"
  "ps_stats (closeSession s) = ps_stats s" "ps_returned (closeSession s) = ps_returned s"
  by (cases i; simp add: closeSession_def)+

lemma cancel_session_fields [simp]:
  "get_dir i (cancel_session s) = get_dir i s" "ps_src (cancel_session s) = ps_src s" "ps_dst (cancel_session s) = ps_dst s"
  "ps_reads (cancel_session s) = ps_reads s" "ps_conn (cancel_session s) = ps_conn s" "ps_ctxDone (cancel_session s)"
  "ps_closeOnce (cancel_session s) = ps_closeOnce s" "ps_closed (cancel_session s) = ps_closed s"
  "ps_responseDone (cancel_session s) = ps_responseDone s" "ps_group (cancel_session s) = ps_group s"
  "ps_stats (cancel_session s) = ps_stats s" "ps_returned (cancel_session s) = ps_returned s"
  by (cases i; simp add: cancel_session_def)+

lemma half_close_conn_fields [simp]:
  "get_dir i (half_close_conn s) = get_dir i s" "ps_src (half_close_conn s) = ps_src s"
  "ps_dst (half_close_conn s) = ps_dst s" "ps_reads (half_close_conn s) = ps_reads s"
  "ps_conn (half_close_conn s) = ps_conn s" "ps_ctxDone (half_close_conn s) = ps_ctxDone s"
  "ps_closeOnce (half_close_conn s) = ps_closeOnce s" "ps_responseDone (half_close_conn s) = ps_responseDone s"
  "ps_group (half_close_conn s) = ps_group s" "ps_stats (half_close_conn s) = ps_stats s"
  "ps_returned (half_close_conn s) = ps_returned s"
  by (cases i; simp add: half_close_conn_def CloseWriteOrClose_def)+

lemma group_return_fields [simp]:
  "get_dir i (group_return e s) = get_dir i s" "ps_src (group_return e s) = ps_src s" "ps_dst (group_return e s) = ps_dst s"
  "ps_reads (group_return e s) = ps_reads s" "ps_conn (group_return e s) = ps_conn s"
  "ps_ctxDone (group_return e s) = ps_ctxDone s" "ps_closeOnce (group_return e s) = ps_closeOnce s"
  "ps_closed (group_return e s) = ps_closed s" "ps_responseDone (group_return e s) = ps_responseDone s"
  "ps_stats (group_return e s) = ps_stats s" "ps_returned (group_return e s) = ps_returned s"
  by (cases i; simp add: group_return_def)+

lemma out_returns_fields [simp]:
  "get_dir j (out_returns e s) = get_dir j s" "ps_src (out_returns e s) = ps_src s" "ps_dst (out_returns e s) = ps_dst s"
  "ps_reads (out_returns e s) = ps_reads s" "ps_conn (out_returns e s) = ps_conn s"
  "ps_stats (out_returns e s) = ps_stats s" "ps_returned (out_returns e s) = ps_returned s"
  "ps_responseDone (out_returns e s) = ps_responseDone s"
  "ps_ctxDone s \<Longrightarrow> ps_ctxDone (out_returns e s)" "ps_closeOnce s \<Longrightarrow> ps_closeOnce (out_returns e s)"
  by (simp_all add: out_returns_def)

lemma get_dir_responseDone [simp]: "get_dir j (s\<lparr>ps_responseDone := b\<rparr>) = get_dir j s"
  by (cases j) simp_all

lemma in_returns_fields [simp]:
  "get_dir j (in_returns e s) = get_dir j s" "ps_src (in_returns e s) = ps_src s" "ps_dst (in_returns e s) = ps_dst s"
  "ps_reads (in_returns e s) = ps_reads s" "ps_conn (in_returns e s) = ps_conn s"
  "ps_stats (in_returns e s) = ps_stats s" "ps_returned (in_returns e s) = ps_returned s"
  "ps_responseDone (in_returns e s) \<longleftrightarrow> benign e \<or> ps_responseDone s"
  "ps_ctxDone (in_returns e s)" "ps_closeOnce (in_returns e s)"
  by (simp_all add: in_returns_def)

lemma dir_returns_fields [simp]:
  "get_dir j (dir_returns i e s) = get_dir j s" "ps_src (dir_returns i e s) = ps_src s" "ps_dst (dir_returns i e s) = ps_dst s"
  "ps_reads (dir_returns i e s) = ps_reads s" "ps_conn (dir_returns i e s) = ps_conn s"
  "ps_stats (dir_returns i e s) = ps_stats s" "ps_returned (dir_returns i e s) = ps_returned s"
  "ps_ctxDone s \<Longrightarrow> ps_ctxDone (dir_returns i e s)" "ps_closeOnce s \<Longrightarrow> ps_closeOnce (dir_returns i e s)"
  by (cases i; simp)+

lemma get_dir_stats [simp]: "get_dir j (s\<lparr>ps_stats := x\<rparr>) = get_dir j s"
  by (cases j) simp_all

lemma get_dir_return [simp]: "get_dir j (s\<lparr>ps_returned := b, ps_closed := cs\<rparr>) = get_dir j s"
  by (cases j) simp_all

declare get_dir.simps [simp del] set_dir.simps [simp del]

section \<open>Invariant of a session\<close>

definition session_closers :: "proxy_session \<Rightarrow> nat set" where
  "session_closers s = {c. Closer c \<in> {ps_src s, ps_dst s}}"

definition finished :: "Direction \<Rightarrow> proxy_session \<Rightarrow> bool" where
  "finished i s = (case cd_outer (get_dir i s) of DirFinished _ \<Rightarrow> True | _ \<Rightarrow> False)"

definition counted :: "Direction \<Rightarrow> proxy_session \<Rightarrow> int" where
  "counted i s = (if finished i s then int (length (cd_dst (get_dir i s))) else 0)"

definition close_inv :: "proxy_session \<Rightarrow> bool" where
  "close_inv s \<longleftrightarrow>
     (\<forall>c. c \<noteq> ps_conn s \<longrightarrow> count_list (ps_closed s) c = of_bool (ps_closeOnce s \<and> c \<in> session_closers s)) \<and>
     (ps_closeOnce s \<longrightarrow> ps_conn s \<in> set (ps_closed s))"

definition flow_inv :: "proxy_session \<Rightarrow> bool" where
  "flow_inv s \<longleftrightarrow>
     (finished DirectionIn s \<longrightarrow> ps_closeOnce s \<and> ps_ctxDone s) \<and>
     (cd_outer (get_dir DirectionIn s) = DirFinished None \<longrightarrow> ps_responseDone s) \<and>
     (\<forall>i. cd_outer (get_dir i s) = DirUnblocked \<longrightarrow> ps_closeOnce s \<and> ps_ctxDone s) \<and>
     (ps_returned s \<longrightarrow> both_finished s)"

definition stats_inv :: "stats \<Rightarrow> proxy_session \<Rightarrow> bool" where
  "stats_inv st s \<longleftrightarrow>
     tx (ps_stats s) = tx st + of_int (counted DirectionOut s) \<and> rx (ps_stats s) = rx st + of_int (counted DirectionIn s)"

lemma count_list_distinct: "distinct xs \<Longrightarrow> count_list xs x = of_bool (x \<in> set xs)"
  by (induction xs) auto

lemma count_CloseAll: "count_list (CloseAll vs) c = of_bool (Closer c \<in> set vs)"
  using close_all_loop_spec [of "[]" vs] by (simp add: CloseAll_def count_list_distinct)

lemma both_finished_iff: "both_finished s \<longleftrightarrow> (\<forall>i. finished i s)"
  unfolding both_finished_def finished_def by (metis Direction.exhaust insert_iff)

lemma closeSession_close_inv:
  assumes "close_inv s"
  shows "close_inv (closeSession s)"
proof (cases "ps_closeOnce s")
  case True
  with assms show ?thesis by (simp add: closeSession_def)
next
  case False
  then have "count_list (ps_closed s) c = 0" if "c \<noteq> ps_conn s" for c using assms that by (simp add: close_inv_def)
  moreover have "set (CloseAll vs) = {c. Closer c \<in> set vs}" for vs using close_all_loop_spec [of "[]"] by (simp add: CloseAll_def)
  ultimately show ?thesis
    using False by (auto simp: close_inv_def closeSession_def session_closers_def count_CloseAll)
qed

lemma close_inv_cong:
  "ps_closed s' = ps_closed s \<Longrightarrow> ps_closeOnce s' = ps_closeOnce s \<Longrightarrow> ps_conn s' = ps_conn s \<Longrightarrow>
   ps_src s' = ps_src s \<Longrightarrow> ps_dst s' = ps_dst s \<Longrightarrow> close_inv s \<Longrightarrow> close_inv s'"
  by (simp add: close_inv_def session_closers_def)

lemma close_conn_close_inv: "close_inv s \<Longrightarrow> close_inv (s\<lparr>ps_closed := ps_closed s @ [ps_conn s]\<rparr>)"
  by (auto simp: close_inv_def session_closers_def)

lemma half_close_conn_close_inv: "close_inv s \<Longrightarrow> close_inv (half_close_conn s)"
  using close_conn_close_inv [of s]
  by (auto simp: half_close_conn_def CloseWriteOrClose_def close_inv_def session_closers_def)

lemma dir_returns_close_inv:
  assumes "close_inv s"
  shows "close_inv (dir_returns i e s)"
proof -
  have c: "close_inv (cancel_session t)" if "close_inv t" for t by (rule close_inv_cong [OF _ _ _ _ _ that]) simp_all
  have g: "close_inv (group_return e t)" if "close_inv t" for t by (rule close_inv_cong [OF _ _ _ _ _ that]) simp_all
  have d: "close_inv (s\<lparr>ps_responseDone := True\<rparr>)" by (rule close_inv_cong [OF _ _ _ _ _ assms]) simp_all
  show ?thesis
    using assms d
    by (cases i) (simp_all add: out_returns_def in_returns_def c g closeSession_close_inv half_close_conn_close_inv)
qed

lemma set_dir_close_inv: "close_inv s \<Longrightarrow> close_inv (set_dir i d s)"
  by (rule close_inv_cong) simp_all

lemma take_result_close_inv:
  assumes "close_inv s"
  shows "close_inv (take_result i n err s)"
  unfolding take_result_def
  by (intro dir_returns_close_inv set_dir_close_inv, rule close_inv_cong [OF _ _ _ _ _ assms]) simp_all

lemma close_inv_step: "proxy_step a s s' \<Longrightarrow> close_inv s \<Longrightarrow> close_inv s'"
proof (induction rule: proxy_step.induct)
  case (Returns s)
  from close_conn_close_inv [OF \<open>close_inv s\<close>] show ?case by (rule close_inv_cong [rotated -1]) simp_all
next
  case (Parent s)
  then show ?case by (rule close_inv_cong [rotated -1]) simp_all
qed (simp_all add: set_dir_close_inv take_result_close_inv closeSession_close_inv)

text \<open>The two directions keep their invariants.\<close>

definition dirs_inv :: "bytes \<Rightarrow> bytes \<Rightarrow> proxy_session \<Rightarrow> bool" where
  "dirs_inv request response s \<longleftrightarrow> dir_inv request (get_dir DirectionOut s) \<and> dir_inv response (get_dir DirectionIn s)"

lemma dirs_inv_cong: "(\<And>i. get_dir i s' = get_dir i s) \<Longrightarrow> dirs_inv rq rs s \<Longrightarrow> dirs_inv rq rs s'"
  by (simp add: dirs_inv_def)

lemma dirs_inv_set:
  "dirs_inv rq rs s \<Longrightarrow> (\<And>all. dir_inv all (get_dir i s) \<Longrightarrow> dir_inv all d) \<Longrightarrow> dirs_inv rq rs (set_dir i d s)"
  by (cases i) (simp_all add: dirs_inv_def)

lemma take_result_dir:
  "get_dir j (take_result i n err s) = (if j = i then (get_dir i s)\<lparr>cd_outer := DirFinished err\<rparr> else get_dir j s)"
  by (simp add: take_result_def)

lemma dirs_inv_take:
  assumes "dirs_inv rq rs s" and "cd_pc (get_dir i s) = CopyDone n err" and "err' = err \<or> err' = Some (Sentinel Canceled)"
  shows "dirs_inv rq rs (take_result i n err' s)"
  using assms dir_inv_finish [OF _ assms(2,3)] by (cases i) (auto simp: dirs_inv_def take_result_dir)

lemma dirs_inv_step: "proxy_step a s s' \<Longrightarrow> dirs_inv rq rs s \<Longrightarrow> dirs_inv rq rs s'"
proof (induction rule: proxy_step.induct)
  case (Chunk i s k w ew)
  then show ?case by (intro dirs_inv_set dir_inv_chunk)
next
  case (End i s er)
  then show ?case by (intro dirs_inv_set dir_inv_end)
next
  case (Result i s n err)
  then show ?case using dirs_inv_take [of rq rs s i n err err] by simp
next
  case (Ctx i s)
  then have "dirs_inv rq rs (set_dir i ((get_dir i s)\<lparr>cd_outer := DirUnblocked\<rparr>) s)" by (intro dirs_inv_set dir_inv_unblock)
  then show ?case by (rule dirs_inv_cong [rotated]) simp
next
  case (Unblocked i s n err)
  then show ?case using dirs_inv_take [of rq rs s i n err "Some (Sentinel Canceled)"] by simp
next
  case (Returns s)
  show ?case by (rule dirs_inv_cong [OF _ \<open>dirs_inv rq rs s\<close>]) simp
next
  case (Parent s)
  then show ?case by (rule dirs_inv_cong [rotated]) simp
qed

text \<open>Control flow and accounting.\<close>

lemma take_result_fields [simp]:
  "ps_returned (take_result i n err s) = ps_returned s" "ps_conn (take_result i n err s) = ps_conn s"
  "ps_src (take_result i n err s) = ps_src s" "ps_dst (take_result i n err s) = ps_dst s"
  "ps_reads (take_result i n err s) = ps_reads s" "ps_stats (take_result i n err s) = stats_Add i n (ps_stats s)"
  "ps_ctxDone s \<Longrightarrow> ps_ctxDone (take_result i n err s)" "ps_closeOnce s \<Longrightarrow> ps_closeOnce (take_result i n err s)"
  by (simp_all add: take_result_def)

lemma take_result_In:
  "ps_ctxDone (take_result DirectionIn n err s)" "ps_closeOnce (take_result DirectionIn n err s)"
  "ps_responseDone (take_result DirectionIn n err s) \<longleftrightarrow> benign err \<or> ps_responseDone s"
  "ps_responseDone (take_result DirectionOut n err s) = ps_responseDone s"
  by (simp_all add: take_result_def)

lemma finished_take: "finished j (take_result i n err s) \<longleftrightarrow> j = i \<or> finished j s"
  by (simp add: finished_def take_result_dir)

lemma flow_inv_take:
  assumes "flow_inv s" and "\<not> finished i s"
  shows "flow_inv (take_result i n err s)"
proof (cases i)
  case DirectionIn
  with assms show ?thesis
    by (auto simp: flow_inv_def both_finished_iff take_result_In benign_def take_result_dir split: if_splits)
next
  case DirectionOut
  with assms DirectionOut show ?thesis
    by (auto simp: flow_inv_def both_finished_iff take_result_In finished_take take_result_dir split: if_splits)
qed

lemma finished_set_dir: "finished j (set_dir i d s) \<longleftrightarrow> (if j = i then (\<exists>e. cd_outer d = DirFinished e) else finished j s)"
  by (auto simp: finished_def split: dir_pc.splits)

lemma finished_iff: "finished i s \<longleftrightarrow> (\<exists>e. cd_outer (get_dir i s) = DirFinished e)"
  by (auto simp: finished_def split: dir_pc.splits)

lemma copy_outer [simp]: "cd_outer (copy_chunk k w ew d) = cd_outer d" "cd_outer (copy_end er d) = cd_outer d"
  by (simp_all add: copy_chunk_def copy_end_def Let_def split: option.split)

lemma flow_inv_outer:
  assumes "flow_inv s" and "\<And>i. cd_outer (get_dir i s') = cd_outer (get_dir i s)" and "ps_closeOnce s' = ps_closeOnce s"
    and "ps_ctxDone s \<longrightarrow> ps_ctxDone s'" and "ps_responseDone s' = ps_responseDone s"
    and "ps_returned s' = ps_returned s \<or> both_finished s"
  shows "flow_inv s'"
  using assms(1,3-) by (auto simp: flow_inv_def both_finished_iff finished_iff assms(2))

lemma flow_inv_step: "proxy_step a s s' \<Longrightarrow> flow_inv s \<Longrightarrow> flow_inv s'"
proof (induction rule: proxy_step.induct)
  case (Chunk i s k w ew)
  show ?case by (rule flow_inv_outer [OF \<open>flow_inv s\<close>]) (simp_all add: get_set_dir_if)
next
  case (End i s er)
  show ?case by (rule flow_inv_outer [OF \<open>flow_inv s\<close>]) (simp_all add: get_set_dir_if)
next
  case (Result i s n err)
  then show ?case by (simp add: flow_inv_take finished_iff)
next
  case (Ctx i s)
  then have "\<not> ps_returned s" using finished_iff [of i s] by (auto simp: flow_inv_def both_finished_iff)
  with Ctx show ?case
    by (auto simp: flow_inv_def both_finished_iff finished_iff get_set_dir_if split: if_splits)
next
  case (Unblocked i s n err)
  then show ?case by (simp add: flow_inv_take finished_iff)
next
  case (Returns s)
  show ?case by (rule flow_inv_outer [OF \<open>flow_inv s\<close>]) (simp_all add: Returns)
next
  case (Parent s)
  show ?case by (rule flow_inv_outer [OF \<open>flow_inv s\<close>]) simp_all
qed

lemma stats_Add_nat:
  "stats_Add DirectionOut (int n) st = st\<lparr>tx := tx st + of_nat n\<rparr>"
  "stats_Add DirectionIn (int n) st = st\<lparr>rx := rx st + of_nat n\<rparr>"
  by (simp_all add: stats_Add_def AddTx_def AddRx_def)

lemma stats_inv_take:
  assumes "stats_inv st s" and "dir_inv all (get_dir i s)" and "cd_pc (get_dir i s) = CopyDone n err" and "\<not> finished i s"
  shows "stats_inv st (take_result i n err' s)"
proof -
  have "n = int (length (cd_dst (get_dir i s)))" using assms(2,3) by (simp add: dir_inv_def)
  with assms(1,4) show ?thesis
    by (cases i) (simp_all add: stats_inv_def counted_def finished_take take_result_dir stats_Add_nat)
qed

lemma stats_inv_cong:
  "ps_stats s' = ps_stats s \<Longrightarrow> (\<And>i. counted i s' = counted i s) \<Longrightarrow> stats_inv st s \<Longrightarrow> stats_inv st s'"
  by (simp add: stats_inv_def)

lemma dirs_invD: "dirs_inv rq rs s \<Longrightarrow> \<exists>all. dir_inv all (get_dir i s)"
  by (cases i) (auto simp: dirs_inv_def)

lemma stats_inv_step:
  "proxy_step a s s' \<Longrightarrow> dirs_inv rq rs s \<Longrightarrow> stats_inv st s \<Longrightarrow> stats_inv st s'"
proof (induction rule: proxy_step.induct)
  case (Chunk i s k w ew)
  have "\<not> finished i s" using dirs_invD [OF Chunk(2), of i] Chunk(1) by (auto simp: finished_iff dir_inv_def)
  with Chunk show ?case by (intro stats_inv_cong [OF _ _ Chunk(3)]) (auto simp: counted_def finished_iff get_set_dir_if)
next
  case (End i s er)
  have "\<not> finished i s" using dirs_invD [OF End(3), of i] End(1) by (auto simp: finished_iff dir_inv_def)
  with End show ?case by (intro stats_inv_cong [OF _ _ End(4)]) (auto simp: counted_def finished_iff get_set_dir_if)
next
  case (Result i s n err)
  then show ?case using dirs_invD [OF Result(3), of i] by (auto intro: stats_inv_take simp: finished_iff)
next
  case (Ctx i s)
  then show ?case by (intro stats_inv_cong [OF _ _ Ctx(4)]) (auto simp: counted_def finished_iff get_set_dir_if)
next
  case (Unblocked i s n err)
  then show ?case using dirs_invD [OF Unblocked(3), of i] by (auto intro: stats_inv_take simp: finished_iff)
next
  case (Returns s)
  show ?case by (rule stats_inv_cong [OF _ _ Returns(4)]) (simp_all add: counted_def finished_iff)
next
  case (Parent s)
  show ?case by (rule stats_inv_cong [OF _ _ Parent(2)]) (simp_all add: counted_def finished_iff)
qed

lemma start_proxy_dir:
  "get_dir DirectionOut (start_proxy request response src dst reads conn half st local) = new_dir request"
  "get_dir DirectionIn (start_proxy request response src dst reads conn half st local) = new_dir response"
  by (simp_all add: start_proxy_def get_dir.simps)

lemma start_proxy_waiting:
  "cd_outer (get_dir i (start_proxy request response src dst reads conn half st local)) = DirWaiting"
  by (cases i) (simp_all add: start_proxy_dir new_dir_def)

lemma start_proxy_inv:
  fixes request response src dst reads conn half st local
  defines "s \<equiv> start_proxy request response src dst reads conn half st local"
  shows "dirs_inv request response s \<and> close_inv s \<and> flow_inv s \<and> stats_inv st s"
proof (intro conjI)
  show "dirs_inv request response s" unfolding s_def by (simp add: dirs_inv_def start_proxy_dir dir_inv_new)
  show "close_inv s" unfolding s_def by (simp add: close_inv_def start_proxy_def)
  have f: "\<not> finished i s" "cd_outer (get_dir i s) = DirWaiting" for i
    using start_proxy_waiting unfolding s_def by (simp_all add: finished_def)
  show "flow_inv s" using f by (simp add: flow_inv_def) (simp add: s_def start_proxy_def)
  show "stats_inv st s" using f by (simp add: stats_inv_def counted_def) (simp add: s_def start_proxy_def)
qed

lemma proxy_reachable_inv:
  assumes "proxy_reachable (start_proxy request response src dst reads conn half st local) s"
  shows "dirs_inv request response s \<and> close_inv s \<and> flow_inv s \<and> stats_inv st s \<and>
    ps_src s = src \<and> ps_dst s = dst \<and> ps_reads s = reads \<and> ps_conn s = conn"
  using assms
proof (induction rule: proxy_reachable.induct)
  case Proxy_init
  show ?case using start_proxy_inv by (simp add: start_proxy_def)
next
  case (Proxy_step s a s')
  have "ps_src s' = ps_src s \<and> ps_dst s' = ps_dst s \<and> ps_reads s' = ps_reads s \<and> ps_conn s' = ps_conn s"
    using Proxy_step(2) by cases simp_all
  with Proxy_step show ?case using dirs_inv_step close_inv_step flow_inv_step stats_inv_step by blast
qed

section \<open>Teardown\<close>

text \<open>
  Once the session's context has ended: the goroutines take what the copies return; a copy that
  is still running ends because the connection it reads from was closed.
\<close>

fun reads_from :: "Direction \<Rightarrow> proxy_session \<Rightarrow> nat" where
  "reads_from DirectionOut s = ps_reads s"
| "reads_from DirectionIn s = ps_conn s"

definition proxy_teardown_step :: "proxy_session \<Rightarrow> proxy_session \<Rightarrow> bool" where
  "proxy_teardown_step s s' \<longleftrightarrow>
     (\<exists>i. proxy_step (PEnd i) s s' \<and> reads_from i s \<in> set (ps_closed s)) \<or>
     (\<exists>i. proxy_step (PTake i) s s' \<or> proxy_step (PCtx i) s s') \<or> proxy_step PReturn s s'"

definition proxy_tearing_down :: "proxy_session \<Rightarrow> bool" where
  "proxy_tearing_down s \<longleftrightarrow> close_inv s \<and> flow_inv s \<and> ps_ctxDone s \<and> ps_reads s \<in> insert (ps_conn s) (session_closers s)"

fun copy_work :: "copy_pc \<Rightarrow> nat" where "copy_work Copying = 1" | "copy_work (CopyDone n e) = 0"

fun dir_work :: "dir_pc \<Rightarrow> nat" where
  "dir_work DirWaiting = 2" | "dir_work DirUnblocked = 1" | "dir_work (DirFinished e) = 0"

definition one_dir_work :: "copy_dir \<Rightarrow> nat" where
  "one_dir_work d = copy_work (cd_pc d) + dir_work (cd_outer d)"

definition proxy_work :: "proxy_session \<Rightarrow> nat" where
  "proxy_work s = one_dir_work (get_dir DirectionOut s) + one_dir_work (get_dir DirectionIn s) + of_bool (\<not> ps_returned s)"

lemma one_dir_work_bound: "one_dir_work d \<le> 3"
  unfolding one_dir_work_def by (cases "cd_pc d"; cases "cd_outer d") simp_all

lemma proxy_work_bound: "proxy_work s \<le> 7"
  unfolding proxy_work_def using one_dir_work_bound [of "get_dir DirectionOut s"] one_dir_work_bound [of "get_dir DirectionIn s"] by simp

lemma proxy_work_dir:
  assumes "one_dir_work (get_dir i s') < one_dir_work (get_dir i s)" and "\<And>j. j \<noteq> i \<Longrightarrow> get_dir j s' = get_dir j s"
    and "ps_returned s' = ps_returned s"
  shows "proxy_work s' < proxy_work s"
  using assms(1,3) assms(2) [of DirectionOut] assms(2) [of DirectionIn] by (cases i) (simp_all add: proxy_work_def)

lemma proxy_step_work:
  "proxy_step a s s' \<Longrightarrow> a \<noteq> PCopy \<Longrightarrow> a \<noteq> PCancel \<Longrightarrow> proxy_work s' < proxy_work s"
proof (induction rule: proxy_step.induct)
  case (End i s er)
  then show ?case by (intro proxy_work_dir [of i]) (simp_all add: one_dir_work_def copy_end_def)
next
  case (Result i s n err)
  then show ?case by (intro proxy_work_dir [of i]) (simp_all add: one_dir_work_def take_result_dir)
next
  case (Ctx i s)
  then show ?case by (intro proxy_work_dir [of i]) (simp_all add: one_dir_work_def)
next
  case (Unblocked i s n err)
  then show ?case by (intro proxy_work_dir [of i]) (simp_all add: one_dir_work_def take_result_dir)
next
  case (Returns s)
  then show ?case by (simp add: proxy_work_def)
qed simp_all

lemma proxy_step_const:
  "proxy_step a s s' \<Longrightarrow> (ps_ctxDone s \<longrightarrow> ps_ctxDone s') \<and> ps_reads s' = ps_reads s \<and> ps_conn s' = ps_conn s \<and> session_closers s' = session_closers s"
  by (induction rule: proxy_step.induct) (auto simp: session_closers_def)

lemma dir_progress:
  assumes "proxy_tearing_down s" and "\<not> finished i s"
  shows "\<exists>s'. proxy_teardown_step s s'"
proof (cases "cd_outer (get_dir i s)")
  case DirWaiting
  with assms show ?thesis using Ctx unfolding proxy_teardown_step_def proxy_tearing_down_def by blast
next
  case DirUnblocked
  then have c: "ps_closeOnce s" using assms by (auto simp: proxy_tearing_down_def flow_inv_def)
  show ?thesis
  proof (cases "cd_pc (get_dir i s)")
    case Copying
    have "\<exists>s'. proxy_step (PEnd i) s s'" using End [OF Copying, of "Sentinel NetErrClosed"] by auto
    moreover have "count_list (ps_closed s) x \<noteq> 0" if "x \<noteq> ps_conn s" "x \<in> session_closers s" for x
      using assms(1) c that by (simp add: proxy_tearing_down_def close_inv_def)
    then have "reads_from i s \<in> set (ps_closed s)"
      using assms(1) c by (cases i; cases "ps_reads s = ps_conn s") (auto simp: proxy_tearing_down_def close_inv_def count_list_0_iff)
    ultimately show ?thesis unfolding proxy_teardown_step_def by blast
  next
    case (CopyDone n e)
    with DirUnblocked show ?thesis using Unblocked unfolding proxy_teardown_step_def by blast
  qed
qed (use assms in \<open>simp add: finished_def\<close>)

interpretation egress_teardown: draining proxy_teardown_step proxy_tearing_down ps_returned proxy_work
proof
  show "proxy_tearing_down s \<Longrightarrow> proxy_teardown_step s s' \<Longrightarrow> proxy_tearing_down s'" for s s'
    unfolding proxy_teardown_step_def proxy_tearing_down_def
    using close_inv_step flow_inv_step proxy_step_const by metis
  show "proxy_tearing_down s \<Longrightarrow> proxy_teardown_step s s' \<Longrightarrow> proxy_work s' < proxy_work s" for s s'
    unfolding proxy_teardown_step_def using proxy_step_work by blast
  show "proxy_tearing_down s \<Longrightarrow> \<not> ps_returned s \<Longrightarrow> \<exists>s'. proxy_teardown_step s s'" for s
    using dir_progress Returns unfolding proxy_teardown_step_def both_finished_iff by blast
qed

section \<open>Properties\<close>

text \<open>A tunnel whose response ends while the client still sends nothing, from its start to its return.\<close>

definition ex_p0 :: proxy_session where
  "ex_p0 = start_proxy [1, 2] [3] (Closer 1) (Closer 1) 1 2 True \<lparr>tx = 0, rx = 0\<rparr> ''l:1''"

definition ex_p1 :: proxy_session where
  "ex_p1 = set_dir DirectionIn (copy_chunk 4 4 None (get_dir DirectionIn ex_p0)) ex_p0"

definition ex_p2 :: proxy_session where
  "ex_p2 = set_dir DirectionIn (copy_end (Sentinel EOF) (get_dir DirectionIn ex_p1)) ex_p1"

definition ex_p3 :: proxy_session where "ex_p3 = take_result DirectionIn 1 None ex_p2"

definition ex_p4 :: proxy_session where
  "ex_p4 = closeSession (set_dir DirectionOut ((get_dir DirectionOut ex_p3)\<lparr>cd_outer := DirUnblocked\<rparr>) ex_p3)"

definition ex_p5 :: proxy_session where
  "ex_p5 = set_dir DirectionOut (copy_end (Sentinel NetErrClosed) (get_dir DirectionOut ex_p4)) ex_p4"

definition ex_p6 :: proxy_session where "ex_p6 = take_result DirectionOut 0 (Some (Sentinel Canceled)) ex_p5"

definition ex_p7 :: proxy_session where
  "ex_p7 = cancel_session (ex_p6\<lparr>ps_returned := True, ps_closed := ps_closed ex_p6 @ [ps_conn ex_p6]\<rparr>)"

lemma ex_p3_reachable: "proxy_reachable ex_p0 ex_p3"
proof -
  have c: "cd_pc (get_dir DirectionIn ex_p0) = Copying" "cd_pc (get_dir DirectionIn ex_p1) = Copying"
    "Sentinel EOF = Sentinel EOF \<longrightarrow> cd_src (get_dir DirectionIn ex_p1) = []"
    "cd_outer (get_dir DirectionIn ex_p2) = DirWaiting" "cd_pc (get_dir DirectionIn ex_p2) = CopyDone 1 None"
    by code_simp+
  have "proxy_step PCopy ex_p0 ex_p1" unfolding ex_p1_def by (rule Chunk [OF c(1)])
  moreover have "proxy_step (PEnd DirectionIn) ex_p1 ex_p2" unfolding ex_p2_def by (rule End [OF c(2,3)])
  moreover have "proxy_step (PTake DirectionIn) ex_p2 ex_p3" unfolding ex_p3_def by (rule Result [OF c(4,5)])
  ultimately show ?thesis by (meson Proxy_init Proxy_step)
qed

lemma ex_p7_reachable: "proxy_reachable ex_p0 ex_p7"
proof -
  have c: "cd_outer (get_dir DirectionOut ex_p3) = DirWaiting" "ps_ctxDone ex_p3"
    "cd_pc (get_dir DirectionOut ex_p4) = Copying" "Sentinel NetErrClosed = Sentinel EOF \<longrightarrow> cd_src (get_dir DirectionOut ex_p4) = []"
    "cd_outer (get_dir DirectionOut ex_p5) = DirUnblocked"
    "cd_pc (get_dir DirectionOut ex_p5) = CopyDone 0 (Some (Sentinel NetErrClosed))" "both_finished ex_p6" "\<not> ps_returned ex_p6"
    by code_simp+
  have "proxy_step (PCtx DirectionOut) ex_p3 ex_p4" unfolding ex_p4_def by (rule Ctx [OF c(1,2)])
  moreover have "proxy_step (PEnd DirectionOut) ex_p4 ex_p5" unfolding ex_p5_def by (rule End [OF c(3,4)])
  moreover have "proxy_step (PTake DirectionOut) ex_p5 ex_p6" unfolding ex_p6_def by (rule Unblocked [OF c(5,6)])
  moreover have "proxy_step PReturn ex_p6 ex_p7" unfolding ex_p7_def by (rule Returns [OF c(7,8)])
  ultimately show ?thesis using ex_p3_reachable by (meson Proxy_step)
qed

text \<open>
  C15: A direct or forwarded session relays faithfully. At every moment what either side has been
  sent is a prefix of what the other side sent; a response direction that ended without error
  has delivered the whole response, and then \<open>Proxy\<close> returns no error whatever happened to the
  other direction; and when both directions have ended the traffic counters have grown by
  exactly the bytes that were delivered.
\<close>

theorem egress_session_faithful:
  assumes "proxy_reachable (start_proxy request response src dst reads conn half st local) s"
  shows "(\<exists>rest. request = cd_dst (get_dir DirectionOut s) @ rest) \<and> (\<exists>rest. response = cd_dst (get_dir DirectionIn s) @ rest) \<and>
    (cd_outer (get_dir DirectionIn s) = DirFinished None \<longrightarrow>
       cd_dst (get_dir DirectionIn s) = response \<and> Proxy_result name s = None) \<and>
    (both_finished s \<longrightarrow>
       ps_stats s = st\<lparr>tx := tx st + of_nat (length (cd_dst (get_dir DirectionOut s))),
                      rx := rx st + of_nat (length (cd_dst (get_dir DirectionIn s)))\<rparr>)"
proof (intro conjI impI)
  have inv: "dir_inv request (get_dir DirectionOut s)" "dir_inv response (get_dir DirectionIn s)" "flow_inv s" "stats_inv st s"
    using proxy_reachable_inv [OF assms] by (auto simp: dirs_inv_def)
  show "\<exists>rest. request = cd_dst (get_dir DirectionOut s) @ rest" "\<exists>rest. response = cd_dst (get_dir DirectionIn s) @ rest"
    using inv(1,2) by (auto simp: dir_inv_def)
  assume f: "cd_outer (get_dir DirectionIn s) = DirFinished None"
  then show "cd_dst (get_dir DirectionIn s) = response" using inv(2) by (auto simp: dir_inv_def)
  have "ps_responseDone s" using inv(3) f by (simp add: flow_inv_def)
  then show "Proxy_result name s = None" by (simp add: Proxy_result_def split: option.split)
next
  assume "both_finished s"
  then have "counted i s = int (length (cd_dst (get_dir i s)))" for i by (simp add: counted_def both_finished_iff)
  then show "ps_stats s = st\<lparr>tx := tx st + of_nat (length (cd_dst (get_dir DirectionOut s))),
                      rx := rx st + of_nat (length (cd_dst (get_dir DirectionIn s)))\<rparr>"
    using proxy_reachable_inv [OF assms] by (simp add: stats_inv_def)
qed

theorem egress_session_faithful_witness:
  "cd_dst (get_dir DirectionIn ex_p7) = [3] \<and> Proxy_result ''direct'' ex_p7 = None \<and> ps_stats ex_p7 = \<lparr>tx = 0, rx = 1\<rparr>"
proof -
  have c: "cd_outer (get_dir DirectionIn ex_p7) = DirFinished None" "both_finished ex_p7"
    "cd_dst (get_dir DirectionOut ex_p7) = []" by code_simp+
  from egress_session_faithful [OF ex_p7_reachable [unfolded ex_p0_def], of "''direct''"] c show ?thesis by simp
qed

text \<open>
  A direct or forwarded session closes what it was given. When \<open>Proxy\<close> has returned, the
  caller's reader and writer, where they can be closed, have each been closed exactly once,
  also when they are the same connection; the dialed connection has been closed; and nothing
  else was.
\<close>

theorem egress_session_closes:
  assumes "proxy_reachable (start_proxy request response src dst reads conn half st local) s" and "ps_returned s"
  shows "(\<forall>c. c \<noteq> conn \<longrightarrow> count_list (ps_closed s) c = of_bool (Closer c = src \<or> Closer c = dst)) \<and> conn \<in> set (ps_closed s)"
proof -
  have inv: "close_inv s" "flow_inv s" "ps_src s = src" "ps_dst s = dst" "ps_conn s = conn"
    using proxy_reachable_inv [OF assms(1)] by auto
  have "ps_closeOnce s" using inv(2) assms(2) by (simp add: flow_inv_def both_finished_iff)
  with inv show ?thesis by (auto simp: close_inv_def session_closers_def)
qed

theorem egress_session_closes_witness: "ps_returned ex_p7 \<and> count_list (ps_closed ex_p7) 1 = 1 \<and> 2 \<in> set (ps_closed ex_p7)"
proof -
  have r: "ps_returned ex_p7" by code_simp
  with egress_session_closes [OF ex_p7_reachable [unfolded ex_p0_def] r] show ?thesis by simp
qed

text \<open>
  Shutdown of a direct or forwarded session terminates. When its context has ended, because
  the response is complete, one direction failed or the caller gave up, and the source reads
  from a connection the session closes, at most seven steps remain in any order, no schedule
  gets stuck before the return of \<open>Proxy\<close>, and the return can be reached.
\<close>

theorem egress_session_terminates:
  assumes "proxy_reachable (start_proxy request response src dst reads conn half st local) s" and "ps_ctxDone s"
    and "Closer reads = src \<or> Closer reads = dst" and "(proxy_teardown_step ^^ n) s s'"
  shows "n \<le> 7 \<and> (ps_returned s' \<or> (\<exists>s''. proxy_teardown_step s' s'')) \<and>
    (\<exists>s''. proxy_teardown_step\<^sup>*\<^sup>* s' s'' \<and> ps_returned s'')"
proof -
  have "proxy_tearing_down s"
    using proxy_reachable_inv [OF assms(1)] assms(2,3) by (auto simp: proxy_tearing_down_def session_closers_def)
  then show ?thesis by (rule egress_teardown.drains [OF _ proxy_work_bound assms(4)])
qed

theorem egress_session_terminates_witness: "\<exists>s. proxy_teardown_step\<^sup>*\<^sup>* ex_p3 s \<and> ps_returned s"
proof -
  have "ps_ctxDone ex_p3" by code_simp
  from egress_session_terminates [OF ex_p3_reachable [unfolded ex_p0_def] this, of 0 ex_p3] show ?thesis by simp
qed

text \<open>
  Packet dialing. A packet connection is only opened to a specified peer with a non-zero
  port, on the address family of that peer, and never on IPv6 when IPv6 is off, given that the
  resolver answers a request for \<open>udp4\<close> with an IPv4 address, as \<open>net.ResolveUDPAddr\<close> does.
\<close>

theorem DialPacketTarget_family:
  assumes "\<And>a ip port. resolve ''udp4'' a = Inr (ip, port) \<Longrightarrow> ip \<noteq> [] \<Longrightarrow> IP_To4 ip \<noteq> None"
    and "DialPacketTarget ts resolve dialUDP network addr = Inr (c, ip, port)"
  shows "resolve (DialNetwork ts network) addr = Inr (ip, port) \<and> ip \<noteq> [] \<and> \<not> IP_IsUnspecified ip \<and> port \<noteq> 0 \<and>
    dialUDP (if IP_To4 ip \<noteq> None then ''udp4'' else ''udp6'') (ip, port) = Inr c \<and> (preferIPv4 ts \<longrightarrow> IP_To4 ip \<noteq> None)"
  using assms(2) assms(1) [of addr ip port]
  by (cases "DialNetwork ts network = ''udp4''")
    (auto simp: DialPacketTarget_def Let_def split: sum.splits if_splits)

theorem DialPacketTarget_family_witness:
  "\<exists>resolve. DialPacketTarget (DisableIPv6 init_settings) resolve (\<lambda>n p. Inr n) ''udp'' ''192.0.2.1:53'' = Inr (''udp4'', [192, 0, 2, 1], 53) \<and>
     IP_To4 [192, 0, 2, 1] \<noteq> None"
proof -
  define resolve :: "string \<Rightarrow> string \<Rightarrow> (net_IP \<times> nat) result" where "resolve = (\<lambda>_ _. Inr ([192, 0, 2, 1], 53))"
  have d: "DialPacketTarget (DisableIPv6 init_settings) resolve (\<lambda>n p. Inr n) ''udp'' ''192.0.2.1:53'' = Inr (''udp4'', [192, 0, 2, 1], 53)"
    unfolding resolve_def by code_simp
  have "IP_To4 [192, 0, 2, 1] \<noteq> None"
    using DialPacketTarget_family [OF _ d] by (simp add: resolve_def IP_To4_def)
  with d show ?thesis by blast
qed

text \<open>A blackhole answers no dial, and counts what it swallowed until the first error or the end of its context.\<close>

lemma BlackHole_drains:
  "BlackHole_Proxy (map (\<lambda>b. HoleRead b None) bs @ [HoleRead [] (Some (Sentinel EOF))]) st =
     (Some None, st\<lparr>rx := rx st + of_nat (length (concat bs))\<rparr>)"
  by (induction bs arbitrary: st) (simp_all add: AddRx_def Let_def add.assoc)

end
