(* ===== verification/PacketConn.thy ===== *)
theory PacketConn
  imports RpcTunnel "HOL-Library.Sublist"
begin

text \<open>
  \<open>internal/transport/rpc/client/packet_conn.go\<close>, a packet connection while it is in use: the
  receive loop with its one-place channel, a caller of \<open>ReadFrom\<close>, a caller of \<open>WriteTo\<close> with the
  goroutine that sends for it, callers of \<open>Close\<close> waiting for the write lock, and the two
  deadlines. The decisions of a single call are those of \<open>RpcTunnel\<close>.
\<close>

section \<open>State\<close>

datatype loop_pc = LoopRecv | LoopPass "ProxyDST result" | LoopEnded

text \<open>The send in flight: \<open>None\<close> while \<open>Send\<close> runs, then its result. A writer selects, or only waits for the send.\<close>

datatype write_mode = Selecting | Awaiting goerror

record write_call =
  wc_data :: bytes
  wc_chan :: nat
  wc_sent :: "goerror option option"
  wc_mode :: write_mode

text \<open>
  \<open>pc_reader\<close> is the caller that holds \<open>readMu\<close>: its buffer size and the deadline channel it
  waits on. \<open>pc_received\<close>, \<open>pc_taken\<close>, \<open>pc_reads\<close>, \<open>pc_sent\<close> and \<open>pc_writes\<close> record what the
  stream delivered, what was taken from the channel, what \<open>ReadFrom\<close> returned, what the stream
  accepted and what \<open>WriteTo\<close> returned.
\<close>

record packet_conn =
  pc_loop :: loop_pc
  pc_chan :: "ProxyDST result option"
  pc_chanClosed :: bool
  pc_ctxDone :: bool
  pc_reader :: "(nat \<times> nat) option"
  pc_writer :: "write_call option"
  pc_closers :: nat
  pc_closeSends :: nat
  pc_rdeadline :: pipeDeadline
  pc_wdeadline :: pipeDeadline
  pc_received :: "ProxyDST result list"
  pc_taken :: "(nat \<times> ProxyDST result) list"
  pc_reads :: "(bytes \<times> goerror option) result list"
  pc_sent :: "ProxySRC list"
  pc_writes :: "(bytes \<times> nat result) list"

definition NewStreamPacketConn :: packet_conn where
  "NewStreamPacketConn =
     \<lparr>pc_loop = LoopRecv, pc_chan = None, pc_chanClosed = False, pc_ctxDone = False, pc_reader = None, pc_writer = None,
      pc_closers = 0, pc_closeSends = 0, pc_rdeadline = makePipeDeadline, pc_wdeadline = makePipeDeadline,
      pc_received = [], pc_taken = [], pc_reads = [], pc_sent = [], pc_writes = []\<rparr>"

text \<open>What the reader sees in a received message.\<close>

fun recv_of :: "ProxyDST result \<Rightarrow> recv_event" where
  "recv_of (Inl e) = RecvErr e"
| "recv_of (Inr m) = Received m"

fun is_error :: "'a result \<Rightarrow> bool" where
  "is_error (Inl e) = True"
| "is_error (Inr x) = False"

text \<open>The receive loop after it has passed a message on: an error was its last.\<close>

definition loop_passed :: "ProxyDST result \<Rightarrow> packet_conn \<Rightarrow> packet_conn" where
  "loop_passed r c =
     (if is_error r then c\<lparr>pc_chan := Some r, pc_loop := LoopEnded, pc_chanClosed := True\<rparr>
      else c\<lparr>pc_chan := Some r, pc_loop := LoopRecv\<rparr>)"

definition read_returns :: "(bytes \<times> goerror option) result \<Rightarrow> packet_conn \<Rightarrow> packet_conn" where
  "read_returns x c = c\<lparr>pc_reader := None, pc_reads := pc_reads c @ [x]\<rparr>"

text \<open>A message is taken: it answers the call, or, an acceptance, the call waits again.\<close>

definition read_message :: "nat \<Rightarrow> ProxyDST result \<Rightarrow> packet_conn \<Rightarrow> packet_conn" where
  "read_message n r c =
     (let c1 = c\<lparr>pc_chan := None, pc_taken := pc_taken c @ [(n, r)]\<rparr> in
      case ReadFrom n [recv_of r] of
        None \<Rightarrow> c1\<lparr>pc_reader := Some (n, dl_chan (pc_rdeadline c))\<rparr>
      | Some (x, _) \<Rightarrow> read_returns x c1)"

definition write_returns :: "bytes \<Rightarrow> nat result \<Rightarrow> packet_conn \<Rightarrow> packet_conn" where
  "write_returns p x c = c\<lparr>pc_writer := None, pc_writes := pc_writes c @ [(p, x)]\<rparr>"

text \<open>The start of \<open>WriteTo\<close> under the lock: the first \<open>select\<close>, then the send is started.\<close>

definition write_start :: "bytes \<Rightarrow> packet_conn \<Rightarrow> packet_conn" where
  "write_start p c =
     (if pc_ctxDone c \<or> dl_isclosed (pc_wdeadline c)
      then write_returns p (fst (WriteTo (pc_ctxDone c) (dl_isclosed (pc_wdeadline c)) SendOk p)) c
      else c\<lparr>pc_writer := Some \<lparr>wc_data = p, wc_chan = dl_chan (pc_wdeadline c), wc_sent = None, wc_mode = Selecting\<rparr>\<rparr>)"

definition send_ends :: "write_call \<Rightarrow> goerror option \<Rightarrow> packet_conn \<Rightarrow> packet_conn" where
  "send_ends w e c =
     c\<lparr>pc_writer := Some (w\<lparr>wc_sent := Some e\<rparr>),
       pc_sent := (if e = None then pc_sent c @ [SrcPayload (wc_data w)] else pc_sent c)\<rparr>"

definition send_result :: "write_call \<Rightarrow> goerror option \<Rightarrow> packet_conn \<Rightarrow> nat result" where
  "send_result w e c =
     fst (WriteTo False False
       (case e of None \<Rightarrow> SendOk | Some e \<Rightarrow> SendErr e (wc_chan w \<in> dl_closed (pc_wdeadline c)) (pc_ctxDone c)) (wc_data w))"

section \<open>Steps\<close>

datatype packet_action = PLoop | PRead | PMessage | PReadEnd | PWrite | PWriteEnd | PClose | PCloseSend | PTimer

inductive packet_step :: "packet_action \<Rightarrow> packet_conn \<Rightarrow> packet_conn \<Rightarrow> bool" where
  Loop_recv: "pc_loop c = LoopRecv \<Longrightarrow> packet_step PLoop c (c\<lparr>pc_loop := LoopPass r, pc_received := pc_received c @ [r]\<rparr>)"
| Loop_pass: "pc_loop c = LoopPass r \<Longrightarrow> pc_chan c = None \<Longrightarrow> packet_step PLoop c (loop_passed r c)"
| Loop_quit: "pc_loop c = LoopPass r \<Longrightarrow> pc_ctxDone c \<Longrightarrow>
    packet_step PLoop c (c\<lparr>pc_loop := LoopEnded, pc_chanClosed := True\<rparr>)"
| Read_start: "pc_reader c = None \<Longrightarrow> packet_step PRead c (c\<lparr>pc_reader := Some (n, dl_chan (pc_rdeadline c))\<rparr>)"
| Read_ctx: "pc_reader c = Some (n, ch) \<Longrightarrow> pc_ctxDone c \<Longrightarrow> packet_step PReadEnd c (read_returns (Inl (Sentinel NetErrClosed)) c)"
| Read_deadline: "pc_reader c = Some (n, ch) \<Longrightarrow> ch \<in> dl_closed (pc_rdeadline c) \<Longrightarrow>
    packet_step PReadEnd c (read_returns (Inl (Sentinel ErrDeadlineExceeded)) c)"
| Read_message: "pc_reader c = Some (n, ch) \<Longrightarrow> pc_chan c = Some r \<Longrightarrow> packet_step PMessage c (read_message n r c)"
| Read_closed: "pc_reader c = Some (n, ch) \<Longrightarrow> pc_chan c = None \<Longrightarrow> pc_chanClosed c \<Longrightarrow>
    packet_step PReadEnd c (read_returns (Inl (Sentinel NetErrClosed)) c)"
| Write_start: "pc_writer c = None \<Longrightarrow> packet_step PWrite c (write_start p c)"
| Send_ends: "pc_writer c = Some w \<Longrightarrow> wc_sent w = None \<Longrightarrow> packet_step PWriteEnd c (send_ends w e c)"
| Write_sent: "pc_writer c = Some w \<Longrightarrow> wc_mode w = Selecting \<Longrightarrow> wc_sent w = Some e \<Longrightarrow>
    packet_step PWriteEnd c (write_returns (wc_data w) (send_result w e c) c)"
| Write_ctx: "pc_writer c = Some w \<Longrightarrow> wc_mode w = Selecting \<Longrightarrow> pc_ctxDone c \<Longrightarrow>
    packet_step PWriteEnd c (c\<lparr>pc_writer := Some (w\<lparr>wc_mode := Awaiting (Sentinel NetErrClosed)\<rparr>)\<rparr>)"
| Write_deadline: "pc_writer c = Some w \<Longrightarrow> wc_mode w = Selecting \<Longrightarrow> wc_chan w \<in> dl_closed (pc_wdeadline c) \<Longrightarrow>
    packet_step PWriteEnd c
      (c\<lparr>pc_ctxDone := True, pc_writer := Some (w\<lparr>wc_mode := Awaiting (Sentinel ErrDeadlineExceeded)\<rparr>)\<rparr>)"
| Write_awaited: "pc_writer c = Some w \<Longrightarrow> wc_mode w = Awaiting err \<Longrightarrow> wc_sent w = Some e \<Longrightarrow>
    packet_step PWriteEnd c (write_returns (wc_data w) (Inl err) c)"
| Close_call: "packet_step PClose c (c\<lparr>pc_ctxDone := True, pc_closers := Suc (pc_closers c)\<rparr>)"
| Close_send: "pc_writer c = None \<Longrightarrow> pc_closers c = Suc k \<Longrightarrow>
    packet_step PCloseSend c (c\<lparr>pc_closers := k, pc_closeSends := Suc (pc_closeSends c)\<rparr>)"
| Read_timer: "deadline_step (pc_rdeadline c) d \<Longrightarrow> packet_step PTimer c (c\<lparr>pc_rdeadline := d\<rparr>)"
| Write_timer: "deadline_step (pc_wdeadline c) d \<Longrightarrow> packet_step PTimer c (c\<lparr>pc_wdeadline := d\<rparr>)"

inductive packet_reachable :: "packet_conn \<Rightarrow> bool" where
  Packet_init: "packet_reachable NewStreamPacketConn"
| Packet_step: "packet_reachable c \<Longrightarrow> packet_step a c c' \<Longrightarrow> packet_reachable c'"

section \<open>Receiving\<close>

fun pending :: "loop_pc \<Rightarrow> ProxyDST result list" where
  "pending (LoopPass r) = [r]"
| "pending _ = []"

definition in_channel :: "packet_conn \<Rightarrow> ProxyDST result list" where
  "in_channel c = (case pc_chan c of None \<Rightarrow> [] | Some r \<Rightarrow> [r])"

definition recv_inv :: "packet_conn \<Rightarrow> bool" where
  "recv_inv c \<longleftrightarrow>
     (\<exists>dropped. pc_received c = map snd (pc_taken c) @ in_channel c @ pending (pc_loop c) @ dropped \<and>
        (dropped \<noteq> [] \<longrightarrow> pc_ctxDone c \<and> pc_loop c = LoopEnded)) \<and>
     (pc_chanClosed c \<longleftrightarrow> pc_loop c = LoopEnded)"

text \<open>What the messages taken so far answer to the calls that took them.\<close>

definition answer :: "nat \<times> ProxyDST result \<Rightarrow> (bytes \<times> goerror option) result list" where
  "answer = (\<lambda>(n, r). case ReadFrom n [recv_of r] of None \<Rightarrow> [] | Some (x, _) \<Rightarrow> [x])"

definition datagrams :: "(bytes \<times> goerror option) result list \<Rightarrow> (bytes \<times> goerror option) result list" where
  "datagrams xs = filter (\<lambda>x. \<not> is_error x) xs"

definition reads_inv :: "packet_conn \<Rightarrow> bool" where
  "reads_inv c \<longleftrightarrow> datagrams (pc_reads c) = datagrams (concat (map answer (pc_taken c)))"

lemma read_returns_fields [simp]:
  "pc_received (read_returns x c) = pc_received c" "pc_taken (read_returns x c) = pc_taken c"
  "pc_chan (read_returns x c) = pc_chan c" "pc_loop (read_returns x c) = pc_loop c"
  "pc_ctxDone (read_returns x c) = pc_ctxDone c" "pc_chanClosed (read_returns x c) = pc_chanClosed c"
  "pc_reads (read_returns x c) = pc_reads c @ [x]" "pc_writer (read_returns x c) = pc_writer c"
  "pc_sent (read_returns x c) = pc_sent c" "pc_writes (read_returns x c) = pc_writes c"
  "pc_reader (read_returns x c) = None" "pc_closers (read_returns x c) = pc_closers c"
  by (simp_all add: read_returns_def)

lemma write_returns_fields [simp]:
  "pc_received (write_returns p x c) = pc_received c" "pc_taken (write_returns p x c) = pc_taken c"
  "pc_chan (write_returns p x c) = pc_chan c" "pc_loop (write_returns p x c) = pc_loop c"
  "pc_ctxDone (write_returns p x c) = pc_ctxDone c" "pc_chanClosed (write_returns p x c) = pc_chanClosed c"
  "pc_reads (write_returns p x c) = pc_reads c" "pc_reader (write_returns p x c) = pc_reader c"
  "pc_writer (write_returns p x c) = None" "pc_sent (write_returns p x c) = pc_sent c"
  "pc_writes (write_returns p x c) = pc_writes c @ [(p, x)]" "pc_closers (write_returns p x c) = pc_closers c"
  by (simp_all add: write_returns_def)

lemma write_start_fields [simp]:
  "pc_received (write_start p c) = pc_received c" "pc_taken (write_start p c) = pc_taken c"
  "pc_chan (write_start p c) = pc_chan c" "pc_loop (write_start p c) = pc_loop c" "pc_ctxDone (write_start p c) = pc_ctxDone c"
  "pc_chanClosed (write_start p c) = pc_chanClosed c" "pc_reads (write_start p c) = pc_reads c" "pc_sent (write_start p c) = pc_sent c"
  by (simp_all add: write_start_def)

lemma send_ends_fields [simp]:
  "pc_received (send_ends w e c) = pc_received c" "pc_taken (send_ends w e c) = pc_taken c"
  "pc_chan (send_ends w e c) = pc_chan c" "pc_loop (send_ends w e c) = pc_loop c" "pc_ctxDone (send_ends w e c) = pc_ctxDone c"
  "pc_chanClosed (send_ends w e c) = pc_chanClosed c" "pc_reads (send_ends w e c) = pc_reads c"
  "pc_writes (send_ends w e c) = pc_writes c" "pc_reader (send_ends w e c) = pc_reader c"
  "pc_closers (send_ends w e c) = pc_closers c"
  by (simp_all add: send_ends_def)

lemma loop_passed_fields [simp]:
  "pc_received (loop_passed r c) = pc_received c" "pc_taken (loop_passed r c) = pc_taken c"
  "pc_chan (loop_passed r c) = Some r" "pc_ctxDone (loop_passed r c) = pc_ctxDone c" "pc_reads (loop_passed r c) = pc_reads c"
  "pc_loop (loop_passed r c) = (if is_error r then LoopEnded else LoopRecv)"
  "pc_chanClosed (loop_passed r c) \<longleftrightarrow> is_error r \<or> pc_chanClosed c"
  "pc_writer (loop_passed r c) = pc_writer c" "pc_sent (loop_passed r c) = pc_sent c" "pc_writes (loop_passed r c) = pc_writes c"
  "pc_reader (loop_passed r c) = pc_reader c" "pc_closers (loop_passed r c) = pc_closers c"
  by (simp_all add: loop_passed_def)

lemma read_message_fields [simp]:
  "pc_received (read_message n r c) = pc_received c" "pc_taken (read_message n r c) = pc_taken c @ [(n, r)]"
  "pc_chan (read_message n r c) = None" "pc_loop (read_message n r c) = pc_loop c"
  "pc_ctxDone (read_message n r c) = pc_ctxDone c" "pc_chanClosed (read_message n r c) = pc_chanClosed c"
  "pc_reads (read_message n r c) = pc_reads c @ answer (n, r)" "pc_writer (read_message n r c) = pc_writer c"
  "pc_sent (read_message n r c) = pc_sent c" "pc_writes (read_message n r c) = pc_writes c"
  "pc_closers (read_message n r c) = pc_closers c"
  by (simp_all add: read_message_def answer_def Let_def split: option.split prod.split)

lemma recv_inv_step: "packet_step a c c' \<Longrightarrow> recv_inv c \<Longrightarrow> recv_inv c'"
proof (induction rule: packet_step.induct)
  case (Loop_pass c r)
  then show ?case by (auto simp: recv_inv_def in_channel_def)
qed (auto simp: recv_inv_def in_channel_def)

lemma reads_inv_step: "packet_step a c c' \<Longrightarrow> reads_inv c \<Longrightarrow> reads_inv c'"
  by (induction rule: packet_step.induct) (simp_all add: reads_inv_def datagrams_def)

section \<open>Sending\<close>

definition successes :: "(bytes \<times> nat result) list \<Rightarrow> ProxySRC list" where
  "successes ws = map (\<lambda>(p, x). SrcPayload p) (filter (\<lambda>(p, x). \<not> is_error x) ws)"

definition sent_ok :: "write_call option \<Rightarrow> bool" where
  "sent_ok w = (case w of None \<Rightarrow> False | Some w \<Rightarrow> wc_sent w = Some None)"

definition writes_inv :: "packet_conn \<Rightarrow> bool" where
  "writes_inv c \<longleftrightarrow>
     (if sent_ok (pc_writer c)
      then \<exists>s0. pc_sent c = s0 @ [SrcPayload (wc_data (the (pc_writer c)))] \<and> subseq (successes (pc_writes c)) s0
      else subseq (successes (pc_writes c)) (pc_sent c)) \<and>
     (\<forall>p n. (p, Inr n) \<in> set (pc_writes c) \<longrightarrow> n = length p)"

lemma successes_returns:
  "successes (ws @ [(p, x)]) = successes ws @ (if is_error x then [] else [SrcPayload p])"
  by (simp add: successes_def)

lemma send_result_cases:
  "send_result w None c = Inr (length (wc_data w))" "is_error (send_result w (Some e) c)"
  by (simp_all add: send_result_def WriteTo_def)

lemma writes_inv_weaken: "writes_inv c \<Longrightarrow> subseq (successes (pc_writes c)) (pc_sent c)"
  by (auto simp: writes_inv_def split: if_splits intro: subseq_rev_drop_many)

lemma writes_inv_return_error:
  assumes "writes_inv c" and "is_error x"
  shows "writes_inv (write_returns p x c)"
  using assms writes_inv_weaken [OF assms(1)] by (cases x) (auto simp: writes_inv_def sent_ok_def successes_returns)

lemma writes_inv_cong:
  "pc_writes c' = pc_writes c \<Longrightarrow> pc_sent c' = pc_sent c \<Longrightarrow> sent_ok (pc_writer c') = sent_ok (pc_writer c) \<Longrightarrow>
   (sent_ok (pc_writer c) \<Longrightarrow> wc_data (the (pc_writer c')) = wc_data (the (pc_writer c))) \<Longrightarrow> writes_inv c \<Longrightarrow> writes_inv c'"
  by (auto simp: writes_inv_def)

lemma writes_inv_step: "packet_step a c c' \<Longrightarrow> writes_inv c \<Longrightarrow> writes_inv c'"
proof (induction rule: packet_step.induct)
  case (Write_start c p)
  show ?case
  proof (cases "pc_ctxDone c \<or> dl_isclosed (pc_wdeadline c)")
    case True
    then have "is_error (fst (WriteTo (pc_ctxDone c) (dl_isclosed (pc_wdeadline c)) SendOk p))" by (auto simp: WriteTo_def)
    with True Write_start show ?thesis by (simp add: write_start_def writes_inv_return_error)
  next
    case False
    then show ?thesis using Write_start by (intro writes_inv_cong [OF _ _ _ _ Write_start(2)]) (simp_all add: write_start_def sent_ok_def)
  qed
next
  case (Send_ends c w e)
  then show ?case by (cases e) (auto simp: writes_inv_def sent_ok_def send_ends_def)
next
  case (Write_sent c w e)
  show ?case
  proof (cases e)
    case None
    with Write_sent obtain s0 where "pc_sent c = s0 @ [SrcPayload (wc_data w)]" "subseq (successes (pc_writes c)) s0"
      by (auto simp: writes_inv_def sent_ok_def)
    then have "subseq (successes (pc_writes c) @ [SrcPayload (wc_data w)]) (pc_sent c)" by simp
    with Write_sent None show ?thesis by (auto simp: writes_inv_def sent_ok_def successes_returns send_result_cases)
  next
    case (Some x)
    then show ?thesis using Write_sent by (simp add: writes_inv_return_error send_result_cases)
  qed
next
  case (Write_awaited c w err e)
  then show ?case by (simp add: writes_inv_return_error)
qed (auto elim!: writes_inv_cong [rotated -1] simp: sent_ok_def)

lemma packet_reachable_inv: "packet_reachable c \<Longrightarrow> recv_inv c \<and> reads_inv c \<and> writes_inv c"
proof (induction rule: packet_reachable.induct)
  case Packet_init
  show ?case
    by (simp add: NewStreamPacketConn_def recv_inv_def reads_inv_def writes_inv_def in_channel_def sent_ok_def successes_def)
next
  case (Packet_step c a c')
  then show ?case using recv_inv_step reads_inv_step writes_inv_step by blast
qed

section \<open>Closing\<close>

text \<open>
  After \<open>Close\<close> no new call starts; the calls in progress and the receive loop run on. A
  receive on the cancelled stream returns an error, as gRPC promises.
\<close>

definition packet_closing_step :: "packet_conn \<Rightarrow> packet_conn \<Rightarrow> bool" where
  "packet_closing_step c c' \<longleftrightarrow>
     (\<exists>a \<in> {PLoop, PMessage, PReadEnd, PWriteEnd, PCloseSend}. packet_step a c c') \<and>
     (pc_loop c = LoopRecv \<and> pc_loop c' \<noteq> LoopRecv \<longrightarrow> (\<exists>e. pc_loop c' = LoopPass (Inl e)))"

definition packet_idle :: "packet_conn \<Rightarrow> bool" where
  "packet_idle c \<longleftrightarrow> pc_loop c = LoopEnded \<and> pc_reader c = None \<and> pc_writer c = None \<and> pc_closers c = 0"

fun loop_work :: "loop_pc \<Rightarrow> nat" where
  "loop_work LoopRecv = 3"
| "loop_work (LoopPass r) = (if is_error r then 2 else 5)"
| "loop_work LoopEnded = 0"

definition writer_work :: "write_call option \<Rightarrow> nat" where
  "writer_work w = (case w of None \<Rightarrow> 0 | Some w \<Rightarrow> 1 + of_bool (wc_sent w = None) + of_bool (wc_mode w = Selecting))"

definition packet_work :: "packet_conn \<Rightarrow> nat" where
  "packet_work c = loop_work (pc_loop c) + of_bool (pc_chan c \<noteq> None) + of_bool (pc_reader c \<noteq> None) +
     writer_work (pc_writer c) + pc_closers c"

lemma loop_work_bound: "loop_work l \<le> 5"
  by (cases l) auto

lemma writer_work_bound: "writer_work w \<le> 3"
  by (cases w) (simp_all add: writer_work_def)

lemma packet_work_bound: "packet_work c \<le> 10 + pc_closers c"
proof -
  have "of_bool P \<le> (1 :: nat)" for P by simp
  then have "of_bool (pc_chan c \<noteq> None) \<le> (1 :: nat)" "of_bool (pc_reader c \<noteq> None) \<le> (1 :: nat)" by blast+
  then show ?thesis unfolding packet_work_def using loop_work_bound [of "pc_loop c"] writer_work_bound [of "pc_writer c"] by linarith
qed

lemma read_message_reader: "pc_reader (read_message n r c) = None \<or> (\<exists>ch. pc_reader (read_message n r c) = Some (n, ch))"
  by (simp add: read_message_def Let_def split: option.split prod.split)

lemma packet_step_work:
  "packet_step a c c' \<Longrightarrow> a \<in> {PLoop, PMessage, PReadEnd, PWriteEnd, PCloseSend} \<Longrightarrow>
   (pc_loop c = LoopRecv \<and> pc_loop c' \<noteq> LoopRecv \<longrightarrow> (\<exists>e. pc_loop c' = LoopPass (Inl e))) \<Longrightarrow> packet_work c' < packet_work c"
proof (induction rule: packet_step.induct)
  case (Loop_quit c r)
  then show ?case by (simp add: packet_work_def)
next
  case (Read_message c n ch r)
  then show ?case using read_message_reader [of n r c] by (auto simp: packet_work_def)
next
  case (Send_ends c w e)
  then show ?case by (simp add: packet_work_def send_ends_def writer_work_def)
qed (auto simp: packet_work_def writer_work_def)

lemma packet_step_ctxDone: "packet_step a c c' \<Longrightarrow> pc_ctxDone c \<Longrightarrow> pc_ctxDone c'"
  by (induction rule: packet_step.induct) simp_all

lemma packet_closing_progress:
  assumes x: "pc_ctxDone c" and "\<not> packet_idle c"
  shows "\<exists>c'. packet_closing_step c c'"
proof -
  consider "pc_loop c \<noteq> LoopEnded" | "pc_loop c = LoopEnded" "pc_reader c \<noteq> None" | "pc_loop c = LoopEnded" "pc_writer c \<noteq> None"
    | "pc_loop c = LoopEnded" "pc_writer c = None" "pc_closers c \<noteq> 0"
    using assms(2) by (auto simp: packet_idle_def)
  then show ?thesis
  proof cases
    case 1
    then show ?thesis
      using Loop_recv [of c "Inl (Sentinel Canceled)"] Loop_quit [OF _ x]
      by (cases "pc_loop c") (fastforce simp: packet_closing_step_def)+
  next
    case 2
    then show ?thesis using Read_ctx [OF _ x] by (fastforce simp: packet_closing_step_def)
  next
    case 3
    then obtain w where w: "pc_writer c = Some w" by blast
    have "\<exists>c'. packet_step PWriteEnd c c'"
    proof (cases "wc_sent w")
      case None
      with w show ?thesis using Send_ends by blast
    next
      case (Some e)
      with w show ?thesis using Write_sent Write_awaited by (cases "wc_mode w") blast+
    qed
    with 3 show ?thesis by (auto simp: packet_closing_step_def)
  next
    case 4
    then obtain k where "pc_closers c = Suc k" using not0_implies_Suc by blast
    from Close_send [OF 4(2) this] 4(1) show ?thesis by (auto simp: packet_closing_step_def)
  qed
qed

interpretation packet_close: draining packet_closing_step pc_ctxDone packet_idle packet_work
proof
  show "pc_ctxDone c \<Longrightarrow> packet_closing_step c c' \<Longrightarrow> pc_ctxDone c'" for c c' :: packet_conn
    using packet_step_ctxDone by (auto simp: packet_closing_step_def)
  show "pc_ctxDone c \<Longrightarrow> packet_closing_step c c' \<Longrightarrow> packet_work c' < packet_work c" for c c'
    using packet_step_work unfolding packet_closing_step_def by blast
qed (rule packet_closing_progress)

section \<open>Properties\<close>

definition ex_c1 :: packet_conn where
  "ex_c1 = NewStreamPacketConn\<lparr>pc_loop := LoopPass (Inr \<lparr>Status = Session, Body = DstPayload [7, 8]\<rparr>),
     pc_received := [Inr \<lparr>Status = Session, Body = DstPayload [7, 8]\<rparr>]\<rparr>"

definition ex_c2 :: packet_conn where "ex_c2 = loop_passed (Inr \<lparr>Status = Session, Body = DstPayload [7, 8]\<rparr>) ex_c1"
definition ex_c3 :: packet_conn where "ex_c3 = ex_c2\<lparr>pc_reader := Some (1500, dl_chan (pc_rdeadline ex_c2))\<rparr>"
definition ex_c4 :: packet_conn where "ex_c4 = read_message 1500 (Inr \<lparr>Status = Session, Body = DstPayload [7, 8]\<rparr>) ex_c3"
definition ex_c5 :: packet_conn where "ex_c5 = ex_c4\<lparr>pc_ctxDone := True, pc_closers := 1\<rparr>"

lemma ex_c4_reachable: "packet_reachable ex_c4"
proof -
  let ?m = "Inr \<lparr>Status = Session, Body = DstPayload [7, 8]\<rparr> :: ProxyDST result"
  have c: "pc_loop NewStreamPacketConn = LoopRecv" "pc_loop ex_c1 = LoopPass ?m" "pc_chan ex_c1 = None" "pc_reader ex_c2 = None"
    "pc_reader ex_c3 = Some (1500, 0)" "pc_chan ex_c3 = Some ?m"
    by code_simp+
  have "packet_step PLoop NewStreamPacketConn ex_c1"
    using Loop_recv [OF c(1), of ?m] by (simp add: ex_c1_def NewStreamPacketConn_def)
  moreover have "packet_step PLoop ex_c1 ex_c2" unfolding ex_c2_def by (rule Loop_pass [OF c(2,3)])
  moreover have "packet_step PRead ex_c2 ex_c3" unfolding ex_c3_def by (rule Read_start [OF c(4)])
  moreover have "packet_step PMessage ex_c3 ex_c4" unfolding ex_c4_def by (rule Read_message [OF c(5,6)])
  ultimately show ?thesis by (meson Packet_init Packet_step)
qed

text \<open>
  C16: A packet connection loses, repeats and reorders nothing while it is open. What its callers
  have taken is, in order, what the stream delivered, except for the message in the channel
  and the one the receive loop holds; only after the context has ended may that last message
  be dropped. The datagrams \<open>ReadFrom\<close> returned are exactly those the taken messages carry. And
  every \<open>WriteTo\<close> that reported success was accepted by the stream, in order, in full.
\<close>

theorem packet_conn_fifo:
  assumes "packet_reachable c"
  shows "(\<exists>rest. pc_received c = map snd (pc_taken c) @ in_channel c @ rest \<and>
            (if pc_loop c = LoopEnded \<and> pc_ctxDone c then True else rest = pending (pc_loop c))) \<and>
    datagrams (pc_reads c) = datagrams (concat (map answer (pc_taken c))) \<and>
    subseq (successes (pc_writes c)) (pc_sent c) \<and> (\<forall>p n. (p, Inr n) \<in> set (pc_writes c) \<longrightarrow> n = length p)"
proof (intro conjI)
  have inv: "recv_inv c" "reads_inv c" "writes_inv c" using packet_reachable_inv [OF assms] by auto
  then show "datagrams (pc_reads c) = datagrams (concat (map answer (pc_taken c)))" by (simp add: reads_inv_def)
  show "subseq (successes (pc_writes c)) (pc_sent c)" using inv(3) by (rule writes_inv_weaken)
  show "\<forall>p n. (p, Inr n) \<in> set (pc_writes c) \<longrightarrow> n = length p" using inv(3) by (simp add: writes_inv_def)
  show "\<exists>rest. pc_received c = map snd (pc_taken c) @ in_channel c @ rest \<and>
      (if pc_loop c = LoopEnded \<and> pc_ctxDone c then True else rest = pending (pc_loop c))"
    using inv(1) by (auto simp: recv_inv_def)
qed

theorem packet_conn_fifo_witness:
  "packet_reachable ex_c4 \<and> datagrams (pc_reads ex_c4) = [Inr ([7, 8], None)]"
proof -
  have "datagrams (concat (map answer (pc_taken ex_c4))) = [Inr ([7, 8], None)]" by code_simp
  with packet_conn_fifo [OF ex_c4_reachable] ex_c4_reachable show ?thesis by simp
qed

text \<open>
  Closing a packet connection terminates. Once its context has ended, whatever the state it
  was reached in, the calls in progress and the receive loop need at most ten steps plus one
  for every caller of \<open>Close\<close>, in any order; a schedule that cannot continue has ended the
  receive loop and released every caller, and one can always be continued to that point.
\<close>

theorem packet_close_terminates:
  assumes "pc_ctxDone c" and "(packet_closing_step ^^ n) c c'"
  shows "n \<le> 10 + pc_closers c \<and> (packet_idle c' \<or> (\<exists>c''. packet_closing_step c' c'')) \<and>
    (\<exists>c''. packet_closing_step\<^sup>*\<^sup>* c' c'' \<and> packet_idle c'')"
  by (rule packet_close.drains [OF assms(1) packet_work_bound assms(2)])

theorem packet_close_terminates_witness: "\<exists>c. packet_closing_step\<^sup>*\<^sup>* ex_c5 c \<and> packet_idle c"
proof -
  have "pc_ctxDone ex_c5" by code_simp
  from packet_close_terminates [OF this, of 0 ex_c5] show ?thesis by simp
qed

end
