(* ===== verification/RpcClient.thy ===== *)
theory RpcClient
  imports ConnPool PacketConn DnsBridge
begin

text \<open>
  \<open>internal/transport/rpc/client/client.go\<close> around the connection pool: the process-wide client
  state, credentials, \<open>Init\<close>, \<open>Destroy\<close>, \<open>New\<close>, \<open>Close\<close> and \<open>DialPacket\<close>; the method names of
  \<open>dynamic_client.go\<close>, \<open>dynamic_server.go\<close> and \<open>dynamic_service.go\<close>. Certificates, files and gRPC
  are arguments.
\<close>

section \<open>Credentials\<close>

datatype tls_version = TLS10 | TLS11 | TLS12 | TLS13

record 'p tls_config =
  tc_ServerName :: string
  tc_RootCAs :: 'p
  tc_MinVersion :: tls_version
  tc_MaxVersion :: tls_version

datatype 'p credential = InsecureCredential | TLSCredential "'p tls_config"

definition buildClientTLSConfig :: "'p \<Rightarrow> string \<Rightarrow> 'p tls_config" where
  "buildClientTLSConfig cp serverNameOverride =
     \<lparr>tc_ServerName = serverNameOverride, tc_RootCAs = cp, tc_MinVersion = TLS13, tc_MaxVersion = TLS13\<rparr>"

text \<open>Reading a cleaned path and adding its certificates to a pool are arguments.\<close>

fun loadCertificateAuthorities :: "(string \<Rightarrow> string) \<Rightarrow> (string \<Rightarrow> bytes result) \<Rightarrow> ('p \<Rightarrow> bytes \<Rightarrow> 'p option) \<Rightarrow> 'p \<Rightarrow> string list \<Rightarrow> 'p result" where
  "loadCertificateAuthorities clean readFile appendPEM pool [] = Inr pool"
| "loadCertificateAuthorities clean readFile appendPEM pool (path # paths) =
     (case readFile (clean path) of
        Inl e \<Rightarrow> Inl e
      | Inr cert \<Rightarrow>
          (case appendPEM pool cert of
             None \<Rightarrow> Inl (Errorf ''failed to append to CA certificates'')
           | Some pool' \<Rightarrow> loadCertificateAuthorities clean readFile appendPEM pool' paths))"

definition setupGrpcCredential ::
  "'p result \<Rightarrow> 'p \<Rightarrow> (string \<Rightarrow> string) \<Rightarrow> (string \<Rightarrow> bytes result) \<Rightarrow> ('p \<Rightarrow> bytes \<Rightarrow> 'p option) \<Rightarrow> bool \<Rightarrow> string \<Rightarrow> string list
    \<Rightarrow> 'p credential result" where
  "setupGrpcCredential systemPool newPool clean readFile appendPEM tls hostName customCA =
     (if \<not> tls then Inr InsecureCredential
      else
        case (case systemPool of
                Inl e \<Rightarrow> if customCA = [] then Inl (Wrap ''additional ca not found while system cert pool can not be copied'' e) else Inr newPool
              | Inr pool \<Rightarrow> Inr pool) of
          Inl e \<Rightarrow> Inl e
        | Inr pool \<Rightarrow>
            (case loadCertificateAuthorities clean readFile appendPEM pool customCA of
               Inl e \<Rightarrow> Inl (Wrap ''load custom ca failed'' e)
             | Inr pool' \<Rightarrow> Inr (TLSCredential (buildClientTLSConfig pool' hostName))))"

section \<open>Method names\<close>

record ClientMethodNames =
  cm_DnsResolve :: string
  cm_Proxy :: string

definition GetClientMethodNames :: "string \<Rightarrow> ClientMethodNames" where
  "GetClientMethodNames name0 =
     (let name = (if name0 = [] then ''proxy.Proxy'' else name0)
      in \<lparr>cm_DnsResolve = method_path name ''DnsResolve'', cm_Proxy = method_path name ''Proxy''\<rparr>)"

definition NewDynamicProxyClient :: "ServiceConfig \<Rightarrow> ClientMethodNames" where
  "NewDynamicProxyClient cfg = \<lparr>cm_DnsResolve = GetMethodName cfg ''DnsResolve'', cm_Proxy = GetMethodName cfg ''Proxy''\<rparr>"

text \<open>
  The paths a gRPC server answers for a registered service: its name and the names of its
  methods and streams.
\<close>

definition RegisterWithGRPC :: "ServiceConfig \<Rightarrow> string set" where
  "RegisterWithGRPC cfg = {method_path (serviceName cfg) ''DnsResolve'', method_path (serviceName cfg) ''Proxy''}"

section \<open>The client of the process\<close>

text \<open>\<open>uuidVal\<close>, \<open>queueVal\<close> and the queues that were taken out of use by \<open>Destroy\<close>.\<close>

record client_globals =
  uuidVal :: string
  queueVal :: "ConnQueue option"
  retired :: "ConnQueue list"

definition SetUUID :: "string \<Rightarrow> client_globals \<Rightarrow> client_globals" where
  "SetUUID uid g = g\<lparr>uuidVal := uid\<rparr>"

definition client_Init ::
  "'p credential result \<Rightarrow> (nat \<Rightarrow> goerror option) \<Rightarrow> 8 word \<Rightarrow> client_globals \<Rightarrow> goerror option \<times> client_globals" where
  "client_Init credential dials mux g =
     (case credential of
        Inl e \<Rightarrow> (Some (Wrap ''setup grpc credential failed'' e), g)
      | Inr _ \<Rightarrow>
          (case ConnPool.Init dials (NewConnQueue (unat mux)) of
             (Inl e, _) \<Rightarrow> (Some e, g)
           | (Inr _, q) \<Rightarrow> (None, g\<lparr>queueVal := Some q\<rparr>)))"

text \<open>\<open>None\<close> is the panic of \<open>ConnQueue.Destroy\<close>.\<close>

definition client_Destroy :: "client_globals \<Rightarrow> client_globals option" where
  "client_Destroy g =
     (case queueVal g of
        None \<Rightarrow> Some g
      | Some q \<Rightarrow> map_option (\<lambda>q'. g\<lparr>queueVal := None, retired := retired g @ [q']\<rparr>) (ConnPool.Destroy q))"

record rpc_client =
  rc_methods :: ClientMethodNames
  rc_conn :: nat
  rc_done :: release_func

definition client_New ::
  "ServiceConfig \<Rightarrow> (nat \<Rightarrow> connectivity) \<Rightarrow> (nat \<Rightarrow> connectivity) \<Rightarrow> goerror option \<Rightarrow> client_globals \<Rightarrow> rpc_client result \<times> client_globals" where
  "client_New cfg state1 state2 dial g =
     (case queueVal g of
        None \<Rightarrow> (Inl (Errorf ''connection pool not initialized''), g)
      | Some q \<Rightarrow>
          (case GetClient (\<lambda>_. NewDynamicProxyClient cfg) state1 state2 dial q of
             (Inl e, q') \<Rightarrow> (Inl e, g\<lparr>queueVal := Some q'\<rparr>)
           | (Inr (m, c, done), q') \<Rightarrow> (Inr \<lparr>rc_methods = m, rc_conn = c, rc_done = done\<rparr>, g\<lparr>queueVal := Some q'\<rparr>)))"

text \<open>\<open>Client.Close\<close> on the pool the client came from.\<close>

definition client_Close :: "rpc_client \<Rightarrow> ConnQueue \<Rightarrow> ConnQueue" where
  "client_Close c q = run_release (rc_conn c) (rc_done c) q"

definition client_Dial :: "string \<Rightarrow> string \<Rightarrow> 'c result" where
  "client_Dial network addr = Inl (Errorf ''rpc: dial not implemented'')"

text \<open>
  \<open>DialPacket\<close>: opening the stream and the outcome of \<open>sendHandshake\<close>; the result is the packet
  connection with what was sent on the stream, and whether the stream was cancelled.
\<close>

definition client_DialPacket ::
  "goerror option \<Rightarrow> goerror option option \<Rightarrow> string \<Rightarrow> string \<Rightarrow> (packet_conn \<times> ProxySRC list) result \<times> bool" where
  "client_DialPacket stream sent network addr =
     (if network \<noteq> ''udp'' \<and> network \<noteq> ''udp4'' \<and> network \<noteq> ''udp6''
      then (Inl (Errorf ''rpc client: unsupported packet network''), False)
      else case stream of
          Some e \<Rightarrow> (Inl (Wrap ''rpc client: failed to create proxy stream'' e), True)
        | None \<Rightarrow>
            (case sendHandshake sent of
               (Inl e, _) \<Rightarrow> (Inl (Wrap ''rpc client: UDP'' e), True)
             | (Inr _, _) \<Rightarrow> (Inr (NewStreamPacketConn, [SrcHeader addr UDP]), False)))"

section \<open>Properties\<close>

lemma load_cas:
  "loadCertificateAuthorities clean readFile appendPEM pool paths = Inr pool' \<Longrightarrow>
   \<exists>certs. list_all2 (\<lambda>path cert. readFile (clean path) = Inr cert) paths certs \<and>
     fold (\<lambda>cert p. Option.bind p (\<lambda>p. appendPEM p cert)) certs (Some pool) = Some pool'"
proof (induction paths arbitrary: pool)
  case (Cons path paths)
  then obtain cert p1 where c: "readFile (clean path) = Inr cert" "appendPEM pool cert = Some p1"
    "loadCertificateAuthorities clean readFile appendPEM p1 paths = Inr pool'"
    by (auto split: sum.splits option.splits)
  from Cons.IH [OF c(3)] obtain certs where "list_all2 (\<lambda>path cert. readFile (clean path) = Inr cert) paths certs"
    "fold (\<lambda>cert p. Option.bind p (\<lambda>p. appendPEM p cert)) certs (Some p1) = Some pool'" by blast
  with c show ?case by (intro exI [of _ "cert # certs"]) simp
qed simp

text \<open>
  A client told to use TLS never falls back. The credential it gets is TLS 1.3 only, for the
  configured host name, trusting the system's authorities, or none if those cannot be read,
  and every configured authority; an authority that cannot be read or parsed is an error.
\<close>

theorem tls_never_downgraded:
  assumes "setupGrpcCredential systemPool newPool clean readFile appendPEM True hostName customCA = Inr cred"
  shows "\<exists>base pool certs. cred = TLSCredential \<lparr>tc_ServerName = hostName, tc_RootCAs = pool, tc_MinVersion = TLS13, tc_MaxVersion = TLS13\<rparr> \<and>
    (systemPool = Inr base \<or> base = newPool \<and> (\<exists>e. systemPool = Inl e) \<and> customCA \<noteq> []) \<and>
    list_all2 (\<lambda>path cert. readFile (clean path) = Inr cert) customCA certs \<and>
    fold (\<lambda>cert p. Option.bind p (\<lambda>p. appendPEM p cert)) certs (Some base) = Some pool"
proof -
  obtain base pool where b: "systemPool = Inr base \<or> base = newPool \<and> (\<exists>e. systemPool = Inl e) \<and> customCA \<noteq> []"
    and l: "loadCertificateAuthorities clean readFile appendPEM base customCA = Inr pool"
    and c: "cred = TLSCredential (buildClientTLSConfig pool hostName)"
    using assms by (auto simp: setupGrpcCredential_def split: sum.splits if_splits)
  from load_cas [OF l] b c show ?thesis unfolding buildClientTLSConfig_def by blast
qed

theorem tls_never_downgraded_witness:
  "\<exists>cred. setupGrpcCredential (Inr []) [] id (\<lambda>_. Inr [1]) (\<lambda>p c. Some (p @ [c])) True ''h'' [''ca.pem''] = Inr cred \<and>
     cred = TLSCredential \<lparr>tc_ServerName = ''h'', tc_RootCAs = [[1]], tc_MinVersion = TLS13, tc_MaxVersion = TLS13\<rparr>"
proof -
  obtain cred where c: "setupGrpcCredential (Inr []) [] id (\<lambda>_. Inr [1]) (\<lambda>p c. Some (p @ [c])) True ''h'' [''ca.pem''] = Inr cred"
    by (simp add: setupGrpcCredential_def)
  from tls_never_downgraded [OF c] show ?thesis using c by (auto simp: list_all2_Cons1)
qed

lemma Destroy_full:
  assumes "length (q_Conn q) = q_Size q"
  shows "\<exists>q'. ConnPool.Destroy q = Some q' \<and> q_shutdown q' \<and> q_Conn q' = q_Conn q \<and> set (q_Conn q') \<subseteq> q_closed q'"
  using assms by (simp add: ConnPool.Destroy_def foldl_close)

text \<open>
  After \<open>Destroy\<close> the client is out of service. Whatever was acquired, released and replaced
  since the pool was initialised, it is shut down without a panic and with every pooled
  connection closed; a new client is refused from then on; and destroying twice is harmless.
\<close>

theorem destroy_ends_service:
  assumes "ConnPool.Init dials (NewConnQueue n) = (Inr (), q0)" and "pool_reachable q0 (q, H)" and "queueVal g = Some q"
  shows "\<exists>g' q'. client_Destroy g = Some g' \<and> queueVal g' = None \<and> retired g' = retired g @ [q'] \<and> q_shutdown q' \<and>
    q_Conn q' = q_Conn q \<and> set (q_Conn q') \<subseteq> q_closed q' \<and>
    client_New cfg state1 state2 dial g' = (Inl (Errorf ''connection pool not initialized''), g') \<and> client_Destroy g' = Some g'"
proof -
  have "pool_inv q H" using pool_inv_reachable [OF assms(2)] Init_inv [OF assms(1)] by simp
  then have "length (q_Conn q) = q_Size q" by (simp add: pool_inv_def)
  from Destroy_full [OF this] show ?thesis
    using assms(3) by (auto simp: client_Destroy_def client_New_def)
qed

theorem destroy_ends_service_witness:
  "fst (client_Init (Inr InsecureCredential :: unit credential result) (\<lambda>_. None) 2 \<lparr>uuidVal = [], queueVal = None, retired = []\<rparr>) = None \<and>
   (\<exists>g g'. client_Destroy g = Some g' \<and> queueVal g' = None)"
proof -
  let ?g0 = "\<lparr>uuidVal = [], queueVal = None, retired = []\<rparr>"
  obtain r q where q0: "ConnPool.Init (\<lambda>_. None) (NewConnQueue 2) = (r, q)" by (cases "ConnPool.Init (\<lambda>_. None) (NewConnQueue 2)")
  have "fst (ConnPool.Init (\<lambda>_. None) (NewConnQueue 2)) = Inr ()" by code_simp
  then have q: "ConnPool.Init (\<lambda>_. None) (NewConnQueue 2) = (Inr (), q)" using q0 by simp
  then have i: "client_Init (Inr InsecureCredential :: unit credential result) (\<lambda>_. None) 2 ?g0 = (None, ?g0\<lparr>queueVal := Some q\<rparr>)"
    by (simp add: client_Init_def)
  have "pool_reachable q (q, {#})" by (rule pool_reachable.intros)
  then obtain g' where "client_Destroy (?g0\<lparr>queueVal := Some q\<rparr>) = Some g'" "queueVal g' = None"
    using destroy_ends_service [OF q, where g = "?g0\<lparr>queueVal := Some q\<rparr>" and q = q and H = "{#}"
        and cfg = "SetServiceName []" and ?state1.0 = "\<lambda>_. Ready" and ?state2.0 = "\<lambda>_. Ready" and dial = None] by auto
  then have "\<exists>g g'. client_Destroy g = Some g' \<and> queueVal g' = None" by blast
  with i show ?thesis by simp
qed

text \<open>
  Both sides agree on the wire. Whatever service name is configured, the empty one included,
  the two paths the client calls are exactly the two the server registers.
\<close>

theorem service_names_agree:
  "{cm_DnsResolve (NewDynamicProxyClient (SetServiceName name)), cm_Proxy (NewDynamicProxyClient (SetServiceName name))} =
     RegisterWithGRPC (SetServiceName name) \<and>
   NewDynamicProxyClient (SetServiceName name) = GetClientMethodNames name"
  by (simp add: NewDynamicProxyClient_def GetMethodName_def SetServiceName_def Let_def RegisterWithGRPC_def GetClientMethodNames_def)

end
