(* ===== verification/Process.thy ===== *)
theory Process
  imports ConfigApply
begin

text \<open>
  The running process (\<open>api/launcher.go\<close>, \<open>api/stopper.go\<close>, \<open>api/statistic.go\<close>) with the service
  loops it supervises: \<open>ListenAndServe\<close> of the SOCKS, HTTP and RPC servers, \<open>Start\<close> of the DNS
  server and the SOCKS accept loop. The services run in one error group together with the
  signal listener; the group's context ends with the first error. Listening, \<open>net/http\<close>, gRPC
  and the DNS library are seen through the errors they return.
\<close>

section \<open>The SOCKS accept loop\<close>

datatype accept_result = AcceptConn nat | AcceptErr goerror bool \<comment> \<open>the error and whether it is a timeout\<close>

text \<open>The connections handed to a goroutine, and the loop's result once it has one.\<close>

fun Serve :: "accept_result list \<Rightarrow> nat list \<times> goerror option option" where
  "Serve [] = ([], None)"
| "Serve (AcceptConn c # rs) = (case Serve rs of (cs, r) \<Rightarrow> (c # cs, r))"
| "Serve (AcceptErr e timeout # rs) =
     (if errors_Is e NetErrClosed then ([], Some None)
      else if timeout then Serve rs else ([], Some (Some e)))"

section \<open>Services\<close>

datatype service = SocksService | SocksUnixService | HttpService | DnsService | RpcService

definition service_of :: "front_end \<Rightarrow> service" where
  "service_of f =
     (case f of SocksTCP _ \<Rightarrow> SocksService | SocksUnix _ \<Rightarrow> SocksUnixService | HttpFront _ \<Rightarrow> HttpService | DnsFront _ _ \<Rightarrow> DnsService)"

text \<open>The goroutine that serves, whether it was told to stop, and the function that started it.\<close>

datatype serve_pc = Serving | Served "goerror option"
datatype service_pc = Running | Ended "goerror option"

record service_state =
  st_kind :: service
  st_serve :: serve_pc
  st_closed :: bool
  st_pc :: service_pc

definition new_service :: "service \<Rightarrow> service_state" where
  "new_service k = \<lparr>st_kind = k, st_serve = Serving, st_closed = False, st_pc = Running\<rparr>"

text \<open>What the function returns for the error its server ended with.\<close>

definition http_served :: "bool \<Rightarrow> goerror option \<Rightarrow> goerror option" where
  "http_served ctxDone err =
     (case err of
        None \<Rightarrow> None
      | Some e \<Rightarrow> if errors_Is e ErrServerClosed then (if ctxDone then Some (Sentinel Canceled) else None) else Some e)"

definition rpc_served :: "bool \<Rightarrow> goerror option \<Rightarrow> goerror option" where
  "rpc_served ctxDone err =
     (if ctxDone \<and> (case err of None \<Rightarrow> True | Some e \<Rightarrow> errors_Is e ErrServerStopped) then Some (Sentinel Canceled) else err)"

definition service_result :: "service \<Rightarrow> bool \<Rightarrow> goerror option \<Rightarrow> goerror option" where
  "service_result k ctxDone err =
     (case k of
        HttpService \<Rightarrow> http_served ctxDone err
      | RpcService \<Rightarrow> rpc_served ctxDone err
      | _ \<Rightarrow> err)"

definition service_tag :: "service \<Rightarrow> string" where
  "service_tag k =
     (case k of SocksService \<Rightarrow> ''serve socks failed'' | SocksUnixService \<Rightarrow> ''serve unix socks failed''
      | HttpService \<Rightarrow> ''serve http failed'' | DnsService \<Rightarrow> ''serve dns failed'' | RpcService \<Rightarrow> ''serve rpc failed'')"

definition goroutine_error :: "service \<Rightarrow> goerror option \<Rightarrow> goerror option" where
  "goroutine_error k err = map_option (Wrap (service_tag k)) err"

section \<open>The process\<close>

datatype signal_pc = Listening | SignalReturned

record process =
  p_services :: "service_state list"
  p_listener :: signal_pc
  p_sys :: bool
  p_sigStop :: bool
  p_ctxDone :: bool
  p_group :: "goerror option"

definition start_process :: "service list \<Rightarrow> process" where
  "start_process ks =
     \<lparr>p_services = map new_service ks, p_listener = Listening, p_sys = False, p_sigStop = False, p_ctxDone = False, p_group = None\<rparr>"

definition client_process :: "Client_config \<Rightarrow> process" where
  "client_process cl = start_process (map service_of (launch_front_ends cl))"

definition server_process :: process where
  "server_process = start_process [RpcService]"

text \<open>A goroutine of the group returns; an error is kept if it is the first, and ends the context.\<close>

definition group_returns :: "goerror option \<Rightarrow> process \<Rightarrow> process" where
  "group_returns err p =
     (case err of
        None \<Rightarrow> p
      | Some e \<Rightarrow> p\<lparr>p_group := (case p_group p of None \<Rightarrow> Some e | Some e0 \<Rightarrow> Some e0), p_ctxDone := True\<rparr>)"

text \<open>\<open>Stop\<close>: the channel is closed once.\<close>

definition Stop :: "process \<Rightarrow> process" where
  "Stop p = p\<lparr>p_sigStop := True\<rparr>"

definition listenSignal :: "process \<Rightarrow> process" where
  "listenSignal p = group_returns (Some (Sentinel ErrSignalArrived)) (p\<lparr>p_listener := SignalReturned\<rparr>)"

definition service_ends :: "nat \<Rightarrow> goerror option \<Rightarrow> bool \<Rightarrow> process \<Rightarrow> process" where
  "service_ends i err close p =
     (let s = p_services p ! i; e = goroutine_error (st_kind s) err in
      group_returns e (p\<lparr>p_services := (p_services p)[i := s\<lparr>st_pc := Ended e, st_closed := st_closed s \<or> close\<rparr>]\<rparr>))"

datatype process_action = ServeEnds nat | ServiceReturns nat | ServiceStops nat | SignalListener | External

inductive process_step :: "process_action \<Rightarrow> process \<Rightarrow> process \<Rightarrow> bool" where
  Serve_ends: "i < length (p_services p) \<Longrightarrow> st_serve (p_services p ! i) = Serving \<Longrightarrow>
    process_step (ServeEnds i) p (p\<lparr>p_services := (p_services p)[i := (p_services p ! i)\<lparr>st_serve := Served err\<rparr>]\<rparr>)"
| Service_returns: "i < length (p_services p) \<Longrightarrow> st_pc (p_services p ! i) = Running \<Longrightarrow> st_serve (p_services p ! i) = Served err \<Longrightarrow>
    process_step (ServiceReturns i) p
      (service_ends i (service_result (st_kind (p_services p ! i)) (p_ctxDone p) err) False p)"
| Service_ctx: "i < length (p_services p) \<Longrightarrow> st_pc (p_services p ! i) = Running \<Longrightarrow> st_kind (p_services p ! i) \<noteq> RpcService \<Longrightarrow>
    p_ctxDone p \<Longrightarrow> process_step (ServiceStops i) p (service_ends i (Some (Sentinel Canceled)) True p)"
| Rpc_stop: "i < length (p_services p) \<Longrightarrow> st_pc (p_services p ! i) = Running \<Longrightarrow> st_kind (p_services p ! i) = RpcService \<Longrightarrow>
    p_ctxDone p \<Longrightarrow> \<not> st_closed (p_services p ! i) \<Longrightarrow>
    process_step (ServiceStops i) p (p\<lparr>p_services := (p_services p)[i := (p_services p ! i)\<lparr>st_closed := True\<rparr>]\<rparr>)"
| Signal_arrived: "p_listener p = Listening \<Longrightarrow> p_sys p \<or> p_sigStop p \<Longrightarrow> process_step SignalListener p (listenSignal p)"
| Signal_ctx: "p_listener p = Listening \<Longrightarrow> p_ctxDone p \<Longrightarrow>
    process_step SignalListener p (group_returns (Some (Sentinel Canceled)) (p\<lparr>p_listener := SignalReturned\<rparr>))"
| Sys_signal: "process_step External p (p\<lparr>p_sys := True\<rparr>)"
| Stop_called: "process_step External p (Stop p)"

inductive process_reachable :: "process \<Rightarrow> process \<Rightarrow> bool" for p0 where
  Process_init: "process_reachable p0 p0"
| Process_step: "process_reachable p0 p \<Longrightarrow> process_step a p p' \<Longrightarrow> process_reachable p0 p'"

definition process_over :: "process \<Rightarrow> bool" where
  "process_over p \<longleftrightarrow> p_listener p = SignalReturned \<and> list_all (\<lambda>s. st_pc s \<noteq> Running) (p_services p)"

definition server_launch_result :: "goerror option \<Rightarrow> goerror option" where
  "server_launch_result err =
     (case err of
        None \<Rightarrow> None
      | Some e \<Rightarrow> if errors_Is e Canceled \<or> errors_Is e ErrSignalArrived then None else Some (Wrap ''server process error'' e))"

text \<open>
  \<open>launchServer\<close> and \<open>Launch\<close>: the error they return, given what \<open>Apply\<close> and \<open>NewServer\<close> return and
  how the group of the role ends.
\<close>

definition launchServer :: "unit result \<Rightarrow> process \<Rightarrow> goerror option" where
  "launchServer created final =
     (case created of Inl e \<Rightarrow> Some (Wrap ''create server failed'' e) | Inr _ \<Rightarrow> server_launch_result (p_group final))"

definition Launch :: "'d apply_env \<Rightarrow> bool \<Rightarrow> (MixedConfig \<Rightarrow> goerror option) \<Rightarrow> (MixedConfig \<Rightarrow> goerror option) \<Rightarrow> MixedConfig
    \<Rightarrow> 'd globals \<Rightarrow> goerror option \<times> 'd globals" where
  "Launch env skipInternalLogging server client cfg g =
     (let cfg = (if skipInternalLogging then cfg\<lparr>c_LogMode := ''skip''\<rparr> else cfg) in
      case Apply env cfg g of
        (Some e, g') \<Rightarrow> (Some e, g')
      | (None, g') \<Rightarrow>
          (if c_Role cfg = ''server'' then server cfg
           else if c_Role cfg = ''client'' then client cfg
           else Some (Errorf ''unrecognized role''), g'))"

section \<open>Totals (statistic.go)\<close>

definition PutUint64 :: "u64 \<Rightarrow> bytes" where
  "PutUint64 w = map (\<lambda>i. ucast (drop_bit (8 * i) w)) [0..<8]"

record TotalResult =
  BytesSent :: bytes
  BytesReceived :: bytes

definition Total :: "stats \<Rightarrow> TotalResult" where
  "Total st = \<lparr>BytesSent = PutUint64 (tx st), BytesReceived = PutUint64 (rx st)\<rparr>"

text \<open>Reading the eight bytes back, least significant first.\<close>

fun GetUint64 :: "bytes \<Rightarrow> u64" where
  "GetUint64 [] = 0"
| "GetUint64 (b # bs) = or (ucast b) (push_bit 8 (GetUint64 bs))"

lemma GetUint64_tail:
  "k \<le> 8 \<Longrightarrow> GetUint64 (map (\<lambda>i. ucast (drop_bit (8 * i) w)) [k..<8]) = drop_bit (8 * k) w"
proof (induction "8 - k" arbitrary: k)
  case 0
  then have "drop_bit (8 * k) w = 0" by (auto intro!: bit_word_eqI simp: bit_simps)
  with 0 show ?case by simp
next
  case (Suc n)
  then have "[k..<8] = k # [Suc k..<8]" by (simp add: upt_conv_Cons)
  moreover have "GetUint64 (map (\<lambda>i. ucast (drop_bit (8 * i) w)) [Suc k..<8]) = drop_bit (8 * Suc k) w"
    by (rule Suc.hyps(1)) (use Suc in simp_all)
  ultimately show ?case
    by (auto intro!: bit_word_eqI simp: bit_simps)
qed

section \<open>Invariants\<close>

lemma group_returns_fields [simp]:
  "p_services (group_returns e p) = p_services p" "p_listener (group_returns e p) = p_listener p"
  "p_sys (group_returns e p) = p_sys p" "p_sigStop (group_returns e p) = p_sigStop p"
  by (simp_all add: group_returns_def split: option.split)

lemma group_returns_group:
  "p_group (group_returns e p) = (case p_group p of None \<Rightarrow> e | Some e0 \<Rightarrow> Some e0)"
  "p_ctxDone (group_returns e p) \<longleftrightarrow> p_ctxDone p \<or> e \<noteq> None"
  by (simp_all add: group_returns_def split: option.split)

lemma service_ends_fields [simp]:
  "p_listener (service_ends i e c p) = p_listener p" "p_sys (service_ends i e c p) = p_sys p"
  "p_sigStop (service_ends i e c p) = p_sigStop p" "length (p_services (service_ends i e c p)) = length (p_services p)"
  by (simp_all add: service_ends_def Let_def)

lemma listenSignal_fields [simp]:
  "p_services (listenSignal p) = p_services p" "p_listener (listenSignal p) = SignalReturned" "p_ctxDone (listenSignal p)"
  by (simp_all add: listenSignal_def group_returns_group)

text \<open>The context ends exactly with the first error, and the listener returns only with one.\<close>

definition process_inv :: "nat \<Rightarrow> process \<Rightarrow> bool" where
  "process_inv n p \<longleftrightarrow>
     length (p_services p) = n \<and> (p_ctxDone p \<longleftrightarrow> p_group p \<noteq> None) \<and> (p_listener p = SignalReturned \<longrightarrow> p_ctxDone p)"

lemma process_inv_start: "process_inv (length ks) (start_process ks)"
  by (simp add: process_inv_def start_process_def)

lemma process_inv_step: "process_step a p p' \<Longrightarrow> process_inv n p \<Longrightarrow> process_inv n p'"
proof (induction rule: process_step.induct)
  case (Service_returns i p err)
  then show ?case by (auto simp: process_inv_def service_ends_def Let_def group_returns_group split: option.split)
next
  case (Service_ctx i p)
  then show ?case by (auto simp: process_inv_def service_ends_def Let_def group_returns_group split: option.split)
next
  case (Signal_arrived p)
  then show ?case by (auto simp: process_inv_def listenSignal_def group_returns_group split: option.split)
next
  case (Signal_ctx p)
  then show ?case by (auto simp: process_inv_def group_returns_group split: option.split)
qed (auto simp: process_inv_def Stop_def)

lemma process_reachable_inv: "process_reachable (start_process ks) p \<Longrightarrow> process_inv (length ks) p"
  by (induction rule: process_reachable.induct) (auto simp: process_inv_start intro: process_inv_step)

lemma process_step_group: "process_step a p p' \<Longrightarrow> p_group p = Some e \<Longrightarrow> p_group p' = Some e"
  by (induction rule: process_step.induct) (simp_all add: service_ends_def Let_def listenSignal_def group_returns_group Stop_def)

section \<open>Stopping\<close>

text \<open>
  After a signal, \<open>Stop\<close> or a first error: the listener and the services return. A server whose
  function is still waiting for it ends because it was closed.
\<close>

definition process_stop_step :: "process \<Rightarrow> process \<Rightarrow> bool" where
  "process_stop_step p p' \<longleftrightarrow>
     process_step SignalListener p p' \<or>
     (\<exists>i. process_step (ServiceReturns i) p p' \<or> process_step (ServiceStops i) p p' \<or>
        process_step (ServeEnds i) p p' \<and> st_closed (p_services p ! i) \<and> st_pc (p_services p ! i) = Running)"

definition process_stopping :: "nat \<Rightarrow> process \<Rightarrow> bool" where
  "process_stopping n p \<longleftrightarrow> process_inv n p \<and> (p_sys p \<or> p_sigStop p \<or> p_ctxDone p)"

definition service_work :: "service_state \<Rightarrow> nat" where
  "service_work s = (if st_pc s = Running then 1 + of_bool (st_serve s = Serving) + of_bool (\<not> st_closed s) else 0)"

definition process_work :: "process \<Rightarrow> nat" where
  "process_work p = of_bool (p_listener p = Listening) + sum_list (map service_work (p_services p))"

lemma service_work_bound: "service_work s \<le> 3"
  by (simp add: service_work_def)

lemma process_work_bound: "process_work p \<le> 1 + 3 * length (p_services p)"
proof -
  have "sum_list (map service_work ss) \<le> 3 * length ss" for ss
    by (induction ss) (use service_work_bound in \<open>auto simp: add_mono\<close>)
  from this [of "p_services p"] show ?thesis unfolding process_work_def by simp
qed

lemma sum_list_update_less:
  "i < length ss \<Longrightarrow> f x < f (ss ! i) \<Longrightarrow> sum_list (map f (ss[i := x])) < (sum_list (map f ss) :: nat)"
  by (induction ss arbitrary: i) (auto simp: nth_Cons split: nat.splits)

lemma process_work_update:
  assumes "p_services p' = (p_services p)[i := s]" and "i < length (p_services p)" and "service_work s < service_work (p_services p ! i)"
    and "p_listener p' = p_listener p"
  shows "process_work p' < process_work p"
  using assms sum_list_update_less [of i "p_services p" service_work s] by (simp add: process_work_def)

lemma process_stop_work:
  assumes "process_stop_step p p'"
  shows "process_work p' < process_work p"
proof -
  have "process_work p' < process_work p" if "process_step a p p'" and "a \<noteq> External"
    and "\<And>i. a = ServeEnds i \<Longrightarrow> st_pc (p_services p ! i) = Running" for a
    using that
  proof (induction rule: process_step.induct)
    case (Service_returns i p err)
    then show ?case by (intro process_work_update [where i = i]) (auto simp: service_ends_def Let_def service_work_def)
  next
    case (Service_ctx i p)
    then show ?case by (intro process_work_update [where i = i]) (auto simp: service_ends_def Let_def service_work_def)
  next
    case (Signal_arrived p)
    then show ?case by (simp add: process_work_def)
  next
    case (Signal_ctx p)
    then show ?case by (simp add: process_work_def)
  next
    case (Rpc_stop i p)
    then show ?case by (intro process_work_update [where i = i]) (auto simp: service_work_def)
  next
    case (Serve_ends i p err)
    then show ?case by (intro process_work_update [where i = i]) (auto simp: service_work_def)
  qed simp_all
  then show ?thesis using assms unfolding process_stop_step_def by blast
qed

lemma process_stop_progress:
  assumes s: "process_stopping n p" and "\<not> process_over p"
  shows "\<exists>p'. process_stop_step p p'"
proof (cases "p_listener p")
  case Listening
  then show ?thesis
    using s Signal_arrived Signal_ctx unfolding process_stop_step_def process_stopping_def by blast
next
  case SignalReturned
  then have c: "p_ctxDone p" using s by (auto simp: process_stopping_def process_inv_def)
  obtain i where i: "i < length (p_services p)" "st_pc (p_services p ! i) = Running"
    using assms(2) SignalReturned by (auto simp: process_over_def list_all_length)
  show ?thesis
  proof (cases "st_kind (p_services p ! i) = RpcService")
    case False
    from Service_ctx [OF i this c] show ?thesis unfolding process_stop_step_def by blast
  next
    case True
    then show ?thesis
      using i Rpc_stop [OF i True c] Serve_ends [OF i(1)] Service_returns [OF i]
      unfolding process_stop_step_def by (cases "st_serve (p_services p ! i)") blast+
  qed
qed

interpretation process_stop: draining process_stop_step "process_stopping n" process_over process_work for n
proof
  show "process_stopping n p \<Longrightarrow> process_stop_step p p' \<Longrightarrow> process_stopping n p'" for p p'
  proof -
    assume s: "process_stopping n p" and "process_stop_step p p'"
    then obtain a where step: "process_step a p p'" unfolding process_stop_step_def by blast
    have "p_sys p' \<or> p_sigStop p' \<or> p_ctxDone p'"
      using step s
      by (induction rule: process_step.induct)
        (auto simp: process_stopping_def service_ends_def Let_def group_returns_group Stop_def)
    with s process_inv_step [OF step] show "process_stopping n p'" by (simp add: process_stopping_def)
  qed
  show "process_stopping n p \<Longrightarrow> process_stop_step p p' \<Longrightarrow> process_work p' < process_work p" for p p'
    by (rule process_stop_work)
qed (rule process_stop_progress)

section \<open>Properties\<close>

text \<open>
  The accept loop: every connection is served, timeouts are passed over, and the loop ends
  without error exactly when the listener was closed.
\<close>

lemma Serve_accepts:
  assumes "list_all (\<lambda>r. case r of AcceptConn _ \<Rightarrow> True | AcceptErr e t \<Rightarrow> t \<and> \<not> errors_Is e NetErrClosed) rs" and "errors_Is e NetErrClosed \<or> \<not> t"
  shows "Serve (rs @ AcceptErr e t # rest) =
    (concat (map (\<lambda>r. case r of AcceptConn c \<Rightarrow> [c] | AcceptErr _ _ \<Rightarrow> []) rs), Some (if errors_Is e NetErrClosed then None else Some e))"
  using assms by (induction rs) (auto split: accept_result.splits)

lemma process_group_stays: "process_stop_step\<^sup>*\<^sup>* p p' \<Longrightarrow> p_group p = Some e \<Longrightarrow> p_group p' = Some e"
proof (induction rule: rtranclp_induct)
  case (step p' p'')
  then show ?case using process_step_group unfolding process_stop_step_def by blast
qed simp

text \<open>
  C19: The process stops. From every reachable state of a client or server process in which a
  signal arrived, \<open>Stop\<close> was called or a goroutine has failed, at most one step and three per
  service remain, in any order; a run that cannot continue has ended every service and the
  signal listener, and one can always be continued to that end. However it continues, an error
  the group has already is kept for good, so the first error is the one reported.
\<close>

theorem process_stops:
  assumes "process_reachable (start_process ks) p" and "p_sys p \<or> p_sigStop p \<or> p_ctxDone p"
    and "(process_stop_step ^^ n) p p'"
  shows "n \<le> 1 + 3 * length ks \<and> (process_over p' \<or> (\<exists>p''. process_stop_step p' p'')) \<and>
    (\<forall>e. p_group p = Some e \<longrightarrow> p_group p' = Some e) \<and>
    (\<exists>p''. process_stop_step\<^sup>*\<^sup>* p' p'' \<and> process_over p'' \<and> (\<forall>e. p_group p = Some e \<longrightarrow> p_group p'' = Some e))"
proof -
  have inv: "process_inv (length ks) p" by (rule process_reachable_inv [OF assms(1)])
  then have s: "process_stopping (length ks) p" using assms(2) by (simp add: process_stopping_def)
  have "process_work p \<le> 1 + 3 * length ks" using process_work_bound [of p] inv by (simp add: process_inv_def)
  note d = process_stop.drains [OF s this assms(3)]
  then obtain p'' where e: "process_stop_step\<^sup>*\<^sup>* p' p''" "process_over p''" by blast
  have "process_stop_step\<^sup>*\<^sup>* p p''" using e(1) relpowp_imp_rtranclp [OF assms(3)] by simp
  then have "\<forall>e. p_group p = Some e \<longrightarrow> p_group p'' = Some e" using process_group_stays by blast
  moreover have "\<forall>e. p_group p = Some e \<longrightarrow> p_group p' = Some e"
    using process_group_stays relpowp_imp_rtranclp [OF assms(3)] by blast
  ultimately show ?thesis using d e by blast
qed

definition ex_stopped :: process where
  "ex_stopped = listenSignal (Stop (client_process (zero_client\<lparr>c_ListenSocks := ''a'', c_ListenHttp := ''b''\<rparr>)))"

lemma ex_stopped_reachable: "process_reachable (start_process [SocksService, HttpService]) ex_stopped"
proof -
  let ?p = "start_process [SocksService, HttpService]"
  have c: "client_process (zero_client\<lparr>c_ListenSocks := ''a'', c_ListenHttp := ''b''\<rparr>) = ?p" by code_simp
  have g: "p_listener (Stop ?p) = Listening" "p_sys (Stop ?p) \<or> p_sigStop (Stop ?p)" by code_simp+
  show ?thesis unfolding ex_stopped_def c
    by (rule Process_step [OF Process_step [OF Process_init Stop_called] Signal_arrived [OF g]])
qed

theorem process_stops_witness:
  "\<exists>p. process_stop_step\<^sup>*\<^sup>* ex_stopped p \<and> process_over p \<and> launch_result (p_group p) = None"
proof -
  have g: "p_group ex_stopped = Some (Sentinel ErrSignalArrived)" "p_sigStop ex_stopped" by code_simp+
  then obtain p where "process_stop_step\<^sup>*\<^sup>* ex_stopped p" "process_over p" "p_group p = Some (Sentinel ErrSignalArrived)"
    using process_stops [OF ex_stopped_reachable, of 0 ex_stopped] by auto
  then show ?thesis by (auto simp: launch_result_def)
qed

text \<open>
  The totals reported to embedding applications decode to the counters: eight bytes each,
  least significant first.
\<close>

theorem Total_roundtrip:
  "GetUint64 (BytesSent (Total st)) = tx st \<and> GetUint64 (BytesReceived (Total st)) = rx st \<and>
   length (BytesSent (Total st)) = 8 \<and> length (BytesReceived (Total st)) = 8"
  using GetUint64_tail [of 0] by (simp add: Total_def PutUint64_def)

end
