(* ===== verification/RpcServer.thy ===== *)
theory RpcServer
  imports RpcClient Process
begin

text \<open>
  \<open>internal/transport/rpc/server/server.go\<close> around the streams: TLS, \<open>NewServer\<close>, and
  \<open>ListenAndServe\<close> with its watcher goroutine, as a step relation over the gRPC server's
  documented life cycle: \<open>GracefulStop\<close> refuses new streams and waits for those in progress,
  \<open>Stop\<close> does not wait, \<open>Serve\<close> returns no error after either has completed and
  \<open>ErrServerStopped\<close> when it is called too late. The last section refines the service of
  \<open>Process\<close>.
\<close>

section \<open>TLS\<close>

instantiation tls_version :: linorder
begin

fun tls_code :: "tls_version \<Rightarrow> nat" where
  "tls_code TLS10 = 0x0301" | "tls_code TLS11 = 0x0302" | "tls_code TLS12 = 0x0303" | "tls_code TLS13 = 0x0304"

definition less_eq_tls_version :: "tls_version \<Rightarrow> tls_version \<Rightarrow> bool" where
  "less_eq_tls_version a b = (tls_code a \<le> tls_code b)"

definition less_tls_version :: "tls_version \<Rightarrow> tls_version \<Rightarrow> bool" where
  "less_tls_version a b = (tls_code a < tls_code b)"

instance
proof
  fix a b :: tls_version
  show "a \<le> b \<Longrightarrow> b \<le> a \<Longrightarrow> a = b" by (cases a; cases b) (simp_all add: less_eq_tls_version_def)
qed (auto simp: less_eq_tls_version_def less_tls_version_def)

end

lemma TLS13_greatest [simp]: "v \<le> TLS13"
  by (cases v) (simp_all add: less_eq_tls_version_def)

lemma TLS13_le_iff [simp]: "TLS13 \<le> v \<longleftrightarrow> v = TLS13"
  by (cases v) (simp_all add: less_eq_tls_version_def)

record 'k server_tls =
  ts_Certificates :: "'k list"
  ts_MinVersion :: tls_version
  ts_MaxVersion :: tls_version

text \<open>Loading the certificate and its key is an argument.\<close>

definition buildTLSConfig :: "(string \<Rightarrow> string \<Rightarrow> 'k result) \<Rightarrow> string \<Rightarrow> string \<Rightarrow> 'k server_tls result" where
  "buildTLSConfig loadKeyPair certFile keyFile =
     (case loadKeyPair certFile keyFile of
        Inl e \<Rightarrow> Inl e
      | Inr cert \<Rightarrow> Inr \<lparr>ts_Certificates = [cert], ts_MinVersion = TLS13, ts_MaxVersion = TLS13\<rparr>)"

datatype 'k server_creds = ServerInsecure | ServerTLS "'k server_tls"

record 'k rpc_server =
  rs_creds :: "'k server_creds"
  rs_match :: "string \<Rightarrow> bool"
  rs_dnsAddr :: string
  rs_paths :: "string set"

text \<open>
  The two files of \<open>ssl\<close>, the resolver of \<open>dnsConfig\<close>, the service configuration. The users are pointers,
  and a JSON \<open>null\<close> among them is a nil one: the outer \<open>None\<close> is the panic of \<open>NewUsersMatchMap\<close> on it.
\<close>

definition server_credentials :: "(string \<Rightarrow> string \<Rightarrow> 'k result) \<Rightarrow> (string \<times> string) option \<Rightarrow> 'k server_creds result" where
  "server_credentials loadKeyPair ssl =
     (case ssl of
        Some (publicKey, privateKey) \<Rightarrow>
          (case buildTLSConfig loadKeyPair publicKey privateKey of
             Inl e \<Rightarrow> Inl (Wrap ''setup tls'' e)
           | Inr c \<Rightarrow> Inr (ServerTLS c))
      | None \<Rightarrow> Inr ServerInsecure)"

definition rpc_NewServer ::
  "(string \<Rightarrow> string \<Rightarrow> 'k result) \<Rightarrow> ServiceConfig \<Rightarrow> User option list \<Rightarrow> (string \<times> string) option \<Rightarrow> (dns_type \<times> string) option \<Rightarrow> 'k rpc_server result option" where
  "rpc_NewServer loadKeyPair cfg users ssl dnsConfig =
     (if users = [] then Some (Inl (Errorf ''users can not be empty''))
      else case server_credentials loadKeyPair ssl of
          Inl e \<Rightarrow> Some (Inl e)
        | Inr creds \<Rightarrow>
            let dnsAddr = (case dnsConfig of None \<Rightarrow> ''8.8.8.8:53'' | Some (typ, server) \<Rightarrow> Address typ server) in
            if None \<in> set users then None
            else Some (Inr \<lparr>rs_creds = creds, rs_match = UsersMatchMap_Match (NewUsersMatchMap (map the users)),
                   rs_dnsAddr = dnsAddr, rs_paths = RegisterWithGRPC cfg\<rparr>))"

lemma null_user_panics:
  "None \<in> set users \<Longrightarrow> server_credentials loadKeyPair ssl = Inr creds \<Longrightarrow> rpc_NewServer loadKeyPair cfg users ssl dnsConfig = None"
  by (auto simp: rpc_NewServer_def Let_def)

text \<open>With no null user it installs the match of \<open>DnsBridge.NewServer\<close>.\<close>

lemma rpc_NewServer_match:
  "rpc_NewServer loadKeyPair cfg (map Some users) ssl dnsConfig = Some (Inr srv) \<Longrightarrow> NewServer users = Inr (rs_match srv)"
  by (auto simp: rpc_NewServer_def NewServer_def Let_def comp_def split: sum.splits if_splits)

text \<open>
  The version a handshake settles on (\<open>crypto/tls\<close>): the highest that both sides allow, if any;
  a side without TLS cannot shake hands with one that has it.
\<close>

definition negotiate :: "tls_version \<times> tls_version \<Rightarrow> tls_version \<times> tls_version \<Rightarrow> tls_version option" where
  "negotiate a b = (let hi = min (snd a) (snd b) in if max (fst a) (fst b) \<le> hi then Some hi else None)"

fun handshake_version :: "'p credential \<Rightarrow> 'k server_creds \<Rightarrow> tls_version option" where
  "handshake_version (TLSCredential c) (ServerTLS t) =
     negotiate (tc_MinVersion c, tc_MaxVersion c) (ts_MinVersion t, ts_MaxVersion t)"
| "handshake_version _ _ = None"

lemma negotiate_13: "negotiate (TLS13, TLS13) b = Some v \<Longrightarrow> v = TLS13"
  by (auto simp: negotiate_def Let_def min_def max_def split: if_splits)

lemma setupGrpcCredential_13:
  "setupGrpcCredential systemPool newPool clean readFile appendPEM True hostName customCA = Inr cred \<Longrightarrow>
   \<exists>c. cred = TLSCredential c \<and> tc_MinVersion c = TLS13 \<and> tc_MaxVersion c = TLS13"
  by (auto simp: setupGrpcCredential_def buildClientTLSConfig_def split: sum.splits if_splits)

lemma rpc_NewServer_creds:
  "rpc_NewServer loadKeyPair cfg users ssl dnsConfig = Some (Inr srv) \<Longrightarrow>
   (case ssl of
      None \<Rightarrow> rs_creds srv = ServerInsecure
    | Some (pub, priv) \<Rightarrow> \<exists>k. loadKeyPair pub priv = Inr k \<and>
        rs_creds srv = ServerTLS \<lparr>ts_Certificates = [k], ts_MinVersion = TLS13, ts_MaxVersion = TLS13\<rparr>)"
  by (auto simp: rpc_NewServer_def server_credentials_def buildTLSConfig_def Let_def split: sum.splits option.splits if_splits)

text \<open>
  C22: A client and a server of this program that are both configured for TLS settle on TLS 1.3, and
  neither end settles on anything older with any other peer. If only one of them is
  configured for TLS there is no connection: it is never carried in the clear.
\<close>

theorem tls_ends_agree:
  assumes "setupGrpcCredential systemPool newPool clean readFile appendPEM True hostName customCA = Inr cred"
    and "rpc_NewServer loadKeyPair cfg users ssl dnsConfig = Some (Inr srv)"
  shows "handshake_version cred (rs_creds srv) = (if ssl = None then None else Some TLS13) \<and>
    (handshake_version cred peer = Some v \<longrightarrow> v = TLS13) \<and>
    (handshake_version other (rs_creds srv) = Some v \<longrightarrow> v = TLS13) \<and>
    handshake_version InsecureCredential (rs_creds srv) = None"
proof -
  obtain c where c: "cred = TLSCredential c" "tc_MinVersion c = TLS13" "tc_MaxVersion c = TLS13"
    using setupGrpcCredential_13 [OF assms(1)] by blast
  have swap: "negotiate a b = negotiate b a" for a b by (simp add: negotiate_def min.commute max.commute)
  have old: "handshake_version cred peer = Some v \<longrightarrow> v = TLS13" for peer :: "'h server_creds"
    using c negotiate_13 by (cases peer) auto
  show ?thesis
  proof (cases ssl)
    case None
    then show ?thesis using rpc_NewServer_creds [OF assms(2)] old c by simp
  next
    case (Some ssl')
    then obtain k where k: "rs_creds srv = ServerTLS \<lparr>ts_Certificates = [k], ts_MinVersion = TLS13, ts_MaxVersion = TLS13\<rparr>"
      using rpc_NewServer_creds [OF assms(2)] by (cases ssl') auto
    have "handshake_version other (rs_creds srv) = Some v \<longrightarrow> v = TLS13"
      using negotiate_13 k by (cases other) (auto simp: swap [of _ "(TLS13, TLS13)"])
    moreover have "handshake_version cred (rs_creds srv) = Some TLS13"
      using k c by (simp add: negotiate_def)
    ultimately show ?thesis using Some old k by simp
  qed
qed

theorem tls_ends_agree_witness:
  "\<exists>cred srv. setupGrpcCredential (Inr [1 :: nat]) [] id (\<lambda>_. Inr []) (\<lambda>p c. Some p) True ''h'' [] = Inr cred \<and>
     rpc_NewServer (\<lambda>c k. Inr (c, k)) (SetServiceName []) [Some \<lparr>UUID = ''u'', Remark = []\<rparr>] (Some (''c'', ''k'')) None = Some (Inr srv) \<and>
     handshake_version cred (rs_creds srv) = Some TLS13"
proof -
  obtain cred where c: "setupGrpcCredential (Inr [1 :: nat]) [] id (\<lambda>_. Inr []) (\<lambda>p c. Some p) True ''h'' [] = Inr cred"
    by (simp add: setupGrpcCredential_def)
  obtain srv where r: "rpc_NewServer (\<lambda>c k. Inr (c, k)) (SetServiceName []) [Some \<lparr>UUID = ''u'', Remark = []\<rparr>] (Some (''c'', ''k'')) None = Some (Inr srv)"
    by (simp add: rpc_NewServer_def server_credentials_def buildTLSConfig_def Let_def)
  from tls_ends_agree [OF c r, where peer = "ServerInsecure :: unit server_creds" and other = "InsecureCredential :: unit credential" and v = TLS13] c r
  show ?thesis by simp
qed

section \<open>A DNS call\<close>

text \<open>
  The handler registered by \<open>dynamic_server.go\<close>: decode the request, then run the implementation through
  the interceptor, if there is one.
\<close>

definition createDnsResolveHandler :: "'q result \<Rightarrow> ((string \<Rightarrow> 'a result) \<Rightarrow> 'a result) option \<Rightarrow> (string option \<Rightarrow> 'q \<Rightarrow> 'a result) \<Rightarrow> 'a result" where
  "createDnsResolveHandler dec interceptor impl =
     (case dec of
        Inl e \<Rightarrow> Inl e
      | Inr req \<Rightarrow> (case interceptor of None \<Rightarrow> impl None req | Some run \<Rightarrow> run (\<lambda>uid. impl (Some uid) req)))"

text \<open>The server as \<open>NewServer\<close> builds it: the interceptor validates the user of the call's metadata.\<close>

definition serve_DnsResolve ::
  "'k rpc_server \<Rightarrow> 'rr dns_lib \<Rightarrow> 'rr DnsBridge.exchange \<Rightarrow> string list option \<Rightarrow> DnsRequestItem option list result \<Rightarrow> DnsResult list result" where
  "serve_DnsResolve srv lib ex md dec =
     createDnsResolveHandler dec (Some (\<lambda>h. ServerAuthInterceptor (rs_match srv) h md)) (\<lambda>_. server_DnsResolve lib ex)"

lemma users_map_set: "UsersMatchMap_Match (NewUsersMatchMap users) uid \<longleftrightarrow> uid \<in> UUID ` set users"
proof -
  have "foldl (\<lambda>m u. insert (UUID u) m) m users = m \<union> UUID ` set users" for m
    by (induction users arbitrary: m) auto
  then show ?thesis by (simp add: UsersMatchMap_Match_def NewUsersMatchMap_def)
qed

lemma rpc_NewServer_users:
  assumes "rpc_NewServer loadKeyPair cfg users ssl dnsConfig = Some (Inr srv)"
  shows "rs_match srv uid \<longleftrightarrow> (\<exists>u. Some u \<in> set users \<and> UUID u = uid)"
proof -
  have m: "None \<notin> set users" "rs_match srv = UsersMatchMap_Match (NewUsersMatchMap (map the users))"
    using assms by (auto simp: rpc_NewServer_def Let_def split: if_splits sum.splits)
  have "u \<in> the ` set users \<longleftrightarrow> Some u \<in> set users" for u
  proof
    assume "u \<in> the ` set users"
    then obtain x where "x \<in> set users" "u = the x" by blast
    with m(1) show "Some u \<in> set users" by (metis option.collapse)
  qed (metis imageI option.sel)
  then show ?thesis unfolding m(2) users_map_set by auto
qed

text \<open>
  Only configured users resolve names. A call is answered with results exactly when its request decodes,
  its first user id is one of the configuration and the resolution itself succeeds.
\<close>

lemma dns_call_authenticated:
  assumes "rpc_NewServer loadKeyPair cfg users ssl dnsConfig = Some (Inr srv)"
  shows "serve_DnsResolve srv lib ex md dec = Inr rs \<longleftrightarrow>
    (\<exists>items uid rest u. dec = Inr items \<and> md = Some (uid # rest) \<and> uid \<noteq> [] \<and> Some u \<in> set users \<and> UUID u = uid \<and>
       server_DnsResolve lib ex items = Inr rs)"
  unfolding serve_DnsResolve_def createDnsResolveHandler_def ServerAuthInterceptor_def extractAndValidateUserID_def
  by (cases md; cases dec) (auto simp: Let_def rpc_NewServer_users [OF assms] neq_Nil_conv split: sum.splits if_splits)

section \<open>ListenAndServe\<close>

text \<open>
  Three goroutines: the caller inside \<open>Serve\<close>, the watcher, and the one the watcher starts to
  call \<open>GracefulStop\<close>. \<open>rl_quit\<close>, \<open>rl_stopped\<close> and \<open>rl_forced\<close> are the gRPC server's: it no longer
  accepts, it has stopped, \<open>Stop\<close> was called. \<open>rl_streams\<close> counts the streams in progress.
\<close>

datatype watch_pc = AwaitCtx | AwaitStopped | WatchReturned
datatype grace_pc = NoGrace | GraceStarting | GraceWaiting | GraceDone

record rpc_listener =
  rl_serve :: serve_pc
  rl_serveDone :: bool
  rl_watch :: watch_pc
  rl_grace :: grace_pc
  rl_ctx :: bool
  rl_quit :: bool
  rl_stopped :: bool
  rl_forced :: bool
  rl_streams :: nat
  rl_result :: "goerror option option"

definition start_listener :: rpc_listener where
  "start_listener =
     \<lparr>rl_serve = Serving, rl_serveDone = False, rl_watch = AwaitCtx, rl_grace = NoGrace, rl_ctx = False, rl_quit = False,
      rl_stopped = False, rl_forced = False, rl_streams = 0, rl_result = None\<rparr>"

definition rpc_listen :: "goerror option \<Rightarrow> rpc_listener result" where
  "rpc_listen listenErr = (case listenErr of Some e \<Rightarrow> Inl (Wrap ''listen error'' e) | None \<Rightarrow> Inr start_listener)"

text \<open>The statements after \<open>Serve\<close>.\<close>

definition serve_returns :: "goerror option \<Rightarrow> rpc_listener \<Rightarrow> rpc_listener" where
  "serve_returns err s = s\<lparr>rl_serveDone := True, rl_result := Some (rpc_served (rl_ctx s) err)\<rparr>"

text \<open>\<open>Stop\<close> after the timeout.\<close>

definition force_stop :: "rpc_listener \<Rightarrow> rpc_listener" where
  "force_stop s = s\<lparr>rl_forced := True, rl_quit := True, rl_stopped := True, rl_watch := WatchReturned\<rparr>"

inductive listener_step :: "rpc_listener \<Rightarrow> rpc_listener \<Rightarrow> bool" where
  Watch_ctx: "rl_watch s = AwaitCtx \<Longrightarrow> rl_ctx s \<Longrightarrow> listener_step s (s\<lparr>rl_watch := AwaitStopped, rl_grace := GraceStarting\<rparr>)"
| Watch_serveDone: "rl_watch s = AwaitCtx \<Longrightarrow> rl_serveDone s \<Longrightarrow> listener_step s (s\<lparr>rl_watch := WatchReturned\<rparr>)"
| Watch_stopped: "rl_watch s = AwaitStopped \<Longrightarrow> rl_grace s = GraceDone \<Longrightarrow> listener_step s (s\<lparr>rl_watch := WatchReturned\<rparr>)"
| Watch_timeout: "rl_watch s = AwaitStopped \<Longrightarrow> listener_step s (force_stop s)"
| Grace_call: "rl_grace s = GraceStarting \<Longrightarrow> listener_step s (s\<lparr>rl_grace := GraceWaiting, rl_quit := True\<rparr>)"
| Grace_done: "rl_grace s = GraceWaiting \<Longrightarrow> rl_streams s = 0 \<or> rl_forced s \<Longrightarrow>
    listener_step s (s\<lparr>rl_grace := GraceDone, rl_stopped := True\<rparr>)"
| Serve_fails: "rl_serve s = Serving \<Longrightarrow> \<not> rl_quit s \<Longrightarrow> listener_step s (s\<lparr>rl_serve := Served (Some e)\<rparr>)"
| Serve_stopped: "rl_serve s = Serving \<Longrightarrow> rl_stopped s \<Longrightarrow> listener_step s (s\<lparr>rl_serve := Served None\<rparr>)"
| Serve_late: "rl_serve s = Serving \<Longrightarrow> rl_quit s \<Longrightarrow> listener_step s (s\<lparr>rl_serve := Served (Some (Sentinel ErrServerStopped))\<rparr>)"
| Serve_returned: "rl_serve s = Served err \<Longrightarrow> \<not> rl_serveDone s \<Longrightarrow> listener_step s (serve_returns err s)"

text \<open>What the clients and the process do: open and end streams, end the context.\<close>

inductive listener_env :: "rpc_listener \<Rightarrow> rpc_listener \<Rightarrow> bool" where
  Stream_opens: "rl_serve s = Serving \<Longrightarrow> \<not> rl_quit s \<Longrightarrow> listener_env s (s\<lparr>rl_streams := Suc (rl_streams s)\<rparr>)"
| Stream_ends: "rl_streams s = Suc n \<Longrightarrow> listener_env s (s\<lparr>rl_streams := n\<rparr>)"
| Ctx_ends: "listener_env s (s\<lparr>rl_ctx := True\<rparr>)"

definition listener_run :: "rpc_listener \<Rightarrow> rpc_listener \<Rightarrow> bool" where
  "listener_run s s' \<longleftrightarrow> listener_step s s' \<or> listener_env s s'"

definition listener_over :: "rpc_listener \<Rightarrow> bool" where
  "listener_over s \<longleftrightarrow> rl_result s \<noteq> None \<and> rl_watch s = WatchReturned \<and> rl_grace s \<in> {NoGrace, GraceDone}"

definition listener_inv :: "rpc_listener \<Rightarrow> bool" where
  "listener_inv s \<longleftrightarrow>
     (rl_serveDone s \<longleftrightarrow> rl_result s \<noteq> None) \<and> (rl_serveDone s \<longrightarrow> rl_serve s \<noteq> Serving) \<and>
     (rl_grace s \<noteq> NoGrace \<longrightarrow> rl_ctx s) \<and> (rl_watch s = AwaitCtx \<longrightarrow> rl_grace s = NoGrace) \<and>
     (rl_watch s = AwaitStopped \<longrightarrow> rl_grace s \<noteq> NoGrace) \<and> (rl_grace s \<in> {GraceWaiting, GraceDone} \<longrightarrow> rl_quit s) \<and>
     (rl_grace s = GraceDone \<longrightarrow> rl_stopped s) \<and> (rl_quit s \<longrightarrow> rl_ctx s) \<and> (rl_stopped s \<longrightarrow> rl_quit s) \<and>
     (rl_forced s \<longrightarrow> rl_stopped s) \<and> (rl_stopped s \<and> \<not> rl_forced s \<longrightarrow> rl_streams s = 0) \<and>
     (rl_watch s = WatchReturned \<longrightarrow> rl_serveDone s \<and> rl_grace s = NoGrace \<or> rl_grace s = GraceDone \<or> rl_forced s)"

definition watch_work :: "watch_pc \<Rightarrow> nat" where
  "watch_work w = (case w of AwaitCtx \<Rightarrow> 4 | AwaitStopped \<Rightarrow> 1 | WatchReturned \<Rightarrow> 0)"

definition grace_work :: "grace_pc \<Rightarrow> nat" where
  "grace_work g = (case g of GraceStarting \<Rightarrow> 2 | GraceWaiting \<Rightarrow> 1 | _ \<Rightarrow> 0)"

definition listener_work :: "rpc_listener \<Rightarrow> nat" where
  "listener_work s = watch_work (rl_watch s) + grace_work (rl_grace s) + of_bool (rl_serve s = Serving) + of_bool (\<not> rl_serveDone s)"

lemmas listener_defs = serve_returns_def force_stop_def watch_work_def grace_work_def

lemma listener_step_inv: "listener_step s s' \<Longrightarrow> listener_inv s \<Longrightarrow> listener_inv s'"
  by (induction rule: listener_step.induct) (auto simp: listener_inv_def listener_defs)

lemma listener_env_inv: "listener_env s s' \<Longrightarrow> listener_inv s \<Longrightarrow> listener_inv s'"
  by (induction rule: listener_env.induct) (auto simp: listener_inv_def)

lemma listener_step_work: "listener_step s s' \<Longrightarrow> listener_work s' < listener_work s"
  by (induction rule: listener_step.induct) (simp_all add: listener_work_def listener_defs)

lemma start_listener_inv: "listener_inv start_listener"
  by (simp add: listener_inv_def start_listener_def)

lemma listener_reachable_inv: "listener_run\<^sup>*\<^sup>* start_listener s \<Longrightarrow> listener_inv s"
  by (induction rule: rtranclp_induct)
    (auto simp: listener_run_def start_listener_inv intro: listener_step_inv listener_env_inv)

lemma listener_progress:
  assumes "listener_inv s" and "rl_ctx s" and "\<not> listener_over s"
  shows "\<exists>s'. listener_step s s'"
proof (cases "rl_watch s")
  case AwaitCtx
  then show ?thesis using listener_step.Watch_ctx assms(2) by blast
next
  case AwaitStopped
  then show ?thesis using listener_step.Watch_timeout by blast
next
  case WatchReturned
  show ?thesis
  proof (cases "rl_serveDone s")
    case False
    then show ?thesis using assms(1) WatchReturned listener_step.Serve_stopped listener_step.Serve_returned
      by (cases "rl_serve s") (auto simp: listener_inv_def)
  next
    case True
    then show ?thesis using assms WatchReturned listener_step.Grace_call listener_step.Grace_done
      by (cases "rl_grace s") (auto simp: listener_inv_def listener_over_def)
  qed
qed

interpretation listener: draining listener_step "\<lambda>s. listener_inv s \<and> rl_ctx s" listener_over listener_work
proof
  show "listener_inv s' \<and> rl_ctx s'" if "listener_inv s \<and> rl_ctx s" "listener_step s s'" for s s'
    using that(2,1) listener_step_inv [OF that(2)] by (cases rule: listener_step.cases) (auto simp: listener_defs)
qed (use listener_step_work listener_progress in auto)

lemma listener_work_bound: "listener_inv s \<Longrightarrow> listener_work s \<le> 6"
  by (auto simp: listener_work_def listener_inv_def watch_work_def grace_work_def split: watch_pc.split grace_pc.split)

text \<open>
  C20: The server stops when told to, clients or not. Once the context has ended, whatever streams
  are open, at most six steps of the three goroutines remain in any order, none of them waits for a
  stream to end, and both \<open>ListenAndServe\<close> and its helpers return. A stop that did not need the
  timeout cut no stream.
\<close>

theorem listener_stops:
  assumes "listener_run\<^sup>*\<^sup>* start_listener s" and "rl_ctx s" and "(listener_step ^^ n) s s'"
  shows "n \<le> 6 \<and> (listener_over s' \<or> (\<exists>s''. listener_step s' s'')) \<and>
    (\<exists>s''. listener_step\<^sup>*\<^sup>* s' s'' \<and> listener_over s'') \<and>
    (rl_stopped s' \<and> \<not> rl_forced s' \<longrightarrow> rl_streams s' = 0)"
proof -
  have i: "listener_inv s \<and> rl_ctx s" using listener_reachable_inv assms(1,2) by blast
  then have "listener_inv s'" using listener.run_bounded [OF _ assms(3)] by blast
  moreover have "listener_work s \<le> 6" using i listener_work_bound by blast
  note listener.drains [OF i this assms(3)]
  ultimately show ?thesis by (simp add: listener_inv_def)
qed

theorem listener_stops_witness:
  "\<exists>s. listener_step\<^sup>*\<^sup>* (start_listener\<lparr>rl_streams := Suc 0, rl_ctx := True\<rparr>) s \<and> listener_over s"
proof -
  let ?s1 = "start_listener\<lparr>rl_streams := Suc 0\<rparr>"
  have "listener_env start_listener ?s1" using listener_env.Stream_opens [of start_listener] by (simp add: start_listener_def)
  then have "listener_run start_listener ?s1" by (simp add: listener_run_def)
  moreover have "listener_run ?s1 (?s1\<lparr>rl_ctx := True\<rparr>)" unfolding listener_run_def by (rule disjI2 listener_env.Ctx_ends)+
  ultimately have "listener_run\<^sup>*\<^sup>* start_listener (?s1\<lparr>rl_ctx := True\<rparr>)" by (rule converse_rtranclp_into_rtranclp [OF _ r_into_rtranclp])
  from listener_stops [OF this, of 0] show ?thesis by simp
qed

section \<open>The server process\<close>

text \<open>
  \<open>launchServer\<close> in detail: the listener next to the rest of the process, which has the signal
  listener and the error group but no service of its own. The context is the group's: it ends
  when the listener returns an error or the signal listener does.
\<close>

inductive server_process_step :: "rpc_listener \<times> process \<Rightarrow> rpc_listener \<times> process \<Rightarrow> bool" where
  Listener_moves: "listener_step s s' \<Longrightarrow> rl_result s' = rl_result s \<Longrightarrow> server_process_step (s, g) (s', g)"
| Listener_returns: "listener_step s s' \<Longrightarrow> rl_result s = None \<Longrightarrow> rl_result s' = Some r \<Longrightarrow>
    g' = group_returns (goroutine_error RpcService r) g \<Longrightarrow> server_process_step (s, g) (s'\<lparr>rl_ctx := p_ctxDone g'\<rparr>, g')"
| Process_moves: "process_step a g g' \<Longrightarrow> server_process_step (s, g) (s\<lparr>rl_ctx := p_ctxDone g'\<rparr>, g')"
| Streams_move: "listener_env s s' \<Longrightarrow> rl_ctx s' = rl_ctx s \<Longrightarrow> server_process_step (s, g) (s', g)"

text \<open>The service the process of \<open>Process\<close> sees; \<open>st_closed\<close> matters until it has returned.\<close>

definition listener_pc :: "rpc_listener \<Rightarrow> service_pc" where
  "listener_pc s = (case rl_result s of None \<Rightarrow> Running | Some r \<Rightarrow> Ended (goroutine_error RpcService r))"

definition serves_as :: "rpc_listener \<Rightarrow> service_state \<Rightarrow> bool" where
  "serves_as s t \<longleftrightarrow> st_kind t = RpcService \<and> st_serve t = rl_serve s \<and> st_pc t = listener_pc s \<and>
     (rl_result s = None \<longrightarrow> st_closed t = rl_quit s)"

definition server_rel :: "rpc_listener \<times> process \<Rightarrow> process \<Rightarrow> bool" where
  "server_rel c p \<longleftrightarrow>
     (case c of (s, g) \<Rightarrow> listener_inv s \<and> rl_ctx s = p_ctxDone g \<and> p_services g = [] \<and>
        (\<exists>t. p = g\<lparr>p_services := [t]\<rparr> \<and> serves_as s t))"

definition any_process_step :: "process \<Rightarrow> process \<Rightarrow> bool" where
  "any_process_step p p' \<longleftrightarrow> (\<exists>a. process_step a p p')"

lemma group_returns_services: "group_returns e (g\<lparr>p_services := ts\<rparr>) = (group_returns e g)\<lparr>p_services := ts\<rparr>"
  by (cases e) (simp_all add: group_returns_def)

lemma services_update_commute:
  "(g\<lparr>p_services := ts\<rparr>)\<lparr>p_listener := l\<rparr> = (g\<lparr>p_listener := l\<rparr>)\<lparr>p_services := ts\<rparr>"
  "(g\<lparr>p_services := ts\<rparr>)\<lparr>p_sys := b\<rparr> = (g\<lparr>p_sys := b\<rparr>)\<lparr>p_services := ts\<rparr>"
  "Stop (g\<lparr>p_services := ts\<rparr>) = (Stop g)\<lparr>p_services := ts\<rparr>"
  by (simp_all add: Stop_def)

lemma listenSignal_services: "listenSignal (g\<lparr>p_services := ts\<rparr>) = (listenSignal g)\<lparr>p_services := ts\<rparr>"
  by (simp only: listenSignal_def services_update_commute group_returns_services)

lemma group_returns_p_services [simp]: "p_services (group_returns e g) = p_services g"
  by (cases e) (simp_all add: group_returns_def)

lemma group_returns_ctx: "p_ctxDone g \<Longrightarrow> p_ctxDone (group_returns e g)"
  by (cases e) (simp_all add: group_returns_def)

lemma listener_inv_ctx: "listener_inv s \<Longrightarrow> rl_ctx s \<longrightarrow> b \<Longrightarrow> listener_inv (s\<lparr>rl_ctx := b\<rparr>)"
  by (auto simp: listener_inv_def)

lemma serves_as_ctx [simp]: "serves_as (s\<lparr>rl_ctx := b\<rparr>) t = serves_as s t"
  by (simp add: serves_as_def listener_pc_def)

text \<open>A step of the listener before its return, seen by the process.\<close>

lemma listener_move_refines:
  assumes "listener_step s s'" and "listener_inv s" and "rl_ctx s \<longrightarrow> p_ctxDone g" and "serves_as s t" and "rl_result s' = rl_result s"
  shows "\<exists>t'. (t' = t \<or> any_process_step (g\<lparr>p_services := [t]\<rparr>) (g\<lparr>p_services := [t']\<rparr>)) \<and> serves_as s' t'"
proof -
  have ends: ?thesis if "rl_serve s = Serving" "s' = s\<lparr>rl_serve := Served e\<rparr>" for e
  proof -
    have "any_process_step (g\<lparr>p_services := [t]\<rparr>) (g\<lparr>p_services := [t\<lparr>st_serve := Served e\<rparr>]\<rparr>)"
      using process_step.Serve_ends [of 0 "g\<lparr>p_services := [t]\<rparr>" e] that(1) assms(4)
      by (auto simp: any_process_step_def serves_as_def)
    moreover have "serves_as s' (t\<lparr>st_serve := Served e\<rparr>)" using assms(4) that(2) by (simp add: serves_as_def listener_pc_def)
    ultimately show ?thesis by blast
  qed
  have stop: "any_process_step (g\<lparr>p_services := [t]\<rparr>) (g\<lparr>p_services := [t\<lparr>st_closed := True\<rparr>]\<rparr>)"
    if "rl_result s = None" "\<not> rl_quit s" "rl_ctx s"
    using process_step.Rpc_stop [of 0 "g\<lparr>p_services := [t]\<rparr>"] that assms(3,4)
    by (auto simp: any_process_step_def serves_as_def listener_pc_def)
  have quits: ?thesis if "rl_ctx s" "rl_quit s'" "rl_serve s' = rl_serve s" "rl_result s' = rl_result s"
  proof (cases "rl_result s = None \<and> \<not> rl_quit s")
    case True
    with that have "serves_as s' (t\<lparr>st_closed := True\<rparr>)" using assms(4) by (simp add: serves_as_def listener_pc_def)
    with stop True that(1) show ?thesis by (intro exI conjI disjI2) auto
  next
    case False
    with that have "serves_as s' t" using assms(4) unfolding serves_as_def listener_pc_def by force
    then show ?thesis by blast
  qed
  show ?thesis
    using assms(1,5)
  proof cases
    case Watch_timeout
    then have "rl_ctx s" using assms(2) by (simp add: listener_inv_def)
    then show ?thesis by (rule quits) (simp_all add: Watch_timeout force_stop_def)
  next
    case Grace_call
    then have "rl_ctx s" using assms(2) by (simp add: listener_inv_def)
    then show ?thesis by (rule quits) (simp_all add: Grace_call)
  next
    case (Serve_fails e)
    then show ?thesis by (intro ends)
  next
    case Serve_stopped
    then show ?thesis by (intro ends)
  next
    case Serve_late
    then show ?thesis by (intro ends)
  next
    case (Serve_returned err)
    then show ?thesis using assms(2,5) by (auto simp: serve_returns_def listener_inv_def)
  qed (use assms(4) in \<open>auto simp: serves_as_def listener_pc_def\<close>)
qed

lemma listener_return_refines:
  assumes "listener_step s s'" and "rl_ctx s = p_ctxDone g" and "serves_as s t" and "rl_result s = None" and "rl_result s' = Some r"
  shows "\<exists>t'. any_process_step (g\<lparr>p_services := [t]\<rparr>) ((group_returns (goroutine_error RpcService r) g)\<lparr>p_services := [t']\<rparr>) \<and> serves_as s' t'"
  using assms(1,4,5)
proof cases
  case (Serve_returned err)
  let ?t = "t\<lparr>st_pc := Ended (goroutine_error RpcService r)\<rparr>"
  have r: "r = rpc_served (p_ctxDone g) err" using Serve_returned assms(2,5) by (simp add: serve_returns_def)
  have "process_step (ServiceReturns 0) (g\<lparr>p_services := [t]\<rparr>)
      (service_ends 0 (service_result RpcService (p_ctxDone g) err) False (g\<lparr>p_services := [t]\<rparr>))"
    using process_step.Service_returns [of 0 "g\<lparr>p_services := [t]\<rparr>" err] assms(3,4) Serve_returned
    by (simp add: serves_as_def listener_pc_def)
  moreover have "service_ends 0 (service_result RpcService (p_ctxDone g) err) False (g\<lparr>p_services := [t]\<rparr>) =
      (group_returns (goroutine_error RpcService r) g)\<lparr>p_services := [?t]\<rparr>"
    using assms(3) by (simp add: service_ends_def Let_def serves_as_def service_result_def r group_returns_services)
  ultimately have "any_process_step (g\<lparr>p_services := [t]\<rparr>) ((group_returns (goroutine_error RpcService r) g)\<lparr>p_services := [?t]\<rparr>)"
    unfolding any_process_step_def by metis
  moreover have "serves_as s' ?t" using assms(3,4) Serve_returned by (auto simp: serves_as_def listener_pc_def serve_returns_def r assms(2))
  ultimately show ?thesis by blast
qed (use assms(4) in \<open>auto simp: force_stop_def\<close>)

text \<open>Steps of the rest of the process do not look at the services.\<close>

lemma process_move_lifts:
  assumes "process_step a g g'" and "p_services g = []"
  shows "any_process_step (g\<lparr>p_services := ts\<rparr>) (g'\<lparr>p_services := ts\<rparr>) \<and> p_services g' = [] \<and> (p_ctxDone g \<longrightarrow> p_ctxDone g')"
  using assms
proof cases
  case Signal_arrived
  have "process_step SignalListener (g\<lparr>p_services := ts\<rparr>) ((listenSignal g)\<lparr>p_services := ts\<rparr>)"
    using process_step.Signal_arrived [of "g\<lparr>p_services := ts\<rparr>"] Signal_arrived by (simp add: listenSignal_services)
  then show ?thesis using Signal_arrived assms(2) unfolding any_process_step_def
    by (auto simp: listenSignal_def group_returns_def)
next
  case Signal_ctx
  let ?g = "group_returns (Some (Sentinel Canceled)) (g\<lparr>p_listener := SignalReturned\<rparr>)"
  have "process_step SignalListener (g\<lparr>p_services := ts\<rparr>) (?g\<lparr>p_services := ts\<rparr>)"
    using process_step.Signal_ctx [of "g\<lparr>p_services := ts\<rparr>"] Signal_ctx by (simp only: services_update_commute group_returns_services) simp
  then show ?thesis using Signal_ctx assms(2) unfolding any_process_step_def by (auto simp: group_returns_ctx)
next
  case Sys_signal
  then show ?thesis using assms(2) process_step.Sys_signal [of "g\<lparr>p_services := ts\<rparr>"]
    unfolding any_process_step_def services_update_commute by auto
next
  case Stop_called
  then show ?thesis using assms(2) process_step.Stop_called [of "g\<lparr>p_services := ts\<rparr>"]
    unfolding any_process_step_def services_update_commute by (auto simp: Stop_def)
qed simp_all

interpretation server: refining server_process_step any_process_step server_rel
proof
  fix c p c'
  assume rel: "server_rel c p" and step: "server_process_step c c'"
  from rel obtain s g t where c: "c = (s, g)" and inv: "listener_inv s" "rl_ctx s = p_ctxDone g" "p_services g = []"
    and p: "p = g\<lparr>p_services := [t]\<rparr>" "serves_as s t" unfolding server_rel_def by blast
  from step show "\<exists>p'. (p' = p \<or> any_process_step p p') \<and> server_rel c' p'"
    unfolding c
  proof cases
    case (Listener_moves s')
    then have "listener_inv s'" using listener_step_inv inv(1) by blast
    moreover have "rl_ctx s' = rl_ctx s" using Listener_moves(2) by cases (simp_all add: listener_defs)
    ultimately show ?thesis
      using listener_move_refines [OF Listener_moves(2) inv(1) _ p(2) Listener_moves(3), of g] inv p Listener_moves(1)
      by (auto simp: server_rel_def)
  next
    case (Listener_returns s' r g')
    have i: "listener_inv s'" using listener_step_inv [OF Listener_returns(2) inv(1)] .
    have "rl_ctx s' = rl_ctx s" using Listener_returns(2) by cases (simp_all add: listener_defs)
    then have "listener_inv (s'\<lparr>rl_ctx := p_ctxDone g'\<rparr>)"
      using listener_inv_ctx [OF i] group_returns_ctx inv(2) Listener_returns(5) by simp
    with listener_return_refines [OF Listener_returns(2) inv(2) p(2) Listener_returns(3,4)] show ?thesis
      using Listener_returns(1,5) inv(3) p(1) by (auto simp: server_rel_def)
  next
    case (Process_moves a g')
    note m = process_move_lifts [OF Process_moves(2) inv(3), of "[t]"]
    then have "listener_inv (s\<lparr>rl_ctx := p_ctxDone g'\<rparr>)" using listener_inv_ctx [OF inv(1)] inv(2) by simp
    with m show ?thesis using Process_moves(1) p by (auto simp: server_rel_def)
  next
    case (Streams_move s')
    have "serves_as s' t" using Streams_move(2) p(2) by cases (auto simp: serves_as_def listener_pc_def)
    with Streams_move listener_env_inv [OF Streams_move(2) inv(1)] show ?thesis using inv p by (auto simp: server_rel_def)
  qed
qed

lemma process_steps_reachable: "any_process_step\<^sup>*\<^sup>* p p' \<Longrightarrow> process_reachable p p'"
  by (induction rule: rtranclp_induct) (auto simp: any_process_step_def intro: process_reachable.intros)

text \<open>Where the group's first error comes from.\<close>

definition group_inv :: "rpc_listener \<times> process \<Rightarrow> bool" where
  "group_inv c \<longleftrightarrow>
     (case c of (s, g) \<Rightarrow> p_services g = [] \<and> rl_ctx s = p_ctxDone g \<and>
        (rl_result s \<noteq> None \<longrightarrow> rl_serve s \<noteq> Serving) \<and>
        (p_group g = None \<or> p_group g = Some (Sentinel ErrSignalArrived) \<or> p_group g = Some (Sentinel Canceled) \<or>
         (\<exists>e. rl_result s = Some (Some e) \<and> p_group g = Some (Wrap ''serve rpc failed'' e))))"

lemma listener_step_result:
  "listener_step s s' \<Longrightarrow> rl_result s' = rl_result s \<and> (rl_result s \<noteq> None \<and> rl_serve s \<noteq> Serving \<longrightarrow> rl_serve s' = rl_serve s) \<or>
   (\<exists>err. rl_serve s = Served err \<and> rl_serve s' = Served err \<and> rl_result s' = Some (rpc_served (rl_ctx s) err))"
  by (induction rule: listener_step.induct) (auto simp: listener_defs)

lemma listener_step_ctx: "listener_step s s' \<Longrightarrow> rl_ctx s' = rl_ctx s"
  by (induction rule: listener_step.induct) (simp_all add: listener_defs)

lemma process_step_group_source:
  assumes "process_step a g g'" and "p_services g = []"
  shows "p_services g' = [] \<and> (p_group g' = p_group g \<or>
     p_group g = None \<and> p_group g' \<in> {Some (Sentinel ErrSignalArrived), Some (Sentinel Canceled)})"
  using assms by cases (auto simp: listenSignal_def group_returns_def Stop_def split: option.splits)

lemma group_inv_step:
  assumes "server_process_step c c'" and "group_inv c"
  shows "group_inv c'"
  using assms
proof cases
  case (Listener_moves s s' g)
  then show ?thesis using assms(2) listener_step_result [of s s'] listener_step_ctx [of s s']
    by (auto simp: group_inv_def)
next
  case (Listener_returns s s' r g' g)
  obtain err where "rl_serve s' = Served err"
    using listener_step_result [OF Listener_returns(3)] Listener_returns(4,5) by auto
  then show ?thesis using Listener_returns assms(2)
    by (auto simp: group_inv_def group_returns_def goroutine_error_def service_tag_def split: option.splits)
next
  case (Process_moves a g g' s)
  then show ?thesis using assms(2) process_step_group_source [of a g g'] by (auto simp: group_inv_def)
next
  case (Streams_move s s' g)
  from Streams_move(3) show ?thesis using assms(2) Streams_move(1,2,4) by cases (auto simp: group_inv_def)
qed

lemma server_run_group_inv:
  "server_process_step\<^sup>*\<^sup>* (start_listener, start_process []) c \<Longrightarrow> group_inv c"
proof (induction rule: rtranclp_induct)
  case base
  show ?case by (simp add: group_inv_def start_listener_def start_process_def)
next
  case (step c c')
  then show ?case using group_inv_step by blast
qed

lemma listener_return_result:
  assumes "server_process_step (s, g) (s', g')" and "group_inv (s, g)" and "rl_result s = None" and "rl_result s' = Some r"
  shows "\<exists>err. rl_serve s = Served err \<and>
     r = (if p_ctxDone g \<and> (err = None \<or> (\<exists>e. err = Some e \<and> errors_Is e ErrServerStopped)) then Some (Sentinel Canceled)
          else err) \<and>
     p_group g' = (if p_group g = None then map_option (Wrap ''serve rpc failed'') r else p_group g) \<and>
     (p_ctxDone g' \<longleftrightarrow> p_ctxDone g \<or> r \<noteq> None)"
  using assms(1)
proof cases
  case (Listener_returns s1 r1)
  then have "r1 = r" using assms(4) by simp
  then obtain err where err: "rl_serve s = Served err" "r = rpc_served (rl_ctx s) err"
    using listener_step_result [OF Listener_returns(2)] assms(3) Listener_returns(4) by auto
  have "rl_ctx s = p_ctxDone g" using assms(2) by (simp add: group_inv_def)
  with err Listener_returns(5) \<open>r1 = r\<close> show ?thesis
    by (intro exI [of _ err])
      (cases "p_group g"; cases err; cases r;
        simp add: rpc_served_def group_returns_def goroutine_error_def service_tag_def split: if_splits)
next
  case (Listener_moves)
  then show ?thesis using assms(3,4) by simp
next
  case (Process_moves)
  then show ?thesis using assms(3,4) by simp
next
  case (Streams_move)
  from Streams_move(2) show ?thesis using assms(3,4) by cases simp_all
qed

text \<open>
  C21: The detailed server process implements the process model. Whatever its clients do and however
  its goroutines interleave, what the listener, the signal listener and the error group
  show is a reachable state of the server process of \<open>Process\<close>, with the same error in the
  group. When \<open>ListenAndServe\<close> returns, it returns the context's error if the context has ended
  and \<open>Serve\<close> gave nothing or \<open>ErrServerStopped\<close>, and what \<open>Serve\<close> gave otherwise; that is the
  group's error, with its prefix, if it is the first, and then ends the context. So the group's
  error is that of a signal, that of the context or that of \<open>Serve\<close>, and \<open>launchServer\<close> reports
  the last alone.
\<close>

theorem server_process_refines:
  assumes "server_process_step\<^sup>*\<^sup>* (start_listener, start_process []) (s, g)"
  shows "(\<exists>t. process_reachable server_process (g\<lparr>p_services := [t]\<rparr>) \<and> serves_as s t \<and>
    (process_over (g\<lparr>p_services := [t]\<rparr>) \<longleftrightarrow> p_listener g = SignalReturned \<and> rl_result s \<noteq> None) \<and>
    launchServer (Inr ()) (g\<lparr>p_services := [t]\<rparr>) =
      (case p_group g of
         None \<Rightarrow> None
       | Some e \<Rightarrow> if errors_Is e Canceled \<or> errors_Is e ErrSignalArrived then None
                   else Some (Wrap ''server process error'' e))) \<and>
    (p_group g = None \<or> p_group g = Some (Sentinel ErrSignalArrived) \<or> p_group g = Some (Sentinel Canceled) \<or>
     (\<exists>e. rl_result s = Some (Some e) \<and> p_group g = Some (Wrap ''serve rpc failed'' e))) \<and>
    (\<forall>s' g' r. server_process_step (s, g) (s', g') \<and> rl_result s = None \<and> rl_result s' = Some r \<longrightarrow>
      (\<exists>err. rl_serve s = Served err \<and>
         r = (if p_ctxDone g \<and> (err = None \<or> (\<exists>e. err = Some e \<and> errors_Is e ErrServerStopped))
              then Some (Sentinel Canceled) else err) \<and>
         p_group g' = (if p_group g = None then map_option (Wrap ''serve rpc failed'') r else p_group g) \<and>
         (p_ctxDone g' \<longleftrightarrow> p_ctxDone g \<or> r \<noteq> None)))"
proof -
  have "server_rel (start_listener, start_process []) server_process"
    using start_listener_inv by (auto simp: server_rel_def server_process_def start_process_def serves_as_def listener_pc_def
        listener_inv_def new_service_def start_listener_def intro!: exI [of _ "new_service RpcService"])
  from server.run_refines [OF assms this] obtain t where t: "process_reachable server_process (g\<lparr>p_services := [t]\<rparr>)" "serves_as s t"
    by (auto simp: server_rel_def dest: process_steps_reachable)
  have "process_over (g\<lparr>p_services := [t]\<rparr>) \<longleftrightarrow> p_listener g = SignalReturned \<and> rl_result s \<noteq> None"
    using t(2) by (auto simp: process_over_def serves_as_def listener_pc_def split: option.splits)
  moreover have "launchServer (Inr ()) (g\<lparr>p_services := [t]\<rparr>) =
      (case p_group g of None \<Rightarrow> None
       | Some e \<Rightarrow> if errors_Is e Canceled \<or> errors_Is e ErrSignalArrived then None
                   else Some (Wrap ''server process error'' e))"
    by (simp add: launchServer_def server_launch_result_def)
  ultimately have proc: "\<exists>t. process_reachable server_process (g\<lparr>p_services := [t]\<rparr>) \<and> serves_as s t \<and>
      (process_over (g\<lparr>p_services := [t]\<rparr>) \<longleftrightarrow> p_listener g = SignalReturned \<and> rl_result s \<noteq> None) \<and>
      launchServer (Inr ()) (g\<lparr>p_services := [t]\<rparr>) =
        (case p_group g of None \<Rightarrow> None
         | Some e \<Rightarrow> if errors_Is e Canceled \<or> errors_Is e ErrSignalArrived then None
                     else Some (Wrap ''server process error'' e))"
    using t by blast
  have inv: "group_inv (s, g)" by (rule server_run_group_inv [OF assms])
  then have src: "p_group g = None \<or> p_group g = Some (Sentinel ErrSignalArrived) \<or> p_group g = Some (Sentinel Canceled) \<or>
      (\<exists>e. rl_result s = Some (Some e) \<and> p_group g = Some (Wrap ''serve rpc failed'' e))"
    by (simp add: group_inv_def)
  show ?thesis
    by (intro conjI proc src allI impI, elim conjE) (rule listener_return_result [OF _ inv])
qed

theorem server_process_refines_witness:
  "\<exists>s. server_process_step\<^sup>*\<^sup>* (start_listener, start_process []) (s, start_process []) \<and> rl_serve s = Served (Some (Errorf []))  \<and>
     (\<exists>t. process_reachable server_process ((start_process [])\<lparr>p_services := [t]\<rparr>) \<and> st_serve t = Served (Some (Errorf [])))"
proof -
  let ?s = "start_listener\<lparr>rl_serve := Served (Some (Errorf []))\<rparr>"
  have "listener_step start_listener ?s" by (rule listener_step.Serve_fails) (simp_all add: start_listener_def)
  then have run: "server_process_step\<^sup>*\<^sup>* (start_listener, start_process []) (?s, start_process [])"
    by (intro r_into_rtranclp server_process_step.Listener_moves) simp_all
  have s: "st_serve t = Served (Some (Errorf []))" if "serves_as ?s t" for t using that by (simp add: serves_as_def)
  show ?thesis using conjunct1 [OF server_process_refines [OF run]] run s by (intro exI [of _ ?s]) auto
qed

section \<open>A clean exit\<close>

text \<open>What the launcher does not report as an error, and where the listener's own result comes from.\<close>

definition own_failure :: "rpc_listener \<Rightarrow> bool" where
  "own_failure s \<longleftrightarrow> (\<exists>e. rl_result s = Some (Some e) \<and> e \<noteq> Sentinel Canceled \<and> rl_serve s = Served (Some e))"

definition exit_inv :: "rpc_listener \<times> process \<Rightarrow> bool" where
  "exit_inv c \<longleftrightarrow>
     (case c of (s, g) \<Rightarrow>
        (rl_result s \<noteq> None \<longrightarrow> rl_serve s \<noteq> Serving) \<and> (server_launch_result (p_group g) \<noteq> None \<longrightarrow> own_failure s))"

lemma launch_result_group:
  "server_launch_result (p_group (group_returns e g)) \<noteq> None \<Longrightarrow>
   server_launch_result (p_group g) \<noteq> None \<or> p_group g = None \<and> server_launch_result e \<noteq> None"
  by (cases e; cases "p_group g") (auto simp: group_returns_def)

lemma process_step_launch_result:
  assumes "process_step a g g'" and "p_services g = []" and "server_launch_result (p_group g') \<noteq> None"
  shows "server_launch_result (p_group g) \<noteq> None"
  using assms by cases (auto simp: listenSignal_def group_returns_def server_launch_result_def Stop_def split: option.splits)

lemma exit_inv_step:
  assumes "server_process_step c c'" and "exit_inv c" and "p_services (snd c) = []"
  shows "exit_inv c'"
  using assms
proof cases
  case (Listener_moves s s' g)
  then show ?thesis using assms(2) listener_step_result [of s s'] by (auto simp: exit_inv_def own_failure_def)
next
  case (Listener_returns s s' r g' g)
  from listener_step_result [OF Listener_returns(3)] Listener_returns(4,5)
  obtain err where err: "rl_serve s' = Served err" "r = rpc_served (rl_ctx s) err" by auto
  have "own_failure s'" if "server_launch_result (p_group g') \<noteq> None"
  proof -
    have "server_launch_result (goroutine_error RpcService r) \<noteq> None"
      using launch_result_group that Listener_returns(1,4,6) assms(2) by (fastforce simp: exit_inv_def own_failure_def)
    then show ?thesis using err Listener_returns(5)
      by (auto simp: own_failure_def server_launch_result_def goroutine_error_def rpc_served_def split: if_splits option.splits)
  qed
  then show ?thesis using Listener_returns(2) err by (auto simp: exit_inv_def own_failure_def)
next
  case (Process_moves a g g' s)
  then show ?thesis using assms(2,3) process_step_launch_result [of a g g'] by (auto simp: exit_inv_def own_failure_def)
next
  case (Streams_move s s' g)
  from Streams_move(3) show ?thesis using assms(2) Streams_move(1,2) by cases (auto simp: exit_inv_def own_failure_def)
qed

text \<open>
  The server exits cleanly. However it was stopped, by a signal, by \<open>Stop\<close> or through its
  context, and however long its streams took, \<open>launchServer\<close> reports an error only if \<open>Serve\<close> itself failed
  and was not told to stop.
\<close>

theorem server_clean_exit:
  assumes "server_process_step\<^sup>*\<^sup>* (start_listener, start_process []) (s, g)" and "server_launch_result (p_group g) \<noteq> None"
  shows "\<exists>e. rl_result s = Some (Some e) \<and> e \<noteq> Sentinel Canceled \<and> rl_serve s = Served (Some e)"
proof -
  have "exit_inv c \<and> p_services (snd c) = []" if "server_process_step\<^sup>*\<^sup>* (start_listener, start_process []) c" for c
    using that
  proof (induction rule: rtranclp_induct)
    case base
    show ?case by (simp add: exit_inv_def start_listener_def start_process_def server_launch_result_def)
  next
    case (step c c')
    from step.hyps(2) step.IH have "p_services (snd c') = []" by cases (auto dest: process_move_lifts)
    with step exit_inv_step show ?case by blast
  qed
  from this [OF assms(1)] assms(2) show ?thesis by (auto simp: exit_inv_def own_failure_def)
qed

end
