(* ===== verification/RpcCall.thy ===== *)
theory RpcCall
  imports RpcServer
begin

text \<open>
  A call from the client's stub to the server's implementation: \<open>rpc/config.go\<close>, \<open>rpc/interceptor.go\<close>,
  \<open>rpc/client/dynamic_client.go\<close>, \<open>rpc/server/dynamic_server.go\<close> and \<open>rpc/proto/dynamic_service.go\<close>. The
  context of a call carries its metadata and the validated user; gRPC in between routes
  a call to the handler registered for its path, or answers that there is none.
\<close>

section \<open>Contexts and metadata\<close>

text \<open>
  \<open>cx_outgoing\<close> are the pairs appended to the outgoing metadata in order, \<open>cx_incoming\<close> the metadata
  of a received call, \<open>cx_userID\<close> the value under \<open>userIDContextKey\<close>.
\<close>

record call_ctx =
  cx_outgoing :: "(string \<times> string) list"
  cx_incoming :: "(string \<Rightarrow> string list) option"
  cx_userID :: "string option"

definition Background :: call_ctx where
  "Background = \<lparr>cx_outgoing = [], cx_incoming = None, cx_userID = None\<rparr>"

definition MetadataKeyUserID :: string where
  "MetadataKeyUserID = ''x-user-id''"

definition UserIDFromContext :: "call_ctx \<Rightarrow> string \<times> bool" where
  "UserIDFromContext ctx = (case cx_userID ctx of Some uid \<Rightarrow> (uid, True) | None \<Rightarrow> ([], False))"

definition AppendToOutgoingContext :: "string \<Rightarrow> string \<Rightarrow> call_ctx \<Rightarrow> call_ctx" where
  "AppendToOutgoingContext k v ctx = ctx\<lparr>cx_outgoing := cx_outgoing ctx @ [(k, v)]\<rparr>"

text \<open>The context of a call at the server, as gRPC makes it from what the client sent.\<close>

definition received_ctx :: "call_ctx \<Rightarrow> call_ctx" where
  "received_ctx ctx = Background\<lparr>cx_incoming := Some (\<lambda>k. map snd (filter (\<lambda>p. fst p = k) (cx_outgoing ctx)))\<rparr>"

section \<open>Interceptors\<close>

definition UnaryClientAuthInterceptor :: "string \<Rightarrow> (call_ctx \<Rightarrow> string \<Rightarrow> 'q \<Rightarrow> 'a) \<Rightarrow> call_ctx \<Rightarrow> string \<Rightarrow> 'q \<Rightarrow> 'a" where
  "UnaryClientAuthInterceptor uuid invoker ctx method req = invoker (AppendToOutgoingContext MetadataKeyUserID uuid ctx) method req"

definition StreamClientAuthInterceptor :: "string \<Rightarrow> (call_ctx \<Rightarrow> string \<Rightarrow> 'a) \<Rightarrow> call_ctx \<Rightarrow> string \<Rightarrow> 'a" where
  "StreamClientAuthInterceptor uuid streamer ctx method = streamer (AppendToOutgoingContext MetadataKeyUserID uuid ctx) method"

definition user_of :: "(string \<Rightarrow> bool) \<Rightarrow> call_ctx \<Rightarrow> string result" where
  "user_of matchUser ctx = extractAndValidateUserID (map_option (\<lambda>md. md MetadataKeyUserID) (cx_incoming ctx)) matchUser"

definition UnaryServerAuthInterceptor ::
  "(string \<Rightarrow> bool) \<Rightarrow> call_ctx \<Rightarrow> 'q \<Rightarrow> (call_ctx \<Rightarrow> 'q \<Rightarrow> 'a result) \<Rightarrow> 'a result" where
  "UnaryServerAuthInterceptor matchUser ctx req handler =
     (case user_of matchUser ctx of Inl e \<Rightarrow> Inl e | Inr uid \<Rightarrow> handler (ctx\<lparr>cx_userID := Some uid\<rparr>) req)"

text \<open>A server stream is its context and the messages it carries; the wrapper overrides the context.\<close>

datatype 'm server_stream = ServerStream call_ctx 'm | AuthenticatedServerStream "'m server_stream" call_ctx

fun stream_Context :: "'m server_stream \<Rightarrow> call_ctx" where
  "stream_Context (ServerStream ctx m) = ctx"
| "stream_Context (AuthenticatedServerStream ss ctx) = ctx"

fun stream_messages :: "'m server_stream \<Rightarrow> 'm" where
  "stream_messages (ServerStream ctx m) = m"
| "stream_messages (AuthenticatedServerStream ss ctx) = stream_messages ss"

definition StreamServerAuthInterceptor ::
  "(string \<Rightarrow> bool) \<Rightarrow> 'm server_stream \<Rightarrow> ('m server_stream \<Rightarrow> 'a result) \<Rightarrow> 'a result" where
  "StreamServerAuthInterceptor matchUser ss handler =
     (case user_of matchUser (stream_Context ss) of
        Inl e \<Rightarrow> Inl e
      | Inr uid \<Rightarrow> handler (AuthenticatedServerStream ss ((stream_Context ss)\<lparr>cx_userID := Some uid\<rparr>)))"

section \<open>Services\<close>

text \<open>\<open>proto.ProxyServer\<close>: the two methods of an implementation.\<close>

record ('q, 'a, 'm, 'b) ProxyServer =
  ps_DnsResolve :: "call_ctx \<Rightarrow> 'q \<Rightarrow> 'a result"
  ps_Proxy :: "'m server_stream \<Rightarrow> 'b result"

type_synonym ('q, 'a) unary_interceptor = "call_ctx \<Rightarrow> 'q \<Rightarrow> (call_ctx \<Rightarrow> 'q \<Rightarrow> 'a result) \<Rightarrow> 'a result"
type_synonym ('q, 'a) method_handler = "call_ctx \<Rightarrow> 'q result \<Rightarrow> ('q, 'a) unary_interceptor option \<Rightarrow> 'a result"
type_synonym ('m, 'b) stream_handler = "'m server_stream \<Rightarrow> 'b result"

record ('q, 'a, 'm, 'b) ServiceDesc =
  sd_ServiceName :: string
  sd_Methods :: "(string \<times> ('q, 'a) method_handler) list"
  sd_Streams :: "(string \<times> ('m, 'b) stream_handler) list"

definition GetServiceName :: "ServiceConfig \<Rightarrow> string" where
  "GetServiceName cfg = serviceName cfg"

definition GetDnsResolveMethodName :: "ServiceConfig \<Rightarrow> string" where
  "GetDnsResolveMethodName cfg = GetMethodName cfg ''DnsResolve''"

definition GetProxyMethodName :: "ServiceConfig \<Rightarrow> string" where
  "GetProxyMethodName cfg = GetMethodName cfg ''Proxy''"

definition dns_handler :: "('q, 'a, 'm, 'b) ProxyServer \<Rightarrow> ('q, 'a) method_handler" where
  "dns_handler impl ctx dec interceptor =
     (case dec of
        Inl e \<Rightarrow> Inl e
      | Inr req \<Rightarrow>
          (case interceptor of
             None \<Rightarrow> ps_DnsResolve impl ctx req
           | Some run \<Rightarrow> run ctx req (ps_DnsResolve impl)))"

definition createProxyHandler :: "('q, 'a, 'm, 'b) ProxyServer \<Rightarrow> ('m, 'b) stream_handler" where
  "createProxyHandler impl stream = ps_Proxy impl stream"

definition dynamic_RegisterWithGRPC ::
  "ServiceConfig \<Rightarrow> ('q, 'a, 'm, 'b) ProxyServer \<Rightarrow> ('q, 'a, 'm, 'b) ServiceDesc list \<Rightarrow> ('q, 'a, 'm, 'b) ServiceDesc list" where
  "dynamic_RegisterWithGRPC cfg impl services =
     services @ [\<lparr>sd_ServiceName = GetServiceName cfg, sd_Methods = [(''DnsResolve'', dns_handler impl)],
       sd_Streams = [(''Proxy'', createProxyHandler impl)]\<rparr>]"

text \<open>
  The service of \<open>dynamic_service.go\<close>, whose name is given when it is created. The generated handlers
  it registers do the same as the two above.
\<close>

record ('q, 'a, 'm, 'b) DynamicProxyService =
  dp_serviceName :: string
  dp_server :: "('q, 'a, 'm, 'b) ProxyServer"

definition NewDynamicProxyService :: "string \<Rightarrow> ('q, 'a, 'm, 'b) ProxyServer \<Rightarrow> ('q, 'a, 'm, 'b) DynamicProxyService" where
  "NewDynamicProxyService name server =
     \<lparr>dp_serviceName = (if name = [] then ''proxy.Proxy'' else name), dp_server = server\<rparr>"

definition service_GetServiceName :: "('q, 'a, 'm, 'b) DynamicProxyService \<Rightarrow> string" where
  "service_GetServiceName d = dp_serviceName d"

definition service_GetMethodNames :: "('q, 'a, 'm, 'b) DynamicProxyService \<Rightarrow> string \<times> string" where
  "service_GetMethodNames d = (method_path (dp_serviceName d) ''DnsResolve'', method_path (dp_serviceName d) ''Proxy'')"

definition service_RegisterWithServer ::
  "('q, 'a, 'm, 'b) DynamicProxyService \<Rightarrow> ('q, 'a, 'm, 'b) ServiceDesc list \<Rightarrow> ('q, 'a, 'm, 'b) ServiceDesc list" where
  "service_RegisterWithServer d services =
     services @ [\<lparr>sd_ServiceName = dp_serviceName d, sd_Methods = [(''DnsResolve'', dns_handler (dp_server d))],
       sd_Streams = [(''Proxy'', createProxyHandler (dp_server d))]\<rparr>]"

section \<open>A call\<close>

text \<open>
  A gRPC server with its services and interceptors, as \<open>NewServer\<close> sets it up. A call is routed by its
  path, which is the name of a service and of one of its methods.
\<close>

record ('q, 'a, 'm, 'b) grpc_server =
  gs_services :: "('q, 'a, 'm, 'b) ServiceDesc list"
  gs_unary :: "('q, 'a) unary_interceptor option"
  gs_stream :: "('m server_stream \<Rightarrow> ('m, 'b) stream_handler \<Rightarrow> 'b result) option"

definition new_grpc_server :: "(string \<Rightarrow> bool) \<Rightarrow> ServiceConfig \<Rightarrow> ('q, 'a, 'm, 'b) ProxyServer \<Rightarrow> ('q, 'a, 'm, 'b) grpc_server" where
  "new_grpc_server matchUser cfg impl =
     \<lparr>gs_services = dynamic_RegisterWithGRPC cfg impl [], gs_unary = Some (UnaryServerAuthInterceptor matchUser),
      gs_stream = Some (StreamServerAuthInterceptor matchUser)\<rparr>"

definition handler_at :: "('d \<Rightarrow> string) \<Rightarrow> ('d \<Rightarrow> (string \<times> 'h) list) \<Rightarrow> 'd list \<Rightarrow> string \<Rightarrow> 'h option" where
  "handler_at name handlers services path =
     map_of (concat (map (\<lambda>d. map (\<lambda>(m, h). (method_path (name d) m, h)) (handlers d)) services)) path"

definition unimplemented :: goerror where
  "unimplemented = Errorf ''unimplemented''"

definition serve_unary :: "('q, 'a, 'm, 'b) grpc_server \<Rightarrow> call_ctx \<Rightarrow> string \<Rightarrow> 'q result \<Rightarrow> 'a result" where
  "serve_unary s ctx path dec =
     (case handler_at sd_ServiceName sd_Methods (gs_services s) path of
        None \<Rightarrow> Inl unimplemented
      | Some h \<Rightarrow> h (received_ctx ctx) dec (gs_unary s))"

definition serve_stream :: "('q, 'a, 'm, 'b) grpc_server \<Rightarrow> call_ctx \<Rightarrow> string \<Rightarrow> 'm \<Rightarrow> 'b result" where
  "serve_stream s ctx path msgs =
     (case handler_at sd_ServiceName sd_Streams (gs_services s) path of
        None \<Rightarrow> Inl unimplemented
      | Some h \<Rightarrow>
          (let ss = ServerStream (received_ctx ctx) msgs in
           case gs_stream s of None \<Rightarrow> h ss | Some run \<Rightarrow> run ss h))"

text \<open>The methods of the client's stub, on a connection that carries the interceptors of \<open>Init\<close>.\<close>

definition getUUID :: "client_globals \<Rightarrow> string" where
  "getUUID g = uuidVal g"

definition DynamicProxyClient_DnsResolve :: "ClientMethodNames \<Rightarrow> (call_ctx \<Rightarrow> string \<Rightarrow> 'q \<Rightarrow> 'a result) \<Rightarrow> call_ctx \<Rightarrow> 'q \<Rightarrow> 'a result" where
  "DynamicProxyClient_DnsResolve c invoke ctx req =
     (case invoke ctx (cm_DnsResolve c) req of Inl e \<Rightarrow> Inl e | Inr out \<Rightarrow> Inr out)"

definition DynamicProxyClient_Proxy :: "ClientMethodNames \<Rightarrow> (call_ctx \<Rightarrow> string \<Rightarrow> 'b result) \<Rightarrow> call_ctx \<Rightarrow> 'b result" where
  "DynamicProxyClient_Proxy c newStream ctx =
     (case newStream ctx (cm_Proxy c) of Inl e \<Rightarrow> Inl e | Inr stream \<Rightarrow> Inr stream)"

text \<open>
  Both ends together: the request as it decodes at the server, the messages of the stream. The result of
  a stream is the status its handler ends with, which the client gets from its receives.
\<close>

definition call_DnsResolve :: "client_globals \<Rightarrow> ServiceConfig \<Rightarrow> ('q, 'a, 'm, 'b) grpc_server \<Rightarrow> 'q result \<Rightarrow> 'a result" where
  "call_DnsResolve g cfg s dec =
     DynamicProxyClient_DnsResolve (NewDynamicProxyClient cfg) (UnaryClientAuthInterceptor (getUUID g) (serve_unary s)) Background dec"

definition call_Proxy :: "client_globals \<Rightarrow> ServiceConfig \<Rightarrow> ('q, 'a, 'm, 'b) grpc_server \<Rightarrow> 'm \<Rightarrow> 'b result" where
  "call_Proxy g cfg s msgs =
     DynamicProxyClient_Proxy (NewDynamicProxyClient cfg)
       (StreamClientAuthInterceptor (getUUID g) (\<lambda>ctx path. serve_stream s ctx path msgs)) Background"

section \<open>Lemmas\<close>

lemma method_path_eq [simp]: "method_path n m = method_path n' m \<longleftrightarrow> n = n'"
  by (simp add: method_path_def)

lemma NewDynamicProxyClient_paths [simp]:
  "cm_DnsResolve (NewDynamicProxyClient (SetServiceName n)) = method_path (serviceName (SetServiceName n)) ''DnsResolve''"
  "cm_Proxy (NewDynamicProxyClient (SetServiceName n)) = method_path (serviceName (SetServiceName n)) ''Proxy''"
  by (simp_all add: NewDynamicProxyClient_def GetMethodName_def SetServiceName_def Let_def)

lemma handlers_registered:
  "handler_at sd_ServiceName sd_Methods (dynamic_RegisterWithGRPC cfg impl []) (method_path n ''DnsResolve'') =
     (if n = serviceName cfg then Some (dns_handler impl) else None)"
  "handler_at sd_ServiceName sd_Streams (dynamic_RegisterWithGRPC cfg impl []) (method_path n ''Proxy'') =
     (if n = serviceName cfg then Some (createProxyHandler impl) else None)"
  by (simp_all add: handler_at_def dynamic_RegisterWithGRPC_def GetServiceName_def)

text \<open>The user the server sees is the one the client's interceptor put there.\<close>

lemma user_of_received:
  "user_of matchUser (received_ctx (AppendToOutgoingContext MetadataKeyUserID uuid Background)) =
     (if uuid = [] then Inl (Errorf ''missing user id'') else if matchUser uuid then Inr uuid else Inl (Errorf ''unknown user''))"
  by (simp add: user_of_def received_ctx_def AppendToOutgoingContext_def Background_def extractAndValidateUserID_def)

definition validated_ctx :: "string \<Rightarrow> call_ctx" where
  "validated_ctx uuid = (received_ctx (AppendToOutgoingContext MetadataKeyUserID uuid Background))\<lparr>cx_userID := Some uuid\<rparr>"

text \<open>Why a call is turned away before the implementation runs.\<close>

definition refusal :: "(string \<Rightarrow> bool) \<Rightarrow> string \<Rightarrow> string \<Rightarrow> string \<Rightarrow> goerror option" where
  "refusal matchUser clientName serverName uuid =
     (if clientName \<noteq> serverName then Some unimplemented
      else if uuid = [] then Some (Errorf ''missing user id'')
      else if matchUser uuid then None else Some (Errorf ''unknown user''))"

lemma call_Proxy_outcome:
  "call_Proxy g (SetServiceName n) (new_grpc_server matchUser cfg impl) msgs =
     (case refusal matchUser (serviceName (SetServiceName n)) (serviceName cfg) (uuidVal g) of
        Some e \<Rightarrow> Inl e
      | None \<Rightarrow> ps_Proxy impl (AuthenticatedServerStream
          (ServerStream (received_ctx (AppendToOutgoingContext MetadataKeyUserID (uuidVal g) Background)) msgs) (validated_ctx (uuidVal g))))"
  by (simp add: call_Proxy_def DynamicProxyClient_Proxy_def StreamClientAuthInterceptor_def serve_stream_def new_grpc_server_def
      handlers_registered StreamServerAuthInterceptor_def user_of_received refusal_def getUUID_def validated_ctx_def
      createProxyHandler_def split: sum.split)

lemma call_DnsResolve_outcome:
  "call_DnsResolve g (SetServiceName n) (new_grpc_server matchUser cfg impl) (Inr req) =
     (case refusal matchUser (serviceName (SetServiceName n)) (serviceName cfg) (uuidVal g) of
        Some e \<Rightarrow> Inl e
      | None \<Rightarrow> ps_DnsResolve impl (validated_ctx (uuidVal g)) req)"
  by (simp add: call_DnsResolve_def DynamicProxyClient_DnsResolve_def UnaryClientAuthInterceptor_def serve_unary_def new_grpc_server_def
      handlers_registered dns_handler_def UnaryServerAuthInterceptor_def user_of_received refusal_def getUUID_def validated_ctx_def
      split: sum.split)

text \<open>When a call is let in, in terms of the configuration.\<close>

definition admitted :: "User option list \<Rightarrow> string \<Rightarrow> string \<Rightarrow> string \<Rightarrow> bool" where
  "admitted users clientName serverName uuid \<longleftrightarrow>
     clientName = serverName \<and> uuid \<noteq> [] \<and> (\<exists>u. Some u \<in> set users \<and> UUID u = uuid)"

lemma refusal_admitted:
  assumes "rpc_NewServer loadKeyPair cfg users ssl dnsConfig = Some (Inr srv)"
  shows "refusal (rs_match srv) clientName serverName uuid = None \<longleftrightarrow> admitted users clientName serverName uuid"
  using rpc_NewServer_users [OF assms, of uuid] by (auto simp: refusal_def admitted_def)

lemma validated_user: "UserIDFromContext (validated_ctx uuid) = (uuid, True)"
  by (simp add: validated_ctx_def UserIDFromContext_def)

text \<open>
  The two registrations and the two tables of method names agree: a service created with a name
  answers under the paths that a client configured with that name calls.
\<close>

lemma service_registrations_agree:
  "service_RegisterWithServer (NewDynamicProxyService n impl) services = dynamic_RegisterWithGRPC (SetServiceName n) impl services \<and>
   service_GetServiceName (NewDynamicProxyService n impl) = GetServiceName (SetServiceName n) \<and>
   service_GetMethodNames (NewDynamicProxyService n impl) =
     (GetDnsResolveMethodName (SetServiceName n), GetProxyMethodName (SetServiceName n)) \<and>
   RegisterWithGRPC (SetServiceName n) = {GetDnsResolveMethodName (SetServiceName n), GetProxyMethodName (SetServiceName n)}"
  by (simp add: service_RegisterWithServer_def NewDynamicProxyService_def dynamic_RegisterWithGRPC_def GetServiceName_def
      service_GetServiceName_def service_GetMethodNames_def GetDnsResolveMethodName_def GetProxyMethodName_def GetMethodName_def
      RegisterWithGRPC_def SetServiceName_def Let_def)

section \<open>Property\<close>

text \<open>
  C14: Only configured users are served, and a handler knows whom it serves. A call of this
  client reaches the implementation of this server exactly when both are configured with the
  same service name and the client's UUID is not empty and is that of a configured user; the
  handler of a stream and of a unary call then finds that very UUID in its context, and the
  messages are those the client sent. Every other call is answered by an error, the
  same for both kinds, without the implementation being run.
\<close>

theorem calls_authenticated:
  assumes "rpc_NewServer loadKeyPair (SetServiceName name) users ssl dnsConfig = Some (Inr srv)"
  shows "let s = new_grpc_server (rs_match srv) (SetServiceName name) impl; cfg = SetServiceName clientName in
    if admitted users (serviceName cfg) (serviceName (SetServiceName name)) (uuidVal g) then
      \<exists>ss ctx. call_Proxy g cfg s msgs = ps_Proxy impl ss \<and> stream_messages ss = msgs \<and>
        UserIDFromContext (stream_Context ss) = (uuidVal g, True) \<and>
        call_DnsResolve g cfg s (Inr req) = ps_DnsResolve impl ctx req \<and> UserIDFromContext ctx = (uuidVal g, True)
    else \<exists>e. call_Proxy g cfg s msgs = Inl e \<and> call_DnsResolve g cfg s (Inr req) = Inl e \<and>
        e \<in> {unimplemented, Errorf ''missing user id'', Errorf ''unknown user''}"
proof (cases "admitted users (serviceName (SetServiceName clientName)) (serviceName (SetServiceName name)) (uuidVal g)")
  case True
  then have "refusal (rs_match srv) (serviceName (SetServiceName clientName)) (serviceName (SetServiceName name)) (uuidVal g) = None"
    using refusal_admitted [OF assms] by blast
  with True show ?thesis
    unfolding Let_def call_Proxy_outcome call_DnsResolve_outcome by (force simp: validated_user)
next
  case False
  then obtain e where e: "refusal (rs_match srv) (serviceName (SetServiceName clientName)) (serviceName (SetServiceName name)) (uuidVal g) = Some e"
    using refusal_admitted [OF assms] by fastforce
  then have "e \<in> {unimplemented, Errorf ''missing user id'', Errorf ''unknown user''}"
    by (auto simp: refusal_def split: if_splits)
  with False e show ?thesis unfolding Let_def call_Proxy_outcome call_DnsResolve_outcome by simp
qed

definition ex_service :: "(nat, nat, nat, nat) ProxyServer" where
  "ex_service = \<lparr>ps_DnsResolve = (\<lambda>ctx q. if snd (UserIDFromContext ctx) then Inr (q + 1) else Inl (Errorf ''no user'')),
     ps_Proxy = (\<lambda>ss. Inr (stream_messages ss + 2))\<rparr>"

theorem calls_authenticated_witness:
  "\<exists>srv :: (string \<times> string) rpc_server.
     rpc_NewServer (\<lambda>c k. Inr (c, k)) (SetServiceName ''api.S'') [Some \<lparr>UUID = ''u'', Remark = []\<rparr>] None None = Some (Inr srv) \<and>
     call_Proxy \<lparr>uuidVal = ''u'', queueVal = None, retired = []\<rparr> (SetServiceName ''api.S'')
       (new_grpc_server (rs_match srv) (SetServiceName ''api.S'') ex_service) 5 = Inr 7 \<and>
     (\<exists>e. call_Proxy \<lparr>uuidVal = ''v'', queueVal = None, retired = []\<rparr> (SetServiceName ''api.S'')
       (new_grpc_server (rs_match srv) (SetServiceName ''api.S'') ex_service) 5 = Inl e)"
proof -
  let ?users = "[Some \<lparr>UUID = ''u'', Remark = []\<rparr>]"
  obtain srv :: "(string \<times> string) rpc_server" where
    srv: "rpc_NewServer (\<lambda>c k. Inr (c, k)) (SetServiceName ''api.S'') ?users None None = Some (Inr srv)"
    by (simp add: rpc_NewServer_def server_credentials_def)
  have "admitted ?users n n ''u''" "\<not> admitted ?users n n ''v''" for n by (simp_all add: admitted_def)
  then show ?thesis
    using srv calls_authenticated [OF srv, where clientName = "''api.S''" and g = "\<lparr>uuidVal = ''u'', queueVal = None, retired = []\<rparr>" and impl = ex_service and msgs = 5 and req = 0]
      calls_authenticated [OF srv, where clientName = "''api.S''" and g = "\<lparr>uuidVal = ''v'', queueVal = None, retired = []\<rparr>" and impl = ex_service and msgs = 5 and req = 0]
    by (auto simp: Let_def ex_service_def)
qed

end
