(* ===== verification/RpcOptions.thy ===== *)
theory RpcOptions
  imports ConfigApply RpcTunnel
begin

text \<open>
  \<open>internal/transport/rpc/options.go\<close>: the limits and options both ends of the tunnel give to
  gRPC, and how they fit the transport settings a configuration leaves behind. For that, the
  range of every setting of the process after any sequence of configurations. The size of an
  encoded message is an argument; what is assumed of it is the protocol buffer format of a
  bytes field: a tag of one byte and a length of at most ten precede its contents.
\<close>

section \<open>Constants\<close>

definition GeneralTimeout :: int where "GeneralTimeout = 15 * 1000000000"
definition MaxMessageSize :: int where "MaxMessageSize = 4 * 1024 * 1024"
definition MessageFramingOverhead :: int where "MessageFramingOverhead = 1024"
definition connBufferSize :: int where "connBufferSize = 32 * 1024"
definition keepaliveTime :: int where "keepaliveTime = 30 * 1000000000"
definition keepaliveMinTime :: int where "keepaliveMinTime = 10 * 1000000000"
definition maxConcurrentStreams :: int where "maxConcurrentStreams = 4096"

lemma MaxTransportBufferSize_eq: "MaxTransportBufferSize = MaxMessageSize - MessageFramingOverhead"
  by (simp add: MaxTransportBufferSize_def MaxMessageSize_def MessageFramingOverhead_def)

section \<open>Options\<close>

text \<open>The tiers of the buffer pool: \<open>slices.Sort\<close>, then \<open>slices.Compact\<close>.\<close>

definition payloadBufferPool :: "transport_settings \<Rightarrow> int list" where
  "payloadBufferPool ts =
     remdups_adj (sort ([256, 4 * 1024, 16 * 1024, 32 * 1024, 1024 * 1024] @ [bufferSize ts + MessageFramingOverhead]))"

text \<open>
  The dialer of the control connection: always \<open>tcp\<close>, whatever the IPv6 setting, which only governs
  egress.
\<close>

definition dialContext :: "(int \<Rightarrow> string \<Rightarrow> string \<Rightarrow> 'c result) \<Rightarrow> string \<Rightarrow> 'c result" where
  "dialContext dial addr = dial GeneralTimeout ''tcp'' addr"

record keepalive_params =
  kp_Time :: int
  kp_Timeout :: int
  kp_PermitWithoutStream :: bool

definition clientKeepaliveParams :: keepalive_params where
  "clientKeepaliveParams = \<lparr>kp_Time = keepaliveTime, kp_Timeout = GeneralTimeout, kp_PermitWithoutStream = True\<rparr>"

text \<open>Without a connection age: it is zero, which gRPC reads as infinite.\<close>

record server_keepalive =
  sk_Time :: int
  sk_Timeout :: int
  sk_MaxConnectionAge :: int

definition serverKeepaliveParams :: server_keepalive where
  "serverKeepaliveParams = \<lparr>sk_Time = keepaliveTime, sk_Timeout = GeneralTimeout, sk_MaxConnectionAge = 0\<rparr>"

record dial_options =
  do_Keepalive :: keepalive_params
  do_MinConnectTimeout :: int
  do_WriteBufferSize :: int
  do_ReadBufferSize :: int
  do_SharedWriteBuffer :: bool
  do_MaxCallRecvMsgSize :: int
  do_MaxCallSendMsgSize :: int
  do_DisableServiceConfig :: bool
  do_BufferPool :: "int list"

definition DialOptions :: "transport_settings \<Rightarrow> dial_options" where
  "DialOptions ts =
     \<lparr>do_Keepalive = clientKeepaliveParams, do_MinConnectTimeout = GeneralTimeout, do_WriteBufferSize = connBufferSize,
      do_ReadBufferSize = connBufferSize, do_SharedWriteBuffer = True, do_MaxCallRecvMsgSize = MaxMessageSize,
      do_MaxCallSendMsgSize = MaxMessageSize, do_DisableServiceConfig = True, do_BufferPool = payloadBufferPool ts\<rparr>"

record server_options =
  so_ReadBufferSize :: int
  so_WriteBufferSize :: int
  so_SharedWriteBuffer :: bool
  so_MaxRecvMsgSize :: int
  so_MaxSendMsgSize :: int
  so_MaxConcurrentStreams :: int
  so_NumStreamWorkers :: int
  so_Keepalive :: server_keepalive
  so_MinTime :: int
  so_PermitWithoutStream :: bool
  so_ConnectionTimeout :: int
  so_BufferPool :: "int list"

definition ServerOptions :: "int \<Rightarrow> transport_settings \<Rightarrow> server_options" where
  "ServerOptions gomaxprocs ts =
     \<lparr>so_ReadBufferSize = connBufferSize, so_WriteBufferSize = connBufferSize, so_SharedWriteBuffer = True,
      so_MaxRecvMsgSize = MaxMessageSize, so_MaxSendMsgSize = MaxMessageSize, so_MaxConcurrentStreams = maxConcurrentStreams,
      so_NumStreamWorkers = gomaxprocs mod 2 ^ 32, so_Keepalive = serverKeepaliveParams, so_MinTime = keepaliveMinTime,
      so_PermitWithoutStream = True, so_ConnectionTimeout = GeneralTimeout, so_BufferPool = payloadBufferPool ts\<rparr>"

text \<open>A gRPC server ends a connection whose client pings more often than its policy allows.\<close>

definition pings_tolerated :: "dial_options \<Rightarrow> server_options \<Rightarrow> bool" where
  "pings_tolerated c s \<longleftrightarrow>
     kp_Time (do_Keepalive c) \<ge> so_MinTime s \<and> (kp_PermitWithoutStream (do_Keepalive c) \<longrightarrow> so_PermitWithoutStream s)"

section \<open>Settings stay well formed\<close>

text \<open>
  The range of every setting: a buffer that fits a message, timeouts that fit Go's 64-bit
  durations, and a dial network that agrees with the IPv4 preference.
\<close>

definition settings_wf :: "transport_settings \<Rightarrow> bool" where
  "settings_wf ts \<longleftrightarrow> 0 < bufferSize ts \<and> bufferSize ts \<le> MaxTransportBufferSize \<and>
     0 \<le> idleTimeout ts \<and> idleTimeout ts < 2 ^ 63 \<and> 0 \<le> dialTimeout ts \<and> dialTimeout ts < 2 ^ 63 \<and>
     network_opt ts = (if preferIPv4 ts then ''tcp4'' else ''tcp'')"

lemma init_settings_wf: "settings_wf init_settings"
  by (simp add: settings_wf_def init_settings_def MaxTransportBufferSize_def)

text \<open>
  What sending relies on: well-formed settings, a logger that leaks no file and writes to none that is
  closed, and method names that belong to the service name. The other globals are below.
\<close>

definition globals_wf :: "'d globals \<Rightarrow> bool" where
  "globals_wf g \<longleftrightarrow> settings_wf (g_transport g) \<and> logger_inv (g_logger g) \<and> g_service g = SetServiceName (serviceName (g_service g)) \<and>
     serviceName (g_service g) \<noteq> []"

text \<open>Steps that keep it, whether they fail or not.\<close>

definition stable :: "'d step \<Rightarrow> bool" where
  "stable a \<longleftrightarrow> (\<forall>g. globals_wf g \<longrightarrow> globals_wf (snd (a g)))"

lemma stable_and_then: "stable a \<Longrightarrow> stable b \<Longrightarrow> stable (and_then a b)"
  unfolding stable_def and_then_def by (fastforce split: prod.splits option.splits)

lemma SetServiceName_wf: "SetServiceName (serviceName (SetServiceName p)) = SetServiceName p \<and> serviceName (SetServiceName p) \<noteq> []"
  by (simp add: SetServiceName_def Let_def)

lemma stable_steps:
  "stable (check bad m)" "stable (set_dns d)" "stable (set_udp u)" "stable (set_uuid r i)" "stable (set_forward env p)" "stable (set_routes env rs)"
  by (simp_all add: stable_def globals_wf_def check_def set_dns_def set_udp_def set_uuid_def set_forward_def set_routes_def
      split: option.split sum.split prod.split)

lemma stable_set_log: "stable (set_log env l)"
  by (simp add: stable_def globals_wf_def set_log_def Mode_Set_inv)

lemma stable_set_path: "stable (set_path p)"
  using SetServiceName_wf [of p] by (simp add: stable_def globals_wf_def set_path_def)

lemma stable_set_buffer: "stable (set_buffer b)"
  by (auto simp: stable_def globals_wf_def set_buffer_def settings_wf_def SetBufferSize_def word_less_def)

lemma stable_set_ipv6: "stable (set_ipv6 v)"
  by (simp add: stable_def globals_wf_def set_ipv6_def settings_wf_def DisableIPv6_def EnableIPv6_def SetNetwork_def)

lemma stable_set_idle: "on \<longrightarrow> 0 \<le> secs \<and> secs \<le> maxIdleTimeoutSeconds \<Longrightarrow> stable (set_idle on secs)"
  by (auto simp: stable_def globals_wf_def set_idle_def settings_wf_def SetIdleTimeout_def maxIdleTimeoutSeconds_def)

lemmas stable_intros = stable_and_then stable_steps stable_set_log stable_set_path stable_set_buffer stable_set_ipv6 stable_set_idle

lemma apply_settings_stable: "stable (apply_settings env c cl s)"
  unfolding apply_settings_def by (intro stable_intros)

lemma Apply_globals_wf:
  assumes "globals_wf g"
  shows "globals_wf (snd (Apply env c g))"
proof -
  obtain cl s where cs: "ensureEmbeddedConfigs c = (cl, s)" by force
  obtain r1 g1 where 1: "apply_settings env c cl s g = (r1, g1)" by force
  have wf1: "globals_wf g1" using apply_settings_stable [of env c cl s] assms 1 by (metis snd_conv stable_def)
  show ?thesis
  proof (cases r1)
    case (Some e)
    then show ?thesis using 1 wf1 by (simp add: Apply_def cs and_then_def)
  next
    case None
    let ?rest = "and_then (set_routes env (effective_routes (c_Role c) (c_Routes cl) (s_IPv6 s)))
      (and_then (set_ipv6 (s_IPv6 s)) (set_idle (applyIdleTimeout c) (c_IdleTimeout cl)))"
    have "stable ?rest" using apply_settings_idle [OF 1 [unfolded None]] by (intro stable_intros)
    moreover have "Apply env c g = ?rest g1" using 1 None by (simp add: Apply_def cs and_then_def [of "apply_settings env c cl s"])
    ultimately show ?thesis using wf1 by (simp add: stable_def)
  qed
qed

text \<open>A process: any sequence of reloads, accepted or rejected.\<close>

definition apply_all :: "'d apply_env \<Rightarrow> MixedConfig list \<Rightarrow> 'd globals \<Rightarrow> 'd globals" where
  "apply_all env cs g = foldl (\<lambda>g c. snd (Apply env c g)) g cs"

lemma apply_all_wf: "globals_wf g \<Longrightarrow> globals_wf (apply_all env cs g)"
  unfolding apply_all_def by (induction cs arbitrary: g) (simp_all add: Apply_globals_wf)





















section \<open>Messages stay within the limits\<close>

definition framed :: "nat \<Rightarrow> nat \<Rightarrow> bool" where
  "framed contents encoded \<longleftrightarrow> contents + 2 \<le> encoded \<and> encoded \<le> contents + 11"

text \<open>What a Read returns: at most what fits the buffer.\<close>

definition reads_fit :: "int \<Rightarrow> (read_result \<times> goerror option) list \<Rightarrow> bool" where
  "reads_fit n rs \<longleftrightarrow> list_all (\<lambda>((b, _), _). int (length b) \<le> n) rs"

definition payload_of :: "ProxySRC \<Rightarrow> bytes" where
  "payload_of m = (case m of SrcPayload p \<Rightarrow> p | _ \<Rightarrow> [])"

lemma src_to_target_fit:
  "reads_fit n rs \<Longrightarrow> m \<in> set (fst (src_to_target rs)) \<Longrightarrow> \<exists>p. m = SrcPayload p \<and> int (length p) \<le> n"
proof (induction rs rule: src_to_target.induct)
  case (2 r sendErr rest)
  then show ?case
    by (cases r) (auto simp: reads_fit_def copySRCtoTarget_def split: prod.splits option.splits if_splits)
qed simp

lemma target_to_client_fit:
  "reads_fit n rs \<Longrightarrow> m \<in> set (fst (target_to_client network rs)) \<Longrightarrow> \<exists>p. m = \<lparr>Status = Session, Body = DstPayload p\<rparr> \<and> int (length p) \<le> n"
proof (induction network rs rule: target_to_client.induct)
  case (2 network r sendErr rest)
  then show ?case
    by (cases r) (auto simp: reads_fit_def copyTargetToClient_def split: prod.splits option.splits if_splits)
qed simp

lemma tier_exists:
  assumes "settings_wf ts" and "framed n len" and "int n \<le> bufferSize ts"
  shows "bufferSize ts + MessageFramingOverhead \<in> set (payloadBufferPool ts) \<and> int len \<le> bufferSize ts + MessageFramingOverhead"
  using assms by (auto simp: payloadBufferPool_def framed_def MessageFramingOverhead_def)

lemma payloadBufferPool_sorted: "sorted_wrt (<) (payloadBufferPool ts)"
proof -
  have "sorted_wrt (<) (remdups_adj xs)" if "sorted xs" for xs :: "int list"
    using that by (induction xs rule: remdups_adj.induct) auto
  then show ?thesis by (simp add: payloadBufferPool_def)
qed

text \<open>
  The fit of one message: within the limit of its sender and of its receiver, with a tier of the
  buffer pool that holds it and is no larger than the transport buffer and the reserve.
\<close>

definition fits_limits :: "transport_settings \<Rightarrow> int \<Rightarrow> int \<Rightarrow> int list \<Rightarrow> nat \<Rightarrow> bool" where
  "fits_limits ts sendMax recvMax tiers len \<longleftrightarrow> int len \<le> sendMax \<and> int len \<le> recvMax \<and>
     list_ex (\<lambda>tier. int len \<le> tier \<and> tier \<le> bufferSize ts + MessageFramingOverhead) tiers"

lemma chunk_fits:
  assumes "settings_wf ts" and "framed n len" and "int n \<le> bufferSize ts"
  shows "fits_limits ts MaxMessageSize MaxMessageSize (payloadBufferPool ts) len"
  using tier_exists [OF assms] assms(1)
  by (auto simp: fits_limits_def settings_wf_def MaxTransportBufferSize_eq MessageFramingOverhead_def list_ex_iff)

text \<open>
  C24: No configuration makes the tunnel fail on its own limits. After any sequence of accepted and
  rejected reloads the settings are well formed; every payload message of a TCP copy, in
  both directions, is within the message limits of its sender and its receiver and has a
  buffer tier of its own size; so is every datagram; and a client is never disconnected for
  the pings its options ask for.
\<close>

theorem messages_within_limits:
  assumes "globals_wf g" and "ts = g_transport (apply_all env cs g)"
    and "\<And>p. framed (length p) (srcLen (SrcPayload p))" and "\<And>p. framed (length p) (dstLen \<lparr>Status = Session, Body = DstPayload p\<rparr>)"
    and "reads_fit (bufferSize ts) ups" and "reads_fit (bufferSize ts) downs"
  shows "settings_wf ts \<and> sorted_wrt (<) (payloadBufferPool ts) \<and>
    list_all (\<lambda>m. fits_limits ts (do_MaxCallSendMsgSize (DialOptions ts)) (so_MaxRecvMsgSize (ServerOptions k other))
      (do_BufferPool (DialOptions ts)) (srcLen m)) (fst (src_to_target ups)) \<and>
    list_all (\<lambda>m. fits_limits ts (so_MaxSendMsgSize (ServerOptions k ts)) (do_MaxCallRecvMsgSize (DialOptions other))
      (so_BufferPool (ServerOptions k ts)) (dstLen m)) (fst (target_to_client network downs)) \<and>
    (length d \<le> 65535 \<longrightarrow> int (srcLen (SrcPayload d)) \<le> MaxMessageSize) \<and>
    pings_tolerated (DialOptions ts) (ServerOptions k other)"
proof -
  have wf: "settings_wf ts" using apply_all_wf [OF assms(1)] assms(2) by (simp add: globals_wf_def)
  have "list_all (\<lambda>m. fits_limits ts MaxMessageSize MaxMessageSize (payloadBufferPool ts) (srcLen m)) (fst (src_to_target ups))"
    unfolding list_all_iff using src_to_target_fit [OF assms(5)] chunk_fits [OF wf assms(3)] by blast
  moreover have "list_all (\<lambda>m. fits_limits ts MaxMessageSize MaxMessageSize (payloadBufferPool ts) (dstLen m)) (fst (target_to_client network downs))"
    unfolding list_all_iff using target_to_client_fit [OF assms(6)] chunk_fits [OF wf assms(4)] by blast
  moreover have "length d \<le> 65535 \<longrightarrow> int (srcLen (SrcPayload d)) \<le> MaxMessageSize"
    using assms(3) [of d] by (auto simp: framed_def MaxMessageSize_def)
  ultimately show ?thesis using wf payloadBufferPool_sorted
    by (simp add: DialOptions_def ServerOptions_def pings_tolerated_def clientKeepaliveParams_def keepaliveTime_def keepaliveMinTime_def)
qed

definition ex_len :: "bytes \<Rightarrow> nat" where "ex_len p = length p + 6"

theorem messages_within_limits_witness:
  "fits_limits init_settings (do_MaxCallSendMsgSize (DialOptions init_settings)) (so_MaxRecvMsgSize (ServerOptions 4 init_settings))
     (do_BufferPool (DialOptions init_settings)) (ex_len [1, 2, 3])"
proof -
  have ts: "init_settings = g_transport (apply_all ex_apply_env [] ex_globals)" by (simp add: apply_all_def ex_globals_def)
  have wf: "globals_wf ex_globals" using SetServiceName_wf [of "[]"] by (simp add: globals_wf_def ex_globals_def init_settings_wf logger_inv_def)
  have f: "framed (length p) (ex_len (payload_of (SrcPayload p)))" "framed (length p) (case Body \<lparr>Status = Session, Body = DstPayload p\<rparr> of DstPayload q \<Rightarrow> ex_len q | _ \<Rightarrow> 0)"
    for p by (simp_all add: framed_def ex_len_def payload_of_def)
  have r: "reads_fit (bufferSize init_settings) [(([1, 2, 3], None), None)]" by (simp add: reads_fit_def init_settings_def)
  from messages_within_limits [OF wf ts f(1) f(2) r r, where k = 4 and other = init_settings and network = "''tcp''" and d = "[]"] show ?thesis
    by (simp add: copySRCtoTarget_def payload_of_def)
qed

end
