(* ===== verification/FrontEnds.thy ===== *)
theory FrontEnds
  imports Process
begin

text \<open>
  The inbound servers of a client in detail: \<open>New\<close>, \<open>ListenAndServe\<close>, \<open>Serve\<close> and \<open>Close\<close> of
  \<open>internal/socks/socks.go\<close> and \<open>internal/http/http.go\<close>, \<open>NewServer\<close> and \<open>Close\<close> of \<open>internal/dns/dns.go\<close>. A
  server is the function the launcher calls and the goroutine it starts. Of the libraries it
  uses what they document: accepting on a closed listener fails with \<open>net.ErrClosed\<close>, and a server
  of \<open>net/http\<close> that was shut down accepts nothing and returns \<open>ErrServerClosed\<close>. The DNS library is
  seen through the result of its shutdown.
\<close>

section \<open>State\<close>

datatype front_pc = FrontStarting | FrontSelecting | FrontReturned "goerror option"
datatype front_inner = NotRunning | InServe | ServeDone "goerror option"

text \<open>
  \<open>fs_listener\<close> is \<open>s.listener\<close> of a SOCKS server and \<open>s.srv\<close> of an HTTP server: not set, or whether it
  is open. \<open>fs_conns\<close> are the connections that were accepted.
\<close>

record front_server =
  fs_kind :: service
  fs_listener :: "bool option"
  fs_closeOnce :: bool
  fs_main :: front_pc
  fs_inner :: front_inner
  fs_ctxDone :: bool
  fs_conns :: "nat list"

definition front_New :: "service \<Rightarrow> front_server" where
  "front_New k = \<lparr>fs_kind = k, fs_listener = None, fs_closeOnce = False, fs_main = FrontStarting, fs_inner = NotRunning,
     fs_ctxDone = False, fs_conns = []\<rparr>"

text \<open>\<open>Close\<close>: the first call closes the listener, or shuts the HTTP server down; only it reports an error.\<close>

definition socks_Close :: "goerror option \<Rightarrow> front_server \<Rightarrow> goerror option \<times> front_server" where
  "socks_Close closeErr s =
     (if fs_listener s = None then (None, s)
      else if fs_closeOnce s then (None, s)
      else (closeErr, s\<lparr>fs_closeOnce := True, fs_listener := Some False\<rparr>))"

definition http_Close :: "goerror option \<Rightarrow> front_server \<Rightarrow> goerror option \<times> front_server" where
  "http_Close shutdownErr s =
     (if fs_listener s = None then (None, s)
      else if fs_closeOnce s then (None, s)
      else (shutdownErr, s\<lparr>fs_closeOnce := True, fs_listener := Some False\<rparr>))"

definition front_Close :: "goerror option \<Rightarrow> front_server \<Rightarrow> goerror option \<times> front_server" where
  "front_Close err s = (if fs_kind s = HttpService then http_Close err s else socks_Close err s)"

text \<open>The DNS server: it always has a library server, and every \<open>Close\<close> shuts it down.\<close>

record dns_front =
  df_Addr :: string
  df_Net :: string
  df_blockIPv6DNS :: bool

definition dns_NewServer :: "string \<Rightarrow> bool \<Rightarrow> dns_front result" where
  "dns_NewServer addr blockIPv6DNS = Inr \<lparr>df_Addr = addr, df_Net = ''udp'', df_blockIPv6DNS = blockIPv6DNS\<rparr>"

definition dns_Close :: "(dns_front \<Rightarrow> goerror option) \<Rightarrow> dns_front option \<Rightarrow> goerror option" where
  "dns_Close shutdownContext srv = (case srv of Some d \<Rightarrow> shutdownContext d | None \<Rightarrow> None)"

section \<open>Steps\<close>

definition is_socks :: "service \<Rightarrow> bool" where
  "is_socks k \<longleftrightarrow> k = SocksService \<or> k = SocksUnixService"

datatype front_action = FListen | FAccept | FServe | FReturn | FCtx

inductive front_step :: "front_action \<Rightarrow> front_server \<Rightarrow> front_server \<Rightarrow> bool" where
  Listen_failed: "is_socks (fs_kind s) \<Longrightarrow> fs_main s = FrontStarting \<Longrightarrow>
    front_step FListen s (s\<lparr>fs_main := FrontReturned (Some (Errorf ''failed to listen''))\<rparr>)"
| Listening_now: "fs_main s = FrontStarting \<Longrightarrow>
    front_step FListen s (s\<lparr>fs_listener := Some True, fs_main := FrontSelecting, fs_inner := InServe\<rparr>)"
| Accepted_conn: "fs_inner s = InServe \<Longrightarrow> fs_listener s = Some True \<Longrightarrow>
    front_step FAccept s (s\<lparr>fs_conns := fs_conns s @ [c]\<rparr>)"
| Accept_error: "is_socks (fs_kind s) \<Longrightarrow> fs_inner s = InServe \<Longrightarrow> snd (Serve [AcceptErr e timeout]) = Some res \<Longrightarrow>
    (fs_listener s = Some False \<longrightarrow> e = Sentinel NetErrClosed) \<Longrightarrow>
    front_step FServe s (s\<lparr>fs_inner := ServeDone res\<rparr>)"
| Http_ended: "fs_kind s = HttpService \<Longrightarrow> fs_inner s = InServe \<Longrightarrow>
    (fs_listener s = Some False \<longrightarrow> e = Sentinel ErrServerClosed) \<Longrightarrow>
    front_step FServe s (s\<lparr>fs_inner := ServeDone (Some e)\<rparr>)"
| Front_served: "fs_main s = FrontSelecting \<Longrightarrow> fs_inner s = ServeDone err \<Longrightarrow>
    front_step FReturn s (s\<lparr>fs_main := FrontReturned (service_result (fs_kind s) (fs_ctxDone s) err)\<rparr>)"
| Front_ctx: "fs_main s = FrontSelecting \<Longrightarrow> fs_ctxDone s \<Longrightarrow>
    front_step FReturn s ((snd (front_Close closeErr s))\<lparr>fs_main := FrontReturned (Some (Sentinel Canceled))\<rparr>)"
| Front_cancelled: "front_step FCtx s (s\<lparr>fs_ctxDone := True\<rparr>)"

inductive front_reachable :: "service \<Rightarrow> front_server \<Rightarrow> bool" for k where
  Front_init: "front_reachable k (front_New k)"
| Front_step: "front_reachable k s \<Longrightarrow> front_step a s s' \<Longrightarrow> front_reachable k s'"

section \<open>Invariant\<close>

lemma front_Close_eq:
  "front_Close err s =
     (if fs_listener s = None \<or> fs_closeOnce s then (None, s) else (err, s\<lparr>fs_closeOnce := True, fs_listener := Some False\<rparr>))"
  by (simp add: front_Close_def http_Close_def socks_Close_def)

definition front_inv :: "front_server \<Rightarrow> bool" where
  "front_inv s \<longleftrightarrow>
     (fs_main s = FrontStarting \<longrightarrow> fs_listener s = None \<and> fs_inner s = NotRunning) \<and>
     (fs_main s = FrontSelecting \<longrightarrow> fs_listener s \<noteq> None \<and> fs_inner s \<noteq> NotRunning) \<and>
     (fs_closeOnce s \<longleftrightarrow> fs_listener s = Some False) \<and>
     (\<forall>r. fs_main s = FrontReturned r \<longrightarrow> fs_inner s = InServe \<longrightarrow> fs_listener s = Some False)"

lemma front_inv_step: "front_step a s s' \<Longrightarrow> front_inv s \<Longrightarrow> front_inv s'"
  by (induction rule: front_step.induct) (auto simp: front_inv_def front_Close_eq)

lemma front_reachable_inv: "front_reachable k s \<Longrightarrow> front_inv s \<and> fs_kind s = k"
proof (induction rule: front_reachable.induct)
  case Front_init
  show ?case by (simp add: front_inv_def front_New_def)
next
  case (Front_step s a s')
  have "fs_kind s' = fs_kind s" using Front_step.hyps(2) by (cases rule: front_step.cases) (simp_all add: front_Close_eq)
  with Front_step show ?case using front_inv_step by auto
qed

section \<open>What it gives\<close>

text \<open>
  After its \<open>ListenAndServe\<close> has returned, for whatever reason, a SOCKS or HTTP server accepts no
  connection any more; a goroutine that still serves is about to end, and a second
  \<open>Close\<close> does nothing.
\<close>

theorem front_end_stays_quiet:
  assumes "front_reachable k s" and "fs_main s = FrontReturned r" and "is_socks k \<or> k = HttpService"
  shows "(front_step a s s' \<longrightarrow> fs_conns s' = fs_conns s \<and> fs_main s' = fs_main s) \<and>
    (fs_inner s = InServe \<longrightarrow> (\<exists>res s'. front_step FServe s s' \<and> fs_inner s' = ServeDone res)) \<and>
    (fs_closeOnce s \<longrightarrow> front_Close e s = (None, s))"
proof -
  have inv: "front_inv s" "fs_kind s = k" using front_reachable_inv [OF assms(1)] by auto
  have "fs_conns s' = fs_conns s \<and> fs_main s' = fs_main s" if "front_step a s s'"
    using that inv(1) assms(2) by (cases rule: front_step.cases) (auto simp: front_inv_def)
  moreover have "\<exists>res s'. front_step FServe s s' \<and> fs_inner s' = ServeDone res" if i: "fs_inner s = InServe"
  proof (cases "k = HttpService")
    case True
    have "front_step FServe s (s\<lparr>fs_inner := ServeDone (Some (Sentinel ErrServerClosed))\<rparr>)"
      by (rule Http_ended) (use True i inv in simp_all)
    then show ?thesis by fastforce
  next
    case False
    have "front_step FServe s (s\<lparr>fs_inner := ServeDone None\<rparr>)"
      by (rule Accept_error [where e = "Sentinel NetErrClosed" and timeout = False]) (use False i inv assms(3) in simp_all)
    then show ?thesis by fastforce
  qed
  ultimately show ?thesis by (simp add: front_Close_eq)
qed

text \<open>
  When the accept loop ends with an error of its own, \<open>ListenAndServe\<close> returns it and the listener is
  left open: the port stays bound and connections that nobody accepts queue up behind it.
\<close>

definition ex_accept_failed :: front_server where
  "ex_accept_failed =
     (front_New SocksService)\<lparr>fs_listener := Some True, fs_inner := ServeDone (Some (Errorf ''accept'')),
       fs_main := FrontReturned (Some (Errorf ''accept''))\<rparr>"

theorem accept_error_leaves_listener:
  "front_reachable SocksService ex_accept_failed \<and> fs_listener ex_accept_failed = Some True \<and> \<not> fs_closeOnce ex_accept_failed"
proof -
  let ?s1 = "(front_New SocksService)\<lparr>fs_listener := Some True, fs_main := FrontSelecting, fs_inner := InServe\<rparr>"
  let ?s2 = "?s1\<lparr>fs_inner := ServeDone (Some (Errorf ''accept''))\<rparr>"
  have "front_step FListen (front_New SocksService) ?s1" by (rule Listening_now) (simp add: front_New_def)
  moreover have "front_step FServe ?s1 ?s2"
    by (rule Accept_error [where e = "Errorf ''accept''" and timeout = False]) (simp_all add: is_socks_def front_New_def)
  moreover have "front_step FReturn ?s2 ex_accept_failed"
    using Front_served [of ?s2 "Some (Errorf ''accept'')"]
    by (simp add: front_New_def service_result_def ex_accept_failed_def)
  ultimately have "front_reachable SocksService ex_accept_failed" by (meson Front_init Front_step)
  then show ?thesis by (simp add: ex_accept_failed_def front_New_def)
qed

end
