(* ===== verification/Indicator.thy ===== *)
theory Indicator
  imports GoStrings
begin

text \<open>
  \<open>internal/indicator/indicator.go\<close>: the log window and status line shown on a terminal. The
  terminal's size is an argument of every operation that asks for it; what is printed is
  returned, as rows above the status line and the rows of the status line, without the escape
  sequences. \<open>None\<close> is a panic: a slice expression out of range, a negative capacity, or the
  second close of a channel.
\<close>

section \<open>State\<close>

record indicator =
  statusLine :: string
  logBuffer :: "string list"
  maxLogs :: int
  resizeClosed :: bool

definition StatusMarginTopLines :: int where "StatusMarginTopLines = 1"

definition calculateMinHeight :: "int \<Rightarrow> int" where
  "calculateMinHeight height = height - StatusMarginTopLines"

text \<open>What \<open>term.GetSize\<close> reports, or the fallback.\<close>

definition getTerminalSize :: "(int \<times> int) option \<Rightarrow> int \<times> int" where
  "getTerminalSize tsize = (case tsize of None \<Rightarrow> (80, 24) | Some wh \<Rightarrow> wh)"

definition NewIndicator :: "(int \<times> int) option \<Rightarrow> indicator option" where
  "NewIndicator tsize =
     (let height = snd (getTerminalSize tsize); m = calculateMinHeight height in
      if m < 0 then None else Some \<lparr>statusLine = [], logBuffer = [], maxLogs = m, resizeClosed = False\<rparr>)"

text \<open>The slice \<open>xs[lo:]\<close> of Go.\<close>

definition slice_from :: "int \<Rightarrow> 'a list \<Rightarrow> 'a list option" where
  "slice_from lo xs = (if 0 \<le> lo \<and> lo \<le> int (length xs) then Some (drop (nat lo) xs) else None)"

definition trim_buffer :: "indicator \<Rightarrow> indicator option" where
  "trim_buffer sw =
     (if int (length (logBuffer sw)) > maxLogs sw
      then map_option (\<lambda>b. sw\<lparr>logBuffer := b\<rparr>) (slice_from (int (length (logBuffer sw)) - maxLogs sw) (logBuffer sw))
      else Some sw)"

section \<open>Rendering\<close>

text \<open>The loop of \<open>wrapLine\<close>, which cuts bytes.\<close>

function wrap_loop :: "nat \<Rightarrow> string \<Rightarrow> string list" where
  "wrap_loop width line =
     (if 0 < width \<and> width < length line then take width line # wrap_loop width (drop width line)
      else if line \<noteq> [] then [line] else [])"
  by pat_completeness auto
termination by (relation "measure (length \<circ> snd)") auto

declare wrap_loop.simps [simp del]

definition wrapLine :: "string \<Rightarrow> int \<Rightarrow> string list" where
  "wrapLine line width =
     (if width \<le> 0 then [line] else if int (length line) \<le> width then [line] else wrap_loop (nat width) line)"

text \<open>The inner loop stops when the window is full; the outer one, too.\<close>

fun emit_rows :: "int \<Rightarrow> int \<Rightarrow> string list \<Rightarrow> string list \<times> int" where
  "emit_rows limit used [] = ([], used)"
| "emit_rows limit used (l # ls) =
     (if used \<ge> limit then ([], used)
      else case emit_rows limit (used + 1) ls of (rows, u) \<Rightarrow> (l # rows, u))"

fun render_loop :: "int \<Rightarrow> int \<Rightarrow> int \<Rightarrow> string list \<Rightarrow> string list \<times> int" where
  "render_loop width limit used [] = ([], used)"
| "render_loop width limit used (l # ls) =
     (if used < limit then
        (case emit_rows limit used (wrapLine l width) of
           (rows, u) \<Rightarrow> (case render_loop width limit u ls of (rows', u') \<Rightarrow> (rows @ rows', u')))
      else ([], used))"

definition render :: "(int \<times> int) option \<Rightarrow> indicator \<Rightarrow> string list \<times> string list" where
  "render tsize sw =
     (let width = fst (getTerminalSize tsize);
          maxToShow = min (int (length (logBuffer sw))) (maxLogs sw);
          startIdx = int (length (logBuffer sw)) - maxToShow;
          (rows, linesUsed) = render_loop width (maxLogs sw) 0 (take (nat maxToShow) (drop (nat startIdx) (logBuffer sw)));
          blank = replicate (nat (maxLogs sw + StatusMarginTopLines - linesUsed)) [];
          status = concat (map (\<lambda>part. wrapLine part width) (strings_Split (statusLine sw) (CHR 0x0A)))
      in (rows @ blank, status))"

section \<open>Operations\<close>

text \<open>Each returns the new state and what it printed, if it did.\<close>

definition TrimSuffix_newline :: "string \<Rightarrow> string" where
  "TrimSuffix_newline p = (if p \<noteq> [] \<and> last p = CHR 0x0A then butlast p else p)"

definition indicator_Write :: "(int \<times> int) option \<Rightarrow> string \<Rightarrow> indicator \<Rightarrow> (nat \<times> indicator \<times> (string list \<times> string list)) option" where
  "indicator_Write tsize p sw =
     (case trim_buffer (sw\<lparr>logBuffer := logBuffer sw @ strings_Split (TrimSuffix_newline p) (CHR 0x0A)\<rparr>) of
        None \<Rightarrow> None
      | Some sw \<Rightarrow> Some (length p, sw, render tsize sw))"

definition UpdateStatus :: "(int \<times> int) option \<Rightarrow> string \<Rightarrow> indicator \<Rightarrow> indicator \<times> (string list \<times> string list) option" where
  "UpdateStatus tsize message sw =
     (if statusLine sw = message then (sw, None)
      else let sw = sw\<lparr>statusLine := message\<rparr> in (sw, Some (render tsize sw)))"

definition handleResize :: "(int \<times> int) option \<Rightarrow> indicator \<Rightarrow> (indicator \<times> (string list \<times> string list)) option" where
  "handleResize tsize sw =
     (case trim_buffer (sw\<lparr>maxLogs := calculateMinHeight (snd (getTerminalSize tsize))\<rparr>) of
        None \<Rightarrow> None
      | Some sw \<Rightarrow> Some (sw, render tsize sw))"

definition indicator_Close :: "indicator \<Rightarrow> indicator option" where
  "indicator_Close sw = (if resizeClosed sw then None else Some (sw\<lparr>resizeClosed := True\<rparr>))"

section \<open>Lemmas\<close>

lemma wrap_loop_props:
  assumes "0 < width"
  shows "concat (wrap_loop width line) = line \<and> (\<forall>l \<in> set (wrap_loop width line). l \<noteq> [] \<and> length l \<le> width)"
  using assms
proof (induction width line rule: wrap_loop.induct)
  case (1 width line)
  then show ?case by (subst (1 2) wrap_loop.simps) (auto simp: wrap_loop.simps [of width line])
qed

lemma emit_rows_take:
  "0 \<le> used \<Longrightarrow> used \<le> limit \<Longrightarrow>
   emit_rows limit used ls = (take (nat (limit - used)) ls, used + int (length (take (nat (limit - used)) ls)))"
proof (induction limit used ls rule: emit_rows.induct)
  case (2 limit used l ls)
  show ?case
  proof (cases "used \<ge> limit")
    case False
    then have "nat (limit - used) = Suc (nat (limit - (used + 1)))" by simp
    with 2 False show ?thesis by simp
  qed (use 2 in simp)
qed simp

lemma render_loop_take:
  "0 \<le> used \<Longrightarrow> used \<le> limit \<Longrightarrow>
   render_loop width limit used ls =
     (take (nat (limit - used)) (concat (map (\<lambda>l. wrapLine l width) ls)),
      used + int (length (take (nat (limit - used)) (concat (map (\<lambda>l. wrapLine l width) ls)))))"
proof (induction width limit used ls rule: render_loop.induct)
  case (2 width limit used l ls)
  show ?case
  proof (cases "used < limit")
    case True
    let ?t = "take (nat (limit - used)) (wrapLine l width)"
    have e: "emit_rows limit used (wrapLine l width) = (?t, used + int (length ?t))"
      using 2 by (intro emit_rows_take) simp_all
    have n: "nat (limit - (used + int (length ?t))) = nat (limit - used) - length (wrapLine l width)" by simp
    have "used + int (length ?t) \<le> limit" using True by simp
    from "2.IH" [OF True e [symmetric] _ this] 2(2)
    show ?thesis using True by (simp add: e n del: length_take)
  qed (use 2 in simp)
qed simp

text \<open>The operations as a sequence, with the lines handed to the indicator so far.\<close>

datatype indicator_op = OpWrite "(int \<times> int) option" string | OpStatus "(int \<times> int) option" string | OpResize "(int \<times> int) option"

fun indicator_apply :: "indicator_op \<Rightarrow> indicator \<Rightarrow> indicator option" where
  "indicator_apply (OpWrite t p) sw = map_option (fst \<circ> snd) (indicator_Write t p sw)"
| "indicator_apply (OpStatus t m) sw = Some (fst (UpdateStatus t m sw))"
| "indicator_apply (OpResize t) sw = map_option fst (handleResize t sw)"

fun indicator_run :: "indicator_op list \<Rightarrow> indicator \<Rightarrow> indicator option" where
  "indicator_run [] sw = Some sw"
| "indicator_run (a # as) sw = Option.bind (indicator_apply a sw) (indicator_run as)"

fun op_lines :: "indicator_op \<Rightarrow> string list" where
  "op_lines (OpWrite t p) = strings_Split (TrimSuffix_newline p) (CHR 0x0A)"
| "op_lines _ = []"

fun op_sized :: "indicator_op \<Rightarrow> bool" where
  "op_sized (OpResize t) \<longleftrightarrow> 0 < snd (getTerminalSize t)"
| "op_sized _ \<longleftrightarrow> True"

definition window_inv :: "string list \<Rightarrow> indicator \<Rightarrow> bool" where
  "window_inv written sw \<longleftrightarrow>
     0 \<le> maxLogs sw \<and> int (length (logBuffer sw)) \<le> maxLogs sw \<and> (\<exists>old. written = old @ logBuffer sw)"

lemma trim_buffer_window:
  assumes "0 \<le> maxLogs sw" and "\<exists>old. written = old @ logBuffer sw"
  shows "\<exists>sw'. trim_buffer sw = Some sw' \<and> window_inv written sw' \<and> maxLogs sw' = maxLogs sw"
proof (cases "int (length (logBuffer sw)) > maxLogs sw")
  case True
  let ?k = "nat (int (length (logBuffer sw)) - maxLogs sw)"
  obtain old where "written = old @ logBuffer sw" using assms(2) by blast
  then have "written = (old @ take ?k (logBuffer sw)) @ drop ?k (logBuffer sw)" by simp
  then have "\<exists>old'. written = old' @ drop ?k (logBuffer sw)" by blast
  with True assms(1) show ?thesis by (simp add: trim_buffer_def slice_from_def window_inv_def)
qed (use assms in \<open>simp add: trim_buffer_def window_inv_def\<close>)

lemma indicator_apply_window:
  assumes "window_inv written sw" and "op_sized a"
  shows "\<exists>sw'. indicator_apply a sw = Some sw' \<and> window_inv (written @ op_lines a) sw'"
proof (cases a)
  case (OpWrite t p)
  let ?ls = "strings_Split (TrimSuffix_newline p) (CHR 0x0A)"
  obtain old where "written = old @ logBuffer sw" using assms by (auto simp: window_inv_def)
  then have "\<exists>old. written @ ?ls = old @ (logBuffer sw @ ?ls)" by auto
  then obtain sw' where "trim_buffer (sw\<lparr>logBuffer := logBuffer sw @ ?ls\<rparr>) = Some sw'" "window_inv (written @ ?ls) sw'"
    using trim_buffer_window [of "sw\<lparr>logBuffer := logBuffer sw @ ?ls\<rparr>" "written @ ?ls"] assms(1) by (auto simp: window_inv_def)
  then show ?thesis by (simp add: OpWrite indicator_Write_def)
next
  case (OpStatus t m)
  with assms show ?thesis by (simp add: UpdateStatus_def window_inv_def Let_def)
next
  case (OpResize t)
  let ?sw = "sw\<lparr>maxLogs := calculateMinHeight (snd (getTerminalSize t))\<rparr>"
  have "0 \<le> maxLogs ?sw" using assms(2) OpResize by (simp add: calculateMinHeight_def StatusMarginTopLines_def)
  then show ?thesis
    using trim_buffer_window [of ?sw written] assms(1) OpResize by (auto simp: window_inv_def handleResize_def)
qed

lemma indicator_run_window:
  "window_inv written sw \<Longrightarrow> list_all op_sized ops \<Longrightarrow>
   \<exists>sw'. indicator_run ops sw = Some sw' \<and> window_inv (written @ concat (map op_lines ops)) sw'"
proof (induction ops arbitrary: written sw)
  case (Cons a ops)
  then obtain sw1 where "indicator_apply a sw = Some sw1" "window_inv (written @ op_lines a) sw1"
    using indicator_apply_window by fastforce
  with Cons show ?case by fastforce
qed simp

lemma wrapLine_props:
  "concat (wrapLine line width) = line \<and> (0 < width \<longrightarrow> (\<forall>l \<in> set (wrapLine line width). int (length l) \<le> width))"
proof (cases "width \<le> 0 \<or> int (length line) \<le> width")
  case False
  then have "0 < nat width" by simp
  from wrap_loop_props [OF this, of line] False show ?thesis by (auto simp: wrapLine_def le_nat_iff)
qed (auto simp: wrapLine_def)

lemma render_rows:
  assumes "window_inv written sw"
  shows "fst (render t sw) =
      (let rows = take (nat (maxLogs sw)) (concat (map (\<lambda>l. wrapLine l (fst (getTerminalSize t))) (logBuffer sw)))
       in rows @ replicate (nat (maxLogs sw) + 1 - length rows) [])"
proof -
  have m: "0 \<le> maxLogs sw" "min (int (length (logBuffer sw))) (maxLogs sw) = int (length (logBuffer sw))"
    using assms by (auto simp: window_inv_def)
  have "nat (maxLogs sw + 1 - int k) = nat (maxLogs sw) + 1 - k" for k using m(1) by simp
  then show ?thesis
    using render_loop_take [of 0 "maxLogs sw" "fst (getTerminalSize t)" "logBuffer sw"] m
    by (simp add: render_def Let_def StatusMarginTopLines_def del: length_take split: prod.split)
qed

section \<open>Properties\<close>

text \<open>
  The log window. On terminals of at least one row, no sequence of writes, status updates and
  resizes panics; the buffer never holds more lines than the window has, and they are the last
  lines written; and a redraw prints exactly one row more than the window has, none wider than
  the terminal.
\<close>

theorem indicator_window:
  assumes "NewIndicator t0 = Some sw0" and "list_all op_sized ops"
  shows "\<exists>sw. indicator_run ops sw0 = Some sw \<and> int (length (logBuffer sw)) \<le> maxLogs sw \<and>
    (\<exists>old. concat (map op_lines ops) = old @ logBuffer sw) \<and>
    int (length (fst (render t sw))) = maxLogs sw + 1 \<and>
    (0 < fst (getTerminalSize t) \<longrightarrow> (\<forall>row \<in> set (fst (render t sw)). int (length row) \<le> fst (getTerminalSize t)))"
proof -
  have "window_inv [] sw0" using assms(1) by (auto simp: NewIndicator_def window_inv_def Let_def split: if_splits)
  from indicator_run_window [OF this assms(2)] obtain sw where
    sw: "indicator_run ops sw0 = Some sw" "window_inv (concat (map op_lines ops)) sw" by auto
  let ?w = "fst (getTerminalSize t)"
  let ?all = "concat (map (\<lambda>l. wrapLine l ?w) (logBuffer sw))"
  let ?rows = "take (nat (maxLogs sw)) ?all"
  have r: "fst (render t sw) = ?rows @ replicate (nat (maxLogs sw) + 1 - length ?rows) []"
    using render_rows [OF sw(2), of t] by (simp add: Let_def)
  have "length ?rows \<le> nat (maxLogs sw)" by simp
  then have "length (fst (render t sw)) = nat (maxLogs sw) + 1" unfolding r by (simp del: length_take)
  then have "int (length (fst (render t sw))) = maxLogs sw + 1" using sw(2) by (simp add: window_inv_def)
  moreover have "int (length row) \<le> ?w" if "0 < ?w" "row \<in> set (fst (render t sw))" for row
  proof -
    from that(2) consider "row \<in> set ?all" | "row = []" unfolding r by (auto dest: in_set_takeD)
    then show ?thesis using wrapLine_props that(1) by cases auto
  qed
  ultimately show ?thesis using sw by (auto simp: window_inv_def)
qed

theorem indicator_window_witness:
  "\<exists>sw0 sw. NewIndicator (Some (4, 3)) = Some sw0 \<and>
     indicator_run [OpWrite (Some (4, 3)) ''abcdef'', OpWrite (Some (4, 3)) ''gh'', OpWrite (Some (4, 3)) ''i''] sw0 = Some sw \<and>
     int (length (fst (render (Some (4, 3)) sw))) = 3"
proof -
  let ?ops = "[OpWrite (Some (4, 3)) ''abcdef'', OpWrite (Some (4, 3)) ''gh'', OpWrite (Some (4, 3)) ''i'']"
  obtain sw0 where n: "NewIndicator (Some (4, 3)) = Some sw0" "maxLogs sw0 = 2"
    by (simp add: NewIndicator_def Let_def getTerminalSize_def calculateMinHeight_def StatusMarginTopLines_def)
  have o: "list_all op_sized ?ops" by simp
  obtain sw where s: "indicator_run ?ops sw0 = Some sw" "int (length (fst (render (Some (4, 3)) sw))) = maxLogs sw + 1"
    using indicator_window [OF n(1) o, of "Some (4, 3)"] by blast
  have "map_option maxLogs (Option.bind (NewIndicator (Some (4, 3))) (indicator_run ?ops)) = Some 2" by code_simp
  then have "maxLogs sw = 2" using n(1) s(1) by simp
  with n s show ?thesis by auto
qed

text \<open>
  A terminal that reports no rows makes the indicator panic: the constructor asks for a
  negative capacity, and a resize to no rows slices the log buffer out of range.
\<close>

theorem indicator_zero_rows_panics:
  assumes "height \<le> 0"
  shows "NewIndicator (Some (width, height)) = None \<and> handleResize (Some (width, height)) sw = None"
  using assms
  by (simp add: NewIndicator_def handleResize_def trim_buffer_def slice_from_def getTerminalSize_def calculateMinHeight_def
      StatusMarginTopLines_def Let_def)

theorem indicator_zero_rows_panics_witness:
  "NewIndicator (Some (0, 0)) = None \<and>
   handleResize (Some (80, 0)) \<lparr>statusLine = [], logBuffer = [], maxLogs = 23, resizeClosed = False\<rparr> = None"
  using indicator_zero_rows_panics [of 0 0] indicator_zero_rows_panics [of 0 80] by simp

end
