(* ===== verification/Traffic.thy ===== *)
theory Traffic
  imports Complex_Main TransportBase
begin

text \<open>
  The sampled transfer speeds of \<open>internal/transport/stats.go\<close> and their display:
  \<open>PrettyByteSize\<close> of \<open>internal/utils/io.go\<close> and the results of \<open>api/statistic.go\<close>. The
  floating-point quotient of a sample is an argument, \<open>rate\<close>, so that what is shown holds for
  any rounding. \<open>PrettyByteSize\<close> only divides by powers of two, which is exact on finite
  floating-point numbers, so its argument is a rational here.
\<close>

section \<open>Sampling (stats.go)\<close>

text \<open>
  Both counters are read once in a sample and the two directions never meet, so one step
  per sample shows every interleaving with \<open>AddTx\<close> and \<open>AddRx\<close>. Times are nanoseconds.
\<close>

record 'f sampler =
  sm_stats :: stats
  lastTx :: u64
  lastRx :: u64
  lastCalculation :: int
  initialized :: bool
  lastTxSpeed :: 'f
  lastRxSpeed :: 'f

definition sampleAt :: "(u64 \<Rightarrow> int \<Rightarrow> 'f) \<Rightarrow> 'f \<Rightarrow> int \<Rightarrow> 'f sampler \<Rightarrow> 'f sampler" where
  "sampleAt rate zero currentTime s =
     (let currentTx = tx (sm_stats s); currentRx = rx (sm_stats s) in
      if \<not> initialized s then
        s\<lparr>lastCalculation := currentTime, lastTx := currentTx, lastRx := currentRx, initialized := True\<rparr>
      else let elapsed = currentTime - lastCalculation s in
        if elapsed \<le> 0 then s
        else s\<lparr>lastCalculation := currentTime, lastTx := currentTx, lastRx := currentRx,
               lastTxSpeed := (if currentTx > lastTx s then rate (currentTx - lastTx s) elapsed else zero),
               lastRxSpeed := (if currentRx > lastRx s then rate (currentRx - lastRx s) elapsed else zero)\<rparr>)"

definition newStats :: "(u64 \<Rightarrow> int \<Rightarrow> 'f) \<Rightarrow> 'f \<Rightarrow> int \<Rightarrow> 'f sampler" where
  "newStats rate zero now =
     sampleAt rate zero now \<lparr>sm_stats = \<lparr>tx = 0, rx = 0\<rparr>, lastTx = 0, lastRx = 0, lastCalculation = 0, initialized = False,
       lastTxSpeed = zero, lastRxSpeed = zero\<rparr>"

definition stats_Total :: "'f sampler \<Rightarrow> u64 \<times> u64" where
  "stats_Total s = (tx (sm_stats s), rx (sm_stats s))"

definition CalculateSpeed :: "'f sampler \<Rightarrow> 'f \<times> 'f" where
  "CalculateSpeed s = (lastTxSpeed s, lastRxSpeed s)"

text \<open>What happens to the counters: traffic, and the ticks of \<open>sampleLoop\<close>.\<close>

datatype traffic_event = Traffic Direction int | Tick int

fun traffic_step :: "(u64 \<Rightarrow> int \<Rightarrow> 'f) \<Rightarrow> 'f \<Rightarrow> 'f sampler \<Rightarrow> traffic_event \<Rightarrow> 'f sampler" where
  "traffic_step rate zero s (Traffic d n) = s\<lparr>sm_stats := stats_Add d n (sm_stats s)\<rparr>"
| "traffic_step rate zero s (Tick t) = sampleAt rate zero t s"

definition sampleLoop :: "(u64 \<Rightarrow> int \<Rightarrow> 'f) \<Rightarrow> 'f \<Rightarrow> int \<Rightarrow> traffic_event list \<Rightarrow> 'f sampler" where
  "sampleLoop rate zero start es = foldl (traffic_step rate zero) (newStats rate zero start) es"

text \<open>
  The meaning of a speed, on the history alone: \<open>since d es\<close> is what went in direction \<open>d\<close> after
  the last tick that moved the clock, and the clock is the latest time seen.
\<close>

fun clock :: "int \<Rightarrow> traffic_event list \<Rightarrow> int" where
  "clock now [] = now"
| "clock now (Traffic d n # es) = clock now es"
| "clock now (Tick t # es) = clock (max now t) es"

definition amount :: "Direction \<Rightarrow> traffic_event \<Rightarrow> nat" where
  "amount d e = (case e of Traffic d' n \<Rightarrow> if d' = d then nat n else 0 | Tick t \<Rightarrow> 0)"

definition sent_total :: "Direction \<Rightarrow> traffic_event list \<Rightarrow> nat" where
  "sent_total d es = sum_list (map (amount d) es)"

text \<open>The windows of a history: each effective tick closes one, with what was sent and its length.\<close>

fun windows :: "Direction \<Rightarrow> int \<Rightarrow> nat \<Rightarrow> traffic_event list \<Rightarrow> (nat \<times> int) list \<times> nat" where
  "windows d now n [] = ([], n)"
| "windows d now n (Traffic d' k # es) = windows d now (n + amount d (Traffic d' k)) es"
| "windows d now n (Tick t # es) =
     (if t \<le> now then windows d now n es
      else case windows d t 0 es of (ws, m) \<Rightarrow> ((n, t - now) # ws, m))"

definition window_speed :: "(u64 \<Rightarrow> int \<Rightarrow> 'f) \<Rightarrow> 'f \<Rightarrow> (nat \<times> int) list \<Rightarrow> 'f" where
  "window_speed rate zero ws =
     (if ws = [] then zero else case last ws of (n, dt) \<Rightarrow> if n = 0 then zero else rate (of_nat n) dt)"

lemma windows_total: "windows d now n es = (ws, m) \<Longrightarrow> sum_list (map fst ws) + m = n + sent_total d es"
proof (induction d now n es arbitrary: ws m rule: windows.induct)
  case (3 d now n t es)
  then show ?case by (cases "t \<le> now") (auto simp: sent_total_def amount_def split: prod.splits)
qed (auto simp: sent_total_def add_ac)

lemma word_less_add_nat: "unat w + n < 2 ^ 64 \<Longrightarrow> (w < w + of_nat n) = (0 < n)" for w :: u64
proof -
  assume "unat w + n < 2 ^ 64"
  then have "unat (w + of_nat n) = unat w + n" by (simp add: unat_word_ariths unat_of_nat)
  then show ?thesis by (simp add: word_less_nat_alt)
qed

text \<open>One direction of the sampler against the windows.\<close>

fun total_of :: "Direction \<Rightarrow> stats \<Rightarrow> u64" where
  "total_of DirectionOut st = tx st" | "total_of DirectionIn st = rx st"

fun last_of :: "Direction \<Rightarrow> 'f sampler \<Rightarrow> u64" where
  "last_of DirectionOut s = lastTx s" | "last_of DirectionIn s = lastRx s"

fun speed_of :: "Direction \<Rightarrow> 'f sampler \<Rightarrow> 'f" where
  "speed_of DirectionOut s = lastTxSpeed s" | "speed_of DirectionIn s = lastRxSpeed s"

lemma total_of_Add: "total_of d (stats_Add d' n st) = total_of d st + of_nat (amount d (Traffic d' n))"
  by (cases d; cases d') (auto simp: stats_Add_def AddTx_def AddRx_def amount_def)

text \<open>From \<open>s\<close> with \<open>n\<close> bytes not yet sampled, where a history leads to.\<close>

definition sampled_to :: "(u64 \<Rightarrow> int \<Rightarrow> 'f) \<Rightarrow> 'f \<Rightarrow> Direction \<Rightarrow> 'f sampler \<Rightarrow> nat \<Rightarrow> traffic_event list \<Rightarrow> 'f sampler \<Rightarrow> bool" where
  "sampled_to rate zero d s n es s' \<longleftrightarrow>
     (case windows d (lastCalculation s) n es of (ws, m) \<Rightarrow>
        total_of d (sm_stats s') = last_of d s' + of_nat m \<and> lastCalculation s' = clock (lastCalculation s) es \<and>
        total_of d (sm_stats s') = total_of d (sm_stats s) + of_nat (sent_total d es) \<and>
        speed_of d s' = (if ws = [] then speed_of d s else window_speed rate zero ws))"

lemma sampled_to_Traffic:
  "sampled_to rate zero d (traffic_step rate zero s (Traffic d' k)) (n + amount d (Traffic d' k)) es s' \<Longrightarrow>
   sampled_to rate zero d s n (Traffic d' k # es) s'"
  unfolding sampled_to_def sent_total_def
  by (cases d) (auto simp: total_of_Add [of DirectionOut, simplified] total_of_Add [of DirectionIn, simplified] add.assoc split: prod.splits)

lemma sampled_to_Tick:
  assumes "sampled_to rate zero d (sampleAt rate zero t s) 0 es s'" and "initialized s" and "lastCalculation s < t"
    and "total_of d (sm_stats s) = last_of d s + of_nat n" and "unat (last_of d s) + n < 2 ^ 64"
  shows "sampled_to rate zero d s n (Tick t # es) s'"
proof -
  have f: "total_of d (sm_stats (sampleAt rate zero t s)) = total_of d (sm_stats s)" "lastCalculation (sampleAt rate zero t s) = t"
    "speed_of d (sampleAt rate zero t s) = (if n = 0 then zero else rate (of_nat n) (t - lastCalculation s))"
    using assms(2,3,4) word_less_add_nat [OF assms(5)] by (cases d; simp add: sampleAt_def Let_def)+
  have "max (lastCalculation s) t = t" using assms(3) by simp
  with assms(1,3) f show ?thesis
    by (auto simp: sampled_to_def sent_total_def amount_def window_speed_def split: prod.splits)
qed

lemma sampler_direction:
  assumes "initialized s" and "total_of d (sm_stats s) = last_of d s + of_nat n"
    and "unat (last_of d s) + n + sent_total d es < 2 ^ 64"
  shows "sampled_to rate zero d s n es (foldl (traffic_step rate zero) s es)"
  using assms
proof (induction es arbitrary: s n)
  case Nil
  then show ?case by (simp add: sampled_to_def sent_total_def)
next
  case (Cons e es)
  let ?s = "traffic_step rate zero s e"
  show ?case
  proof (cases e)
    case (Traffic d' k)
    have f: "initialized ?s" "last_of d ?s = last_of d s" "total_of d (sm_stats ?s) = total_of d (sm_stats s) + of_nat (amount d e)"
      using Cons.prems(1) Traffic by (cases d; simp add: total_of_Add [of d, simplified] total_of_Add)+
    have "sampled_to rate zero d ?s (n + amount d e) es (foldl (traffic_step rate zero) ?s es)"
      using Cons.prems(2,3) f by (intro Cons.IH) (simp_all add: sent_total_def)
    then show ?thesis using sampled_to_Traffic Traffic by (simp del: traffic_step.simps)
  next
    case (Tick t)
    have n: "unat (last_of d s) + n < 2 ^ 64" using Cons.prems(3) by simp
    show ?thesis
    proof (cases "t \<le> lastCalculation s")
      case True
      then have "?s = s" using Tick Cons.prems(1) by (simp add: sampleAt_def Let_def)
      then show ?thesis using Cons.IH [of s n] Cons.prems True Tick by (simp add: sent_total_def amount_def sampled_to_def max_absorb1)
    next
      case False
      have f: "initialized ?s" "last_of d ?s = total_of d (sm_stats s)" "total_of d (sm_stats ?s) = total_of d (sm_stats s)"
        using Tick False Cons.prems(1) by (cases d; simp add: sampleAt_def Let_def)+
      have "unat (last_of d ?s) = unat (last_of d s) + n"
        using f(2) Cons.prems(2) n by (simp add: unat_word_ariths unat_of_nat)
      then have "sampled_to rate zero d ?s 0 es (foldl (traffic_step rate zero) ?s es)"
        using Cons.prems(3) Tick f by (intro Cons.IH) (simp_all add: sent_total_def amount_def)
      then show ?thesis using sampled_to_Tick [OF _ Cons.prems(1) _ Cons.prems(2) n] False Tick by simp
    qed
  qed
qed

text \<open>
  C25: A reported speed is the traffic of the last sampling window. While no counter has wrapped, after
  any history of traffic and ticks, ticks that do not advance the clock included, the totals are the
  bytes of the history, the two speeds are the quotients of the last closed window, zero
  for an idle one, and the windows of a direction together with what is not yet sampled contain
  every byte exactly once.
\<close>

theorem sampled_speed_exact:
  assumes "sent_total DirectionOut es < 2 ^ 64" and "sent_total DirectionIn es < 2 ^ 64"
  shows "stats_Total (sampleLoop rate zero start es) = (of_nat (sent_total DirectionOut es), of_nat (sent_total DirectionIn es)) \<and>
    CalculateSpeed (sampleLoop rate zero start es) =
      (window_speed rate zero (fst (windows DirectionOut start 0 es)), window_speed rate zero (fst (windows DirectionIn start 0 es))) \<and>
    lastCalculation (sampleLoop rate zero start es) = clock start es \<and>
    (case windows d start 0 es of (ws, m) \<Rightarrow> sum_list (map fst ws) + m = sent_total d es)"
proof -
  let ?s = "newStats rate zero start"
  have s: "initialized ?s" "lastCalculation ?s = start" "\<And>d. total_of d (sm_stats ?s) = 0" "\<And>d. last_of d ?s = 0" "\<And>d. speed_of d ?s = zero"
    subgoal by (simp add: newStats_def sampleAt_def Let_def)
    subgoal by (simp add: newStats_def sampleAt_def Let_def)
    subgoal for d by (cases d) (simp_all add: newStats_def sampleAt_def Let_def)
    subgoal for d by (cases d) (simp_all add: newStats_def sampleAt_def Let_def)
    subgoal for d by (cases d) (simp_all add: newStats_def sampleAt_def Let_def)
    done
  have run: "sampled_to rate zero d ?s 0 es (sampleLoop rate zero start es)" if "sent_total d es < 2 ^ 64" for d
    unfolding sampleLoop_def using that s by (intro sampler_direction) simp_all
  have dir: "total_of d (sm_stats (sampleLoop rate zero start es)) = of_nat (sent_total d es) \<and>
      speed_of d (sampleLoop rate zero start es) = window_speed rate zero (fst (windows d start 0 es)) \<and>
      lastCalculation (sampleLoop rate zero start es) = clock start es" if "sent_total d es < 2 ^ 64" for d
    using run [OF that] s by (auto simp: sampled_to_def window_speed_def split: prod.splits)
  show ?thesis
    using dir [OF assms(1)] dir [OF assms(2)] windows_total [of d start 0 es]
    by (auto simp: stats_Total_def CalculateSpeed_def split: prod.splits)
qed

theorem sampled_speed_exact_witness:
  "CalculateSpeed (sampleLoop (\<lambda>n dt. (unat n, dt)) (0, 0) 5 [Traffic DirectionOut 7, Tick 9, Tick 8, Traffic DirectionIn 3]) = ((7, 4), (0, 0))"
proof -
  let ?es = "[Traffic DirectionOut 7, Tick 9, Tick 8, Traffic DirectionIn 3]"
  have a: "sent_total DirectionOut ?es < 2 ^ 64" "sent_total DirectionIn ?es < 2 ^ 64" by (simp_all add: sent_total_def amount_def)
  show ?thesis
    using sampled_speed_exact [OF a, of "\<lambda>n dt. (unat n, dt)" "(0, 0)" 5] by (simp add: amount_def window_speed_def)
qed

section \<open>Display (utils/io.go, statistic.go)\<close>

text \<open>
  A finite floating-point value, or the infinity of a division by zero. \<open>fmt0\<close> and \<open>fmt2\<close> are the
  formats \<open>%.0f\<close> and \<open>%.2f\<close>; \<open>None\<close> is the panic of an index out of range.
\<close>

datatype float64 = Fin rat | PosInf

function pretty_loop :: "rat \<Rightarrow> 64 word \<Rightarrow> nat \<Rightarrow> 64 word \<times> nat" where
  "pretty_loop n divisor e = (if 1024 \<le> n then pretty_loop (n / 1024) (divisor * 1024) (e + 1) else (divisor, e))"
  by pat_completeness auto

termination
proof (relation "measure (\<lambda>(n, _, _). nat \<lfloor>n\<rfloor>)")
  fix n :: rat and divisor :: "64 word" and e :: nat
  assume n: "1024 \<le> n"
  then have "\<lfloor>n / 1024\<rfloor> < \<lfloor>n\<rfloor>" by linarith
  with n show "((n / 1024, divisor * 1024, e + 1), n, divisor, e) \<in> measure (\<lambda>(n, _, _). nat \<lfloor>n\<rfloor>)" by simp
qed simp

declare pretty_loop.simps [simp del]

definition float_div :: "rat \<Rightarrow> 64 word \<Rightarrow> float64" where
  "float_div b divisor = (if divisor = 0 then PosInf else Fin (b / of_int (sint divisor)))"

definition size_units :: string where "size_units = ''KMGTPEZ''"

definition PrettyByteSize :: "(rat \<Rightarrow> string) \<Rightarrow> (float64 \<Rightarrow> string) \<Rightarrow> rat \<Rightarrow> string option" where
  "PrettyByteSize fmt0 fmt2 b =
     (if b < 1024 then Some (fmt0 b @ ''B'')
      else let (divisor, e) = pretty_loop (b / 1024) 1024 0 in
        if e < length size_units then Some (fmt2 (float_div b divisor) @ [size_units ! e] @ ''iB'') else None)"

lemma pretty_loop_eq:
  assumes "1024 ^ k \<le> n" and "n < 1024 ^ Suc k"
  shows "pretty_loop n divisor e = (divisor * 1024 ^ k, e + k)"
  using assms
proof (induction k arbitrary: n divisor e)
  case 0
  then show ?case by (simp add: pretty_loop.simps)
next
  case (Suc k)
  have "(1 :: rat) \<le> 1024 ^ k" by (rule one_le_power) simp
  then have "1024 \<le> n" using Suc.prems(1) unfolding power_Suc by linarith
  moreover have "pretty_loop (n / 1024) (divisor * 1024) (e + 1) = (divisor * 1024 * 1024 ^ k, e + 1 + k)"
    using Suc.prems by (intro Suc.IH) (simp_all add: field_simps)
  ultimately show ?case by (subst pretty_loop.simps) (simp add: mult.assoc)
qed

lemma power_bracket: "1 \<le> (b :: rat) \<Longrightarrow> b < 1024 ^ n \<Longrightarrow> \<exists>k<n. 1024 ^ k \<le> b \<and> b < 1024 ^ Suc k"
proof (induction n)
  case (Suc n)
  then show ?case by (cases "b < 1024 ^ n") (auto simp: less_Suc_eq)
qed simp

lemma divisor_word: "1 \<le> k \<Longrightarrow> k \<le> 6 \<Longrightarrow> float_div b (1024 ^ k) = Fin (b / 1024 ^ k)"
proof -
  assume "1 \<le> k" "k \<le> 6"
  then have "k \<in> {1, 2, 3, 4, 5, 6}" by auto
  then show ?thesis by (auto simp: float_div_def)
qed

lemma pretty_by_unit:
  assumes "b < 1024 ^ Suc k" and "k = 0 \<or> 1024 ^ k \<le> b"
  shows "PrettyByteSize fmt0 fmt2 b =
    (if k = 0 then Some (fmt0 b @ ''B'')
     else if k \<le> 6 then Some (fmt2 (Fin (b / 1024 ^ k)) @ [''KMGTPE'' ! (k - 1)] @ ''iB'')
     else if k = 7 then Some (fmt2 PosInf @ ''ZiB'') else None)"
proof (cases k)
  case 0
  then show ?thesis using assms by (simp add: PrettyByteSize_def)
next
  case (Suc j)
  have "(1 :: rat) \<le> 1024 ^ j" by (rule one_le_power) simp
  moreover have "1024 * 1024 ^ j \<le> b" using assms(2) Suc by simp
  ultimately have ge: "1024 \<le> b" by linarith
  have loop: "pretty_loop (b / 1024) 1024 0 = (1024 ^ k, j)"
    using pretty_loop_eq [of j "b / 1024" 1024 0] assms Suc by (simp add: field_simps)
  consider "k \<le> 6" | "k = 7" | "7 < k" by linarith
  then show ?thesis
  proof cases
    case 1
    then have "j \<in> {0, 1, 2, 3, 4, 5}" using Suc by auto
    then show ?thesis using ge loop divisor_word [of k b] 1 Suc
      by (auto simp: PrettyByteSize_def size_units_def simp del: power_Suc)
  next
    case 2
    then show ?thesis using ge loop Suc by (simp add: PrettyByteSize_def size_units_def float_div_def)
  next
    case 3
    then show ?thesis using ge loop Suc by (simp add: PrettyByteSize_def size_units_def)
  qed
qed

lemma totals_shown: "PrettyByteSize fmt0 fmt2 (of_nat (unat (w :: u64))) \<noteq> None"
proof -
  let ?b = "of_nat (unat w) :: rat"
  have "unat w < 1024 ^ 7" using unsigned_less [of w, where ?'a = nat] by simp
  then have lt: "?b < 1024 ^ 7" by (metis of_nat_less_iff of_nat_numeral of_nat_power)
  show ?thesis
  proof (cases "?b < 1024")
    case True
    then show ?thesis by (simp add: PrettyByteSize_def)
  next
    case False
    with lt power_bracket [of ?b 7] obtain k where "k < 7" "1024 ^ k \<le> ?b" "?b < 1024 ^ Suc k" by auto
    then show ?thesis by (simp add: pretty_by_unit [of _ k] del: power_Suc)
  qed
qed

text \<open>
  A size between \<open>1024 ^ k\<close> and \<open>1024 ^ (k + 1)\<close> is shown in the unit of \<open>k\<close>, exactly scaled, up to exbibytes.
  Beyond, the 64-bit divisor has wrapped to zero: zebibytes are shown as an infinity, and
  anything larger is a panic. The totals, being 64-bit counters, never get there.
\<close>

theorem PrettyByteSize_exact:
  assumes "b < 1024 ^ Suc k" and "k = 0 \<or> 1024 ^ k \<le> b"
  shows "PrettyByteSize fmt0 fmt2 b =
    (if k = 0 then Some (fmt0 b @ ''B'')
     else if k \<le> 6 then Some (fmt2 (Fin (b / 1024 ^ k)) @ [''KMGTPE'' ! (k - 1)] @ ''iB'')
     else if k = 7 then Some (fmt2 PosInf @ ''ZiB'') else None) \<and>
    PrettyByteSize fmt0 fmt2 (of_nat (unat (w :: u64))) \<noteq> None"
  using pretty_by_unit [OF assms] totals_shown by simp

theorem PrettyByteSize_exact_witness:
  "PrettyByteSize (\<lambda>_. []) (\<lambda>v. if v = Fin (3 / 2) then ''1.50'' else []) (1024 * 1536) = Some ''1.50MiB'' \<and>
   PrettyByteSize (\<lambda>_. []) (\<lambda>v. if v = PosInf then ''+Inf'' else []) (1024 ^ 7) = Some ''+InfZiB''"
  using PrettyByteSize_exact [of "1024 * 1536" 2 "\<lambda>_. []" "\<lambda>v. if v = Fin (3 / 2) then ''1.50'' else []" 0]
    PrettyByteSize_exact [of "1024 ^ 7" 7 "\<lambda>_. []" "\<lambda>v. if v = PosInf then ''+Inf'' else []" 0]
  by simp

text \<open>The strings of \<open>TotalResult\<close> and \<open>SpeedResult\<close>.\<close>

definition TotalResult_String :: "(rat \<Rightarrow> string option) \<Rightarrow> u64 \<Rightarrow> u64 \<Rightarrow> string option" where
  "TotalResult_String pretty sent received =
     (case (pretty (of_nat (unat sent)), pretty (of_nat (unat received))) of
        (Some s, Some r) \<Rightarrow> Some (''Total: '' @ s @ '' sent, '' @ r @ '' received'')
      | _ \<Rightarrow> None)"

definition SpeedResult_String :: "(rat \<Rightarrow> string option) \<Rightarrow> rat \<Rightarrow> rat \<Rightarrow> string option" where
  "SpeedResult_String pretty sent received =
     (case (pretty sent, pretty received) of
        (Some s, Some r) \<Rightarrow> Some (''Speed: '' @ s @ ''/s sent, '' @ r @ ''/s received'')
      | _ \<Rightarrow> None)"

end
