(* ===== verification/Cli.thy ===== *)
theory Cli
  imports Process Indicator Management Traffic
begin

text \<open>
  How a configuration is loaded (\<open>pkg/config/config.go\<close>), and the program's entry point
  (\<open>cmd/spaceship/main.go\<close>). The JSON decoder is an argument in the two ways the source uses it:
  into the structure, and into a map of raw fields.
\<close>

section \<open>Loading a configuration\<close>

record json_lib =
  js_decode :: "string \<Rightarrow> MixedConfig \<Rightarrow> MixedConfig result"
  js_fields :: "string \<Rightarrow> (string \<Rightarrow> string option) result"
  js_first :: "string \<Rightarrow> string result" \<comment> \<open>the first value of a stream\<close>
  js_only :: "string \<Rightarrow> string result" \<comment> \<open>the only value of a text\<close>

definition UnmarshalJSON :: "unicode \<Rightarrow> json_lib \<Rightarrow> string \<Rightarrow> MixedConfig result" where
  "UnmarshalJSON u js data =
     (case js_decode js data newMixedConfig of
        Inl e \<Rightarrow> Inl e
      | Inr c \<Rightarrow>
          (case js_fields js data of
             Inl e \<Rightarrow> Inl e
           | Inr fs \<Rightarrow>
               Inr (c\<lparr>decodedFromJSON := True,
                      idleTimeoutSet := (case fs ''idle_timeout'' of None \<Rightarrow> False | Some raw \<Rightarrow> strings_TrimSpace u raw \<noteq> ''null'')\<rparr>)))"

definition NewFromString :: "unicode \<Rightarrow> json_lib \<Rightarrow> string \<Rightarrow> MixedConfig result" where
  "NewFromString u js text = (case js_only js text of Inl e \<Rightarrow> Inl e | Inr v \<Rightarrow> UnmarshalJSON u js v)"

definition NewFromConfigFile :: "unicode \<Rightarrow> json_lib \<Rightarrow> (string \<Rightarrow> string) \<Rightarrow> (string \<Rightarrow> string result) \<Rightarrow> string \<Rightarrow> MixedConfig result" where
  "NewFromConfigFile u js clean openFile path =
     (case openFile (clean path) of
        Inl e \<Rightarrow> Inl e
      | Inr contents \<Rightarrow> (case js_first js contents of Inl e \<Rightarrow> Inl e | Inr v \<Rightarrow> UnmarshalJSON u js v))"

text \<open>Whether a text sets the idle timeout: the field is there and is not \<open>null\<close>.\<close>

definition sets_idle :: "unicode \<Rightarrow> json_lib \<Rightarrow> string \<Rightarrow> bool" where
  "sets_idle u js v \<longleftrightarrow> (\<exists>fs raw. js_fields js v = Inr fs \<and> fs ''idle_timeout'' = Some raw \<and> strings_TrimSpace u raw \<noteq> ''null'')"

lemma UnmarshalJSON_idle: "UnmarshalJSON u js v = Inr c \<Longrightarrow> applyIdleTimeout c \<longleftrightarrow> sets_idle u js v"
  by (auto simp: UnmarshalJSON_def applyIdleTimeout_def sets_idle_def split: sum.splits option.splits)

lemma UnmarshalJSON_sections:
  assumes "UnmarshalJSON u js v = Inr c" and "js_decode js v newMixedConfig = Inr c0"
  shows "ensureEmbeddedConfigs c = ensureEmbeddedConfigs c0"
  using assms by (auto simp: UnmarshalJSON_def ensureEmbeddedConfigs_def split: sum.splits)

lemma Apply_idleTimeout:
  assumes "Apply env c g = (None, g')" and "ensureEmbeddedConfigs c = (cl, s)"
  shows "idleTimeout (g_transport g') = (if applyIdleTimeout c then c_IdleTimeout cl * 1000000000 else idleTimeout (g_transport g))"
proof -
  from assms(1) obtain g1 where g1: "apply_settings env c cl s g = (None, g1)"
    and rest: "and_then (set_routes env (effective_routes (c_Role c) (c_Routes cl) (s_IPv6 s)))
      (and_then (set_ipv6 (s_IPv6 s)) (set_idle (applyIdleTimeout c) (c_IdleTimeout cl))) g1 = (None, g')"
    unfolding Apply_def assms(2) prod.case by (rule and_then_ok)
  have k: "idleTimeout (g_transport g1) = idleTimeout (g_transport g)"
    using apply_settings_keeping [of env c cl s] g1 unfolding keeping_def keeps_def by blast
  from rest show ?thesis
    by (auto simp: and_then_def set_routes_def set_ipv6_def set_idle_def SetIdleTimeout_def DisableIPv6_def EnableIPv6_def SetNetwork_def k
        split: prod.splits option.splits)
qed

text \<open>
  The three meanings of \<open>idle_timeout\<close>. When a configuration text is loaded and accepted, a field that
  is present and not \<open>null\<close> sets the timeout to that many seconds, zero included; an omitted or \<open>null\<close>
  field leaves the timeout of the process as it was, whatever value the decoder stored in
  the structure.
\<close>

theorem idle_timeout_as_written:
  assumes "NewFromString u js text = Inr c" and "js_only js text = Inr v" and "js_decode js v newMixedConfig = Inr c0"
    and "ensureEmbeddedConfigs c0 = (cl, s)" and "Apply env c g = (None, g')"
  shows "idleTimeout (g_transport g') = (if sets_idle u js v then c_IdleTimeout cl * 1000000000 else idleTimeout (g_transport g)) \<and>
    (sets_idle u js v \<longrightarrow> 0 \<le> c_IdleTimeout cl \<and> c_IdleTimeout cl * 1000000000 < 2 ^ 63)"
proof -
  have u: "UnmarshalJSON u js v = Inr c" using assms(1,2) by (simp add: NewFromString_def)
  have cs: "ensureEmbeddedConfigs c = (cl, s)" using UnmarshalJSON_sections [OF u assms(3)] assms(4) by simp
  have "\<exists>g1. apply_settings env c cl s g = (None, g1)" using assms(5) unfolding Apply_def cs prod.case by (elim and_then_ok) blast
  then have "applyIdleTimeout c \<longrightarrow> 0 \<le> c_IdleTimeout cl \<and> c_IdleTimeout cl \<le> maxIdleTimeoutSeconds"
    using apply_settings_idle by blast
  then show ?thesis using Apply_idleTimeout [OF assms(5) cs] UnmarshalJSON_idle [OF u] by (auto simp: maxIdleTimeoutSeconds_def)
qed

definition ex_json :: json_lib where
  "ex_json = \<lparr>js_decode = (\<lambda>v c. Inr (c\<lparr>c_Role := ''client'', c_Client := Some (zero_client\<lparr>c_UUID := ''u'', c_IdleTimeout := 7\<rparr>)\<rparr>)),
     js_fields = (\<lambda>v. Inr [''idle_timeout'' \<mapsto> v]), js_first = Inr, js_only = Inr\<rparr>"

theorem idle_timeout_as_written_witness:
  "\<exists>c g'. NewFromString plain_unicode ex_json '' 7'' = Inr c \<and> Apply ex_apply_env c ex_globals = (None, g') \<and> idleTimeout (g_transport g') = 7000000000"
proof -
  let ?base = "newMixedConfig\<lparr>c_Role := ''client'', c_Client := Some (zero_client\<lparr>c_UUID := ''u'', c_IdleTimeout := 7\<rparr>)\<rparr>"
  have t: "strings_TrimSpace plain_unicode '' 7'' \<noteq> ''null''" by code_simp
  have c: "NewFromString plain_unicode ex_json '' 7'' = Inr (?base\<lparr>decodedFromJSON := True, idleTimeoutSet := True\<rparr>)"
    using t by (simp add: NewFromString_def UnmarshalJSON_def ex_json_def newMixedConfig_def)
  let ?c = "?base\<lparr>decodedFromJSON := True, idleTimeoutSet := True\<rparr>"
  obtain g' where g0: "Apply ex_apply_env ?c ex_globals = (fst (Apply ex_apply_env ?c ex_globals), g')" by (metis prod.collapse)
  have "fst (Apply ex_apply_env ?c ex_globals) = None" by code_simp
  with g0 have run: "Apply ex_apply_env ?c ex_globals = (None, g')" by simp
  have d: "js_decode ex_json '' 7'' newMixedConfig = Inr ?base" "js_only ex_json '' 7'' = Inr '' 7''" by (simp_all add: ex_json_def)
  have e: "ensureEmbeddedConfigs ?base = (zero_client\<lparr>c_UUID := ''u'', c_IdleTimeout := 7\<rparr>, zero_server)"
    by (simp add: ensureEmbeddedConfigs_def newMixedConfig_def)
  have "sets_idle plain_unicode ex_json '' 7''" using t by (auto simp: sets_idle_def ex_json_def)
  with idle_timeout_as_written [OF c d(2,1) e run] c run show ?thesis by auto
qed

text \<open>
  The decoder matches field names without regard to case, the map of raw fields does not: a field
  spelled \<open>Idle_Timeout\<close> is stored in the structure and then ignored.
\<close>

lemma idle_timeout_case_ignored:
  assumes "NewFromString u js text = Inr c" and "js_only js text = Inr v" and "js_fields js v = Inr fs" and "fs ''idle_timeout'' = None"
    and "ensureEmbeddedConfigs c = (cl, s)" and "Apply env c g = (None, g')"
  shows "idleTimeout (g_transport g') = idleTimeout (g_transport g)"
proof -
  have "UnmarshalJSON u js v = Inr c" using assms(1,2) by (simp add: NewFromString_def)
  from UnmarshalJSON_idle [OF this] have "\<not> applyIdleTimeout c" using assms(3,4) by (simp add: sets_idle_def)
  then show ?thesis using Apply_idleTimeout [OF assms(6,5)] by simp
qed

section \<open>Launching (launcher\_file.go, launcher\_stdin.go)\<close>

type_synonym 'd launcher = "MixedConfig \<Rightarrow> 'd globals \<Rightarrow> goerror option \<times> 'd globals"

definition LaunchFromFile ::
  "unicode \<Rightarrow> json_lib \<Rightarrow> (string \<Rightarrow> string) \<Rightarrow> (string \<Rightarrow> string result) \<Rightarrow> 'd launcher \<Rightarrow> string \<Rightarrow> 'd globals \<Rightarrow> goerror option \<times> 'd globals" where
  "LaunchFromFile u js clean openFile launch path g =
     (case NewFromConfigFile u js clean openFile path of
        Inl e \<Rightarrow> (Some (Wrap ''load config from file'' e), g)
      | Inr m \<Rightarrow> launch m g)"

definition LaunchFromString :: "unicode \<Rightarrow> json_lib \<Rightarrow> 'd launcher \<Rightarrow> string \<Rightarrow> 'd globals \<Rightarrow> goerror option \<times> 'd globals" where
  "LaunchFromString u js launch text g =
     (case NewFromString u js text of
        Inl e \<Rightarrow> (Some (Wrap ''load config from string'' e), g)
      | Inr m \<Rightarrow> launch m g)"

text \<open>
  A launch that ends without an error loaded its configuration, had it accepted, and ran the role it names; with
  internal logging skipped the logger was left alone.
\<close>

lemma launch_ok:
  assumes "LaunchFromFile u js clean openFile (Launch env skip server client) path g = (None, g')"
  shows "\<exists>c. NewFromConfigFile u js clean openFile path = Inr c \<and>
    (\<exists>g1. Apply env (if skip then c\<lparr>c_LogMode := ''skip''\<rparr> else c) g = (None, g1) \<and> g' = g1) \<and>
    (c_Role c = RoleServer \<or> c_Role c = RoleClient)"
  using assms
  by (auto simp: LaunchFromFile_def Launch_def Let_def RoleServer_def RoleClient_def split: sum.splits prod.splits option.splits if_splits)

section \<open>The status line (main.go)\<close>

text \<open>\<open>%8s\<close>, and the symbols of the line in UTF-8.\<close>

definition pad8 :: "string \<Rightarrow> string" where "pad8 s = replicate (8 - length s) (CHR '' '') @ s"

definition up_arrow :: string where "up_arrow = [CHR 0xE2, CHR 0x86, CHR 0x91]"
definition down_arrow :: string where "down_arrow = [CHR 0xE2, CHR 0x86, CHR 0x93]"
definition sigma :: string where "sigma = [CHR 0xCE, CHR 0xA3]"
definition hexagon :: string where "hexagon = [CHR 0xE2, CHR 0xAC, CHR 0xA2]"

definition conn_status :: "ConnQueue option \<Rightarrow> string" where
  "conn_status q =
     (case client_GetConnectionSummary q of (n, _, _) \<Rightarrow>
        if n > 0 then CHR 0x0A # ''['' @ hexagon @ '' '' @ client_GetConnectionStatus q @ '']'' else [])"

definition status_text :: "(rat \<Rightarrow> string option) \<Rightarrow> rat \<times> rat \<Rightarrow> u64 \<times> u64 \<Rightarrow> ConnQueue option \<Rightarrow> string option" where
  "status_text pretty speed totals q =
     (case (pretty (fst speed), pretty (snd speed), pretty (of_nat (unat (fst totals))), pretty (of_nat (unat (snd totals)))) of
        (Some t, Some r, Some tt, Some tr) \<Rightarrow>
          Some (''['' @ up_arrow @ '' '' @ pad8 t @ ''/s '' @ down_arrow @ '' '' @ pad8 r @ ''/s | '' @ sigma @ up_arrow @ '' '' @ pad8 tt @ '' '' @
            sigma @ down_arrow @ '' '' @ pad8 tr @ '']'' @ conn_status q)
      | _ \<Rightarrow> None)"

text \<open>The loop of \<open>showStatsFunc\<close>: ticks with what they read, until the context ends. \<open>None\<close> is a panic.\<close>

datatype stats_select = StatsTick "(int \<times> int) option" "rat \<times> rat" "u64 \<times> u64" "ConnQueue option" | StatsDone

fun stats_loop :: "(rat \<Rightarrow> string option) \<Rightarrow> stats_select list \<Rightarrow> indicator \<Rightarrow> indicator option" where
  "stats_loop pretty [] ir = Some ir"
| "stats_loop pretty (StatsDone # es) ir = Some ir"
| "stats_loop pretty (StatsTick tsize speed totals q # es) ir =
     (case status_text pretty speed totals q of
        None \<Rightarrow> None
      | Some status \<Rightarrow> stats_loop pretty es (fst (UpdateStatus tsize status ir)))"

text \<open>\<open>time.NewTicker\<close> panics on an interval that is not positive.\<close>

definition showStatsFunc :: "(rat \<Rightarrow> string option) \<Rightarrow> int \<Rightarrow> stats_select list \<Rightarrow> indicator \<Rightarrow> indicator option" where
  "showStatsFunc pretty interval es ir = (if interval \<le> 0 then None else stats_loop pretty es ir)"

fun speeds_shown :: "stats_select \<Rightarrow> bool" where
  "speeds_shown (StatsTick tsize speed totals q) \<longleftrightarrow> fst speed < 1024 ^ 8 \<and> snd speed < 1024 ^ 8"
| "speeds_shown StatsDone \<longleftrightarrow> True"

lemma pretty_shown:
  assumes "b < 1024 ^ 8"
  shows "PrettyByteSize fmt0 fmt2 b \<noteq> None"
proof (cases "b < 1024")
  case True
  then show ?thesis by (simp add: PrettyByteSize_def)
next
  case False
  with assms power_bracket [of b 8] obtain k where "k < 8" "1024 ^ k \<le> b" "b < 1024 ^ Suc k" by auto
  then show ?thesis by (cases "k \<le> 6") (simp_all add: pretty_by_unit [of _ k] del: power_Suc)
qed

lemma stats_loop_safe:
  assumes "list_all speeds_shown es"
  shows "\<exists>line. stats_loop (PrettyByteSize fmt0 fmt2) es ir = Some (ir\<lparr>statusLine := line\<rparr>)"
  using assms
proof (induction "PrettyByteSize fmt0 fmt2" es ir rule: stats_loop.induct)
  case (1 ir)
  then show ?case by (auto intro!: exI [of _ "statusLine ir"])
next
  case (2 es ir)
  then show ?case by (auto intro!: exI [of _ "statusLine ir"])
next
  case (3 tsize speed totals q es ir)
  then obtain status where s: "status_text (PrettyByteSize fmt0 fmt2) speed totals q = Some status"
    using pretty_shown [of "fst speed" fmt0 fmt2] pretty_shown [of "snd speed" fmt0 fmt2] totals_shown [of fmt0 fmt2 "fst totals"]
      totals_shown [of fmt0 fmt2 "snd totals"] by (auto simp: status_text_def)
  have "fst (UpdateStatus tsize status ir) = ir\<lparr>statusLine := status\<rparr>" by (auto simp: UpdateStatus_def Let_def)
  with 3 s show ?case by auto
qed

text \<open>The status loop ends without a panic and changes nothing but the status line, if its interval is positive.\<close>

lemma showStats_safe:
  assumes "list_all speeds_shown es"
  shows "(0 < interval \<longrightarrow> (\<exists>line. showStatsFunc (PrettyByteSize fmt0 fmt2) interval es ir = Some (ir\<lparr>statusLine := line\<rparr>))) \<and>
    (interval \<le> 0 \<longrightarrow> showStatsFunc (PrettyByteSize fmt0 fmt2) interval es ir = None)"
  using stats_loop_safe [OF assms] by (simp add: showStatsFunc_def)

section \<open>The entry point\<close>

record main_flags =
  fl_configPath :: string
  fl_showVersion :: bool
  fl_showStats :: bool
  fl_managementAddr :: string

datatype main_effect =
    PrintVersion | OpenIndicator | LogToIndicator | StartStats | NotATerminal | StartManagement string | Banner
  | CancelManagement | CancelStats | CloseIndicator | LogToStderr | Fatal goerror | MainPanic

text \<open>
  What \<open>main\<close> does, in order. \<open>launch skip path\<close> is the result of \<open>LaunchFromFile\<close> with internal logging
  skipped or not. Deferred calls run last in, first out, and not at all after \<open>log.Fatalf\<close>.
\<close>

definition main_start :: "bool \<Rightarrow> main_flags \<Rightarrow> main_effect list" where
  "main_start isTerminal fl =
     (if fl_showStats fl then (if isTerminal then [OpenIndicator, LogToIndicator, StartStats] else [NotATerminal]) else []) @
     (if fl_managementAddr fl \<noteq> [] then [StartManagement (fl_managementAddr fl)] else []) @ [Banner]"

definition main_end :: "bool \<Rightarrow> main_flags \<Rightarrow> goerror option \<Rightarrow> main_effect list" where
  "main_end shown fl err =
     (case err of
        Some e \<Rightarrow> (if shown then [CancelStats, CloseIndicator, LogToStderr] else []) @ [Fatal e]
      | None \<Rightarrow> (if fl_managementAddr fl \<noteq> [] then [CancelManagement] else []) @ (if shown then [CancelStats, CloseIndicator] else []))"

definition spaceship_main ::
  "bool \<Rightarrow> (int \<times> int) option \<Rightarrow> (bool \<Rightarrow> string \<Rightarrow> goerror option) \<Rightarrow> main_flags \<Rightarrow> main_effect list" where
  "spaceship_main isTerminal tsize launch fl =
     (if fl_showVersion fl then [PrintVersion]
      else let shown = (fl_showStats fl \<and> isTerminal) in
        if shown \<and> NewIndicator tsize = None then [MainPanic]
        else main_start isTerminal fl @ main_end shown fl (launch shown (fl_configPath fl)))"

text \<open>Where log lines go after a sequence of effects.\<close>

fun log_sink_after :: "bool \<Rightarrow> main_effect list \<Rightarrow> bool" where
  "log_sink_after toIndicator [] = toIndicator"
| "log_sink_after toIndicator (LogToIndicator # es) = log_sink_after True es"
| "log_sink_after toIndicator (LogToStderr # es) = log_sink_after False es"
| "log_sink_after toIndicator (_ # es) = log_sink_after toIndicator es"

text \<open>
  The terminal is given back on every way out. An indicator that was opened is closed exactly once, after the goroutine
  that updates it was told to stop; and when the launch fails, the message that says why is
  logged to the standard error output and not to the closed indicator.
\<close>

lemma main_gives_terminal_back:
  assumes "spaceship_main isTerminal tsize launch fl = es" and "MainPanic \<notin> set es"
  shows "count_list es CloseIndicator = count_list es OpenIndicator \<and> count_list es OpenIndicator \<le> 1 \<and>
    (OpenIndicator \<in> set es \<longrightarrow> (\<exists>a b. es = a @ [CancelStats, CloseIndicator] @ b \<and> OpenIndicator \<in> set a \<and> StartStats \<in> set a)) \<and>
    (Fatal e \<in> set es \<longrightarrow> (\<exists>a. es = a @ [Fatal e] \<and> \<not> log_sink_after False a))"
proof -
  let ?shown = "fl_showStats fl \<and> isTerminal"
  show ?thesis
  proof (cases "fl_showVersion fl")
    case True
    then show ?thesis using assms by (auto simp: spaceship_main_def)
  next
    case False
    then have es: "es = main_start isTerminal fl @ main_end ?shown fl (launch ?shown (fl_configPath fl))"
      using assms by (auto simp: spaceship_main_def Let_def split: if_splits)
    have counts: "count_list (main_start isTerminal fl) CloseIndicator = 0" "count_list (main_start isTerminal fl) OpenIndicator = of_bool ?shown"
      "Fatal e \<notin> set (main_start isTerminal fl)" "?shown \<longrightarrow> StartStats \<in> set (main_start isTerminal fl) \<and> OpenIndicator \<in> set (main_start isTerminal fl)"
      "\<not> ?shown \<longrightarrow> \<not> log_sink_after False (main_start isTerminal fl) \<and> OpenIndicator \<notin> set (main_start isTerminal fl)"
      by (auto simp: main_start_def)
    have sink: "log_sink_after b (xs @ [CancelStats, CloseIndicator, LogToStderr]) = False" for b xs
      by (induction b xs rule: log_sink_after.induct) simp_all
    show ?thesis
    proof (cases "launch ?shown (fl_configPath fl)")
      case None
      let ?m = "if fl_managementAddr fl \<noteq> [] then [CancelManagement] else []"
      have "es = main_start isTerminal fl @ ?m @ (if ?shown then [CancelStats, CloseIndicator] else [])"
        unfolding es None by (simp add: main_end_def)
      then show ?thesis using counts by (auto intro: exI [of _ "main_start isTerminal fl @ ?m"])
    next
      case (Some e')
      show ?thesis
      proof (cases ?shown)
        case True
        then have "es = (main_start isTerminal fl @ [CancelStats, CloseIndicator, LogToStderr]) @ [Fatal e']"
          unfolding es Some by (simp add: main_end_def)
        moreover have "es = main_start isTerminal fl @ [CancelStats, CloseIndicator] @ [LogToStderr, Fatal e']"
          using calculation by simp
        ultimately show ?thesis using counts True sink [of False "main_start isTerminal fl"] by auto
      next
        case False
        then have "es = main_start isTerminal fl @ [Fatal e']" unfolding es Some by (simp add: main_end_def)
        then show ?thesis using counts False by auto
      qed
    qed
  qed
qed

end
