(* ===== verification/Spec2Isabelle.thy ===== *)
theory Spec2Isabelle
  imports UdpRelayStop UdpRelayFlow SocksServer ConnPool DnsBridge HttpProxy ConfigApply Management Tunnel
    Transports PacketConn RpcClient RpcServer RpcCall RpcOptions Process FrontEnds Indicator Cli
begin

text \<open>
  \<^bold>\<open>spaceship\<close>: a proxy whose client accepts SOCKS5, HTTP and DNS traffic and sends it to a server
  through a gRPC tunnel, directly, through an upstream proxy, or nowhere, as its routing rules
  say. This development models the Go sources under \<open>src/\<close> and proves what they do.

  \<^bold>\<open>How the parts interact.\<close> \<open>api/launcher.go\<close> applies a configuration (\<open>pkg/config\<close>) to the settings
  of the process, creates the pool of gRPC connections and runs the front ends in one error
  group. A front end (\<open>internal/socks\<close>, \<open>internal/http\<close>) authenticates its client, asks
  \<open>internal/router\<close> for a transport and hands both ends of the connection to the transport's
  \<open>Proxy\<close>, or runs a UDP relay that dials one packet connection per flow. The RPC transport
  (\<open>internal/transport/rpc/client\<close>) opens a stream on a pooled connection; the server
  (\<open>internal/transport/rpc/server\<close>) dials the target and copies. DNS questions travel as one
  call each. The management API reports pool and traffic counters to the local host.

  \<^bold>\<open>Theories and sources.\<close>
  \<^item> \<open>Prelude\<close>: sentinel errors and \<open>errors.Is\<close>, machine integer types, shared lemmas, and the
    locale \<open>draining\<close>: a step relation with an invariant, a goal and a measure that every step
    decreases, with progress towards the goal, interpreted on eight shutdowns below; and the locale
    \<open>refining\<close>: a stuttering simulation, interpreted on the server process and on the tunnel.
  \<^item> \<open>GoStrings\<close>, \<open>GoNet\<close>, \<open>GoIO\<close>: what the sources use of Go's \<open>strings\<close>, \<open>strconv\<close>, \<open>net\<close>,
    \<open>net/netip\<close> and \<open>io\<close>. A connection is the bytes its peer will send, the error after them,
    the writes delivered and which writes fail; a computation on it returns a value or an
    error with the new connection.
  \<^item> \<open>HostUtils\<close> (\<open>internal/utils\<close>), \<open>RouteTable\<close> (\<open>router/table.go\<close>, the CLOCK cache), \<open>Router\<close>
    (\<open>router/route.go\<close>, \<open>routes.go\<close>, \<open>cache.go\<close>, \<open>egress.go\<close>): the state is a record per struct, one
    definition per method; a memoised lookup equals a scan of the rules, and \<open>GenerateCache\<close>, with
    the operations of other goroutines given for each of its attempts, loses no update.
  \<^item> \<open>Credentials\<close>, \<open>SocksWire\<close>, \<open>SocksServer\<close> (\<open>socks/auth.go\<close>, \<open>request.go\<close>, \<open>socks.go\<close>): negotiation,
    addresses, replies and the three commands on one connection, every early return included,
    with \<open>relay.Close\<close> at each place \<open>handleAssociate\<close> and \<open>Run\<close> call it; what each command is
    answered with, byte for byte.
  \<^item> \<open>UdpLimiter\<close>, \<open>UdpHeader\<close>, \<open>UdpRelay\<close>, \<open>UdpRelayInv\<close>, \<open>UdpRelayStop\<close>, \<open>UdpRelayFlow\<close> (\<open>socks/udp.go\<close>):
    limits, datagram formats, the NAT table, and the relay as a step relation over a multiset of
    goroutines, each with a program counter; its ledger and bounds, that a closed relay comes to
    an end, and that every datagram belongs to a flow of the client and comes from its target.
  \<^item> \<open>TransportBase\<close>, \<open>Transports\<close> (\<open>transport/*.go\<close>, \<open>direct\<close>, \<open>forward\<close>, \<open>blackhole\<close>): settings, counters,
    buffer pool, closing helpers, dialing, and the two-way session of a local egress.
  \<^item> \<open>ConnPool\<close>, \<open>RpcClient\<close> (\<open>rpc/client/queue.go\<close>, \<open>wrapper.go\<close>, \<open>client.go\<close>, the dynamic clients): the
    pool with its load counters as 32-bit words, credentials, and the client's life cycle.
  \<^item> \<open>RpcServer\<close>, \<open>RpcOptions\<close> (\<open>rpc/server/server.go\<close>, \<open>dynamic_server.go\<close>, \<open>rpc/options.go\<close>): TLS, \<open>NewServer\<close>,
    \<open>ListenAndServe\<close> with its watcher as a step relation, the server process built from it as a
    refinement of that of \<open>Process\<close>; the limits both ends give to gRPC, the range of every
    setting of the process, and that an accepted configuration is in force.
  \<^item> \<open>RpcCall\<close> (\<open>rpc/interceptor.go\<close>, \<open>rpc/config.go\<close>, \<open>dynamic_client.go\<close>, \<open>dynamic_server.go\<close>, \<open>dynamic_service.go\<close>): a call
    from the client's stub through the interceptors of both ends to the implementation.
  \<^item> \<open>FrontEnds\<close> (\<open>socks/socks.go\<close>, \<open>http/http.go\<close>, \<open>dns/dns.go\<close>): starting and closing the inbound servers, with
    the goroutine each of them starts, as a step relation.
  \<^item> \<open>Traffic\<close> (\<open>transport/stats.go\<close>, \<open>utils/io.go\<close>, \<open>api/statistic.go\<close>), \<open>Cli\<close> (\<open>cmd/spaceship/main.go\<close>,
    \<open>api/launcher_file.go\<close>, \<open>launcher_stdin.go\<close>, loading of \<open>pkg/config/config.go\<close>): the sampler and the display of
    sizes, loading a configuration, the status line and the entry point with its deferred
    calls.
  \<^item> \<open>RpcTunnel\<close>, \<open>ClientSession\<close>, \<open>ServerSession\<close>, \<open>PacketConn\<close> (\<open>rpc/client/forwarder.go\<close>,
    \<open>rpc/server/forwarder.go\<close>, \<open>packet_conn.go\<close>): \<open>RpcTunnel\<close> has what each copy function does with one
    message or read; the other three have the goroutines, channels and contexts around them
    as labelled step relations. A step runs one goroutine up to its next interaction; what the
    network, the peers and the clock answer is quantified in the rules.
  \<^item> \<open>DnsBridge\<close> (\<open>dns/dns.go\<close>, \<open>rpc/utils\<close>, \<open>rpc/server/dns.go\<close>, \<open>rpc/interceptor.go\<close>, users), \<open>HttpProxy\<close>
    (\<open>internal/http\<close>), \<open>ConfigApply\<close> (\<open>pkg/config\<close>, \<open>pkg/logger\<close>, \<open>api/launcher.go\<close>), \<open>Management\<close>
    (\<open>internal/management\<close>), \<open>Process\<close> (\<open>api/\<close> and the service loops), \<open>Indicator\<close>
    (\<open>internal/indicator\<close>).
  \<^item> \<open>Tunnel\<close>: the two ends of a stream as one system. A state is a client session, the handler of
    its stream and the messages in flight each way; a step is one of either end, synchronised
    on the messages. gRPC delivers in order and may fail at any time. This theory has the
    properties of the whole.

  \<^bold>\<open>What is shown.\<close> Safety of the UDP relay under every interleaving (nothing leaks, limits hold,
  each flow is between the associated client and its own target) and that it stops; the tunnel of both ends carries
  bytes unchanged in both directions under every interleaving, refines a pair of pipes, and
  ends at both ends whichever gives up first; a client session never writes late and reports
  its server's address; the messages of a stream follow the protocol; bytes and datagrams arrive unchanged
  and in order through every transport, are counted and sampled exactly, and always fit the
  limits of gRPC; routing equals its
  specification; nothing is served without credentials, a call of the
  tunnel reaches its handler only as a configured user, hop-by-hop headers never leave, IPv6
  stays off, TLS is never downgraded, the management API answers the local host only; parsers
  accept exactly the well-formed messages and round trips hold; rejected configurations leave
  routing alone and every setting stays in its range; the process and its RPC server stop, and
  the server in detail refines the process and exits cleanly. Where the code does something else than it means to, the
  theorem says what it does: a repeated acceptance hangs a client session, a failed plain HTTP
  request gets no status, a connection of the pool that was shut down is never replaced, the
  final chunk of an upload may be dropped, a terminal without rows makes the indicator panic, a
  null user makes the server panic, a failed accept leaves the listener open, an idle timeout in another case is ignored.

  \<^bold>\<open>Bounds, fuel and assumptions.\<close> Loops are recursive functions on their input or step
  relations; there is no fuel. Bounded shutdowns are stated as a number of steps of the
  goroutines involved, with reads of peers that are still open left out: a blocked read moves
  when its connection is closed, a receive when its stream is cancelled. A write is
  one step, which succeeds or fails and takes all of its bytes or none (partial writes, in
  particular those of \<open>copyClientToTarget\<close> and \<open>copyTargetToSRC\<close>, are left out): a peer that neither
  reads nor closes is outside the model. Counters and lengths
  are words where they wrap. Third-party code is an argument: SHA-256,
  the JSON decoder, floating-point quotients and number formats, the public suffix list,
  the DNS library, gRPC, \<open>net/http\<close>, certificates, sockets, the resolver. Hypotheses state
  documented behaviour of it (packing and unpacking of records are inverse, an IPv4 lookup
  answers an IPv4 address) and have a witness.

  \<^bold>\<open>Atomicity and documented behaviour built in.\<close> In the relay's step relation a worker that
  handles a datagram is a goroutine of its own from the start; the reader of the client socket
  (\<open>readLoop_iter\<close>), the pool of workers, \<open>close(jobs)\<close> and \<open>workers.Wait\<close> are not part of it,
  and \<open>handleAssociate\<close> is modelled without the traffic between its start and its end.
  \<open>GetConn\<close> picks, checks and uses a connection in one step, where the code gives its lock back
  in between; \<open>take_result\<close> has the end of a copying goroutine of an egress, \<open>process_step\<close> the
  \<open>Close\<close> or \<open>Shutdown\<close> of a front end, with its timeout, in one step each; the operations that
  run while \<open>GenerateCache\<close> compiles are whole calls, as each holds the lock for what it changes.
  The dispatch of a call (\<open>serve_unary\<close>, \<open>serve_stream\<close>) and the life cycle of a server
  (\<open>listener_step\<close>) have gRPC's documented behaviour in their rules: calls are delivered or
  refused by the interceptors, and metadata that gRPC would not carry is not told apart.
  \<open>wire_header\<close> is what \<open>Request.Write\<close> of \<open>net/http\<close> puts on the wire for the fields the proxy sets.

  \<^bold>\<open>Not modelled.\<close> The protocol buffer and gRPC code generated into \<open>rpc/proto\<close>, JSON decoding itself, the parsing of
  flags, signal registration, the text of log lines and the escape sequences of the terminal.
\<close>

section \<open>Both ends of a stream\<close>

text \<open>A tunnel that carries two bytes up and one byte down, and whose caller then goes away.\<close>

definition ex_open :: tunnel where
  "ex_open = tunnel_start ''h:1'' ex_forwarder (conn_of []) (conn_of [])"

definition ex_uploaded :: tunnel where
  "ex_uploaded = (client_moves (upload ([1, 2], None) None (tn_client ex_open)) ex_open)\<lparr>tn_read := tn_read ex_open @ [1, 2]\<rparr>"

definition ex_dialed :: tunnel where
  "ex_dialed = server_moves
     (do_handshake init_settings (Inr (SrcHeader ''h:1'' TCP)) (\<lambda>_. Inr 0) (\<lambda>_ _ _. None) False (tn_server ex_uploaded))
     (ex_uploaded\<lparr>tn_up := [SrcPayload [1, 2]]\<rparr>)"

definition ex_written :: tunnel where
  "ex_written = server_moves (sv_receive (SrcPayload [1, 2]) (tn_server ex_dialed)) (ex_dialed\<lparr>tn_up := []\<rparr>)"

definition ex_acked :: tunnel where
  "ex_acked = server_moves ((tn_server ex_written)\<lparr>sv_down := Accepting, sv_ack := False\<rparr>) ex_written"

definition ex_announcing :: tunnel where
  "ex_announcing = server_moves
     ((tn_server ex_acked)\<lparr>sv_sent := sv_sent (tn_server ex_acked) @ [accept_message ''l:1''], sv_down := Reading\<rparr>) ex_acked"

definition ex_fetching :: tunnel where
  "ex_fetching = (server_moves (sv_copy ([7], None) None (tn_server ex_announcing)) ex_announcing)\<lparr>tn_fetched := tn_fetched ex_announcing @ [7]\<rparr>"

definition ex_told :: tunnel where
  "ex_told = client_moves (receive (accept_message ''l:1'') (tn_client ex_fetching)) (ex_fetching\<lparr>tn_down := [payload_msg [7]]\<rparr>)"

definition ex_delivered :: tunnel where
  "ex_delivered = client_moves (receive (payload_msg [7]) (tn_client ex_told)) (ex_told\<lparr>tn_down := []\<rparr>)"

definition ex_left :: tunnel where
  "ex_left = client_moves ((tn_client ex_delivered)\<lparr>ss_ctxDone := True\<rparr>) ex_delivered"

lemma ex_delivered_reachable: "tunnel_reachable ex_open ex_delivered"
proof -
  have "ss_up (tn_client ex_open) = Uploading" "sv_up (tn_server ex_uploaded) = Handshaking"
    "tn_up ex_uploaded = [SrcHeader ''h:1'' TCP, SrcPayload [1, 2]]" "sv_inner (tn_server ex_dialed) = InnerRecv"
    "tn_up ex_dialed = [SrcPayload [1, 2]]" "sv_down (tn_server ex_written) = WaitAck" "sv_ack (tn_server ex_written)"
    "sv_down (tn_server ex_acked) = Accepting" "sv_down (tn_server ex_announcing) = Reading"
    "copyTargetToClient (sv_network (tn_server ex_announcing)) None ([7], None) = ([payload_msg [7]], None)"
    "ss_down (tn_client ex_fetching) = Receiving" "tn_down ex_fetching = [accept_message ''l:1'', payload_msg [7]]"
    "ss_down (tn_client ex_told) = Receiving" "tn_down ex_told = [payload_msg [7]]"
    by code_simp+
  note p = this
  have "tunnel_step (AtClient AUpload) ex_open ex_uploaded"
    using Tn_upload [OF p(1), of "([1, 2], None)" None] by (simp add: ex_uploaded_def)
  moreover have "tunnel_step (AtServer SHandshake) ex_uploaded ex_dialed" unfolding ex_dialed_def by (rule Tn_handshake [OF p(2,3)])
  moreover have "tunnel_step (AtServer SRecv) ex_dialed ex_written" unfolding ex_written_def by (rule Tn_srv_recv [OF p(4,5)])
  moreover have "tunnel_step (AtServer SDown) ex_written ex_acked"
    unfolding ex_acked_def by (rule Tn_server [OF Acked [OF p(6,7)]]) simp
  moreover have "tunnel_step (AtServer SAccept) ex_acked ex_announcing"
    unfolding ex_announcing_def by (rule Tn_server [OF Accept_sent [OF p(8)]]) simp
  moreover have "tunnel_step (AtServer SCopy) ex_announcing ex_fetching"
    using Tn_copy [OF p(9,10)] by (simp add: ex_fetching_def)
  moreover have "tunnel_step (AtClient ARecv) ex_fetching ex_told" unfolding ex_told_def by (rule Tn_recv [OF p(11,12)])
  moreover have "tunnel_step (AtClient ARecv) ex_told ex_delivered" unfolding ex_delivered_def by (rule Tn_recv [OF p(13,14)])
  ultimately show ?thesis by (meson Tunnel_init Tunnel_step)
qed

lemma ex_left_reachable: "tunnel_reachable ex_open ex_left"
  unfolding ex_left_def by (rule Tunnel_step [OF ex_delivered_reachable Tn_client [OF Cancelled]]) simp

text \<open>
  C6: End to end, under every interleaving of the goroutines of both ends, the target receives
  a prefix of the bytes the client read from its caller, and the caller a prefix of those the
  server read from the target. Nothing but the messages in flight is missing while both ends
  of a direction run. The first message a server takes is the header with the address the
  caller asked for, and the local address a caller is told is the one its server announced. The
  counters of the session and of the process grow by exactly the bytes sent on the stream
  and those written to the caller.
\<close>

theorem tunnel_faithful:
  assumes "tunnel_reachable (tunnel_start addr f w c) T"
  shows "(\<exists>rest. tn_read T = written_since c (sv_conn (tn_server T)) @ rest \<and>
      (ss_up (tn_client T) = Uploading \<and> (\<forall>e. sv_inner (tn_server T) \<noteq> InnerEnded e) \<longrightarrow> rest = src_bytes (tn_up T))) \<and>
    (\<exists>rest. tn_fetched T = written_since w (ss_writer (tn_client T)) @ rest \<and>
      (sv_down (tn_server T) \<noteq> DownReturned \<and> (\<forall>e. ss_down (tn_client T) \<noteq> DownEnded e) \<longrightarrow> rest = dst_bytes (tn_down T))) \<and>
    (sv_up (tn_server T) = Handshaking \<longrightarrow> (\<exists>ms. tn_up T = SrcHeader addr TCP # ms)) \<and>
    (ss_announced (tn_client T) = [] \<or>
      (\<exists>l ms. ss_announced (tn_client T) = [l] \<and> sv_sent (tn_server T) = accept_message l # ms)) \<and>
    session_counted fw_stats f w (tn_client T) \<and> session_counted fw_global f w (tn_client T)"
proof -
  have d: "stream_inv addr T" "up_conveyed c T" "down_conveyed w T" using tunnel_reachable_data [OF assms] by auto
  have "ss_announced (tn_client T) = [] \<or>
      (\<exists>l ms. ss_announced (tn_client T) = [l] \<and> sv_sent (tn_server T) = accept_message l # ms)"
    using tunnel_received [of addr f w "tn_client T" c "tn_server T" "tn_down T"] tunnel_reachable_ends [OF assms] d(1)
    by (auto simp: stream_inv_def)
  moreover have "sv_up (tn_server T) = Handshaking \<longrightarrow> (\<exists>ms. tn_up T = SrcHeader addr TCP # ms)"
    using d(1) by (auto simp: stream_inv_def)
  moreover have "session_counted fw_stats f w (tn_client T)" "session_counted fw_global f w (tn_client T)"
    using session_reachable_counted [OF conjunct1 [OF tunnel_reachable_ends [OF assms]]] by simp_all
  ultimately show ?thesis
    using conveyed_written [OF d(2) [unfolded up_conveyed_def]] conveyed_written [OF d(3) [unfolded down_conveyed_def]] by blast
qed

theorem tunnel_faithful_witness:
  "written_since (conn_of []) (sv_conn (tn_server ex_delivered)) = [1, 2] \<and>
   written_since (conn_of []) (ss_writer (tn_client ex_delivered)) = [7] \<and> tx (fw_stats (ss_fw (tn_client ex_delivered))) = 2"
proof -
  have "tn_read ex_delivered = [1, 2]" "tn_fetched ex_delivered = [7]" "tn_up ex_delivered = []" "tn_down ex_delivered = []"
    "ss_up (tn_client ex_delivered) = Uploading" "sv_inner (tn_server ex_delivered) = InnerRecv"
    "sv_down (tn_server ex_delivered) = Reading" "ss_down (tn_client ex_delivered) = Receiving"
    "tx (fw_stats ex_forwarder) = 0" "src_bytes (ss_out (tn_client ex_delivered)) = [1, 2]" by code_simp+
  with tunnel_faithful [OF ex_delivered_reachable [unfolded ex_open_def]] show ?thesis by (auto simp: session_counted_def)
qed

text \<open>
  C7: A tunnel comes to an end as a whole, whichever end is the first to give up. From every
  reachable state in which the context of the client session or that of the server's handler
  has ended, at most twenty-four steps and one for every message in flight remain that do not
  wait for the caller or the target, in any order; a schedule that cannot be continued has
  returned from \<open>Start\<close> at the client and from \<open>Server.Proxy\<close> at the server, and every schedule
  can be continued to that state.
\<close>

theorem tunnel_shuts_down:
  assumes "tunnel_reachable (tunnel_start addr f w c) T" and "ss_ctxDone (tn_client T) \<or> sv_ctxDone (tn_server T)"
    and "(tunnel_closing_step ^^ n) T T'"
  shows "n \<le> 24 + length (tn_up T) + length (tn_down T) \<and> (tunnel_over T' \<or> (\<exists>T''. tunnel_closing_step T' T'')) \<and>
    (\<exists>T''. tunnel_closing_step\<^sup>*\<^sup>* T' T'' \<and> tunnel_over T'')"
proof -
  have "tunnel_closing T" using assms(1,2) unfolding tunnel_closing_def by blast
  then show ?thesis by (rule tunnel_end.drains [OF _ tunnel_work_bound assms(3)])
qed

theorem tunnel_shuts_down_witness:
  "\<not> tunnel_over ex_left \<and> (\<exists>T. tunnel_closing_step\<^sup>*\<^sup>* ex_left T \<and> session_over (tn_client T) \<and> sv_done (tn_server T))"
proof -
  have "ss_ctxDone (tn_client ex_left)" "\<not> tunnel_over ex_left" by code_simp+
  then show ?thesis
    using tunnel_shuts_down [OF ex_left_reachable [unfolded ex_open_def], of 0 ex_left] by (simp add: tunnel_over_def)
qed

text \<open>
  C8: The tunnel refines its specification, a byte pipe in each direction: every step of either
  end, in every reachable state, is a step of one of the two pipes or no step at all, and the
  whole run is a run of the two pipes that starts with both empty.
\<close>

theorem tunnel_refines_pipes:
  assumes "tunnel_reachable (tunnel_start addr f w c) T"
  shows "pipes_step\<^sup>*\<^sup>* (empty_pipe, empty_pipe) (tunnel_pipes w c T) \<and>
    (\<forall>a T'. tunnel_step a T T' \<longrightarrow>
       tunnel_pipes w c T' = tunnel_pipes w c T \<or> pipes_step (tunnel_pipes w c T) (tunnel_pipes w c T'))"
  using tunnel_spec.run_refines [OF tunnel_reachable_moves [OF assms] carries_start] tunnel_step_pipes [OF _ assms]
  unfolding carries_def by blast

theorem tunnel_refines_pipes_witness:
  "pipes_step\<^sup>*\<^sup>* (empty_pipe, empty_pipe) (\<lparr>pp_in = [1, 2], pp_out = [1, 2]\<rparr>, \<lparr>pp_in = [7], pp_out = [7]\<rparr>)"
proof -
  have "tunnel_pipes (conn_of []) (conn_of []) ex_delivered = (\<lparr>pp_in = [1, 2], pp_out = [1, 2]\<rparr>, \<lparr>pp_in = [7], pp_out = [7]\<rparr>)"
    by code_simp
  then show ?thesis using tunnel_refines_pipes [OF ex_delivered_reachable [unfolded ex_open_def]] by simp
qed

end
